(* ===== verification/Kernel_Prelude.thy ===== *)
theory Kernel_Prelude
  imports Main "HOL-Library.Word"
begin

unbundle bit_operations_syntax

section \<open>Prelude: Rust values, panics, results and byte buffers\<close>

text \<open>
  What every component shares: the machine integers of the target (\<open>x86_64\<close>, 64-bit
  pointers), panics and \<open>Result\<close> as values, the checked arithmetic that the build profile
  asks for (\<open>overflow-checks = true\<close> in \<open>.cargo/config.toml\<close>), range indexing of
  slices, and a small state monad for the code that talks to a device. A \<open>usize\<close> that is
  an index into a buffer of a known small size is a \<open>nat\<close>; a \<open>usize\<close> or \<open>u64\<close> that is
  an address, a size of memory or a number stored on disk is a 64-bit word.
\<close>

named_theorems io_simps \<open>evaluation and inversion of device computations\<close>
named_theorems ck_simps \<open>checked arithmetic read back as arithmetic on natural numbers\<close>

type_synonym u8 = "8 word"
type_synonym u16 = "16 word"
type_synonym u32 = "32 word"
type_synonym u64 = "64 word"
type_synonym usize = "64 word"

lemma find_map_list: "find P (map f xs) = map_option f (find (P \<circ> f) xs)"
  by (induction xs) simp_all

subsection \<open>Panics and results\<close>

text \<open>
  \<open>'a outcome\<close> is the result of a call that may panic (the kernel is built with
  \<open>panic = "abort"\<close>, so nothing runs after a panic). \<open>('a, 'e) result\<close> is Rust's
  \<open>Result\<close>.
\<close>

datatype 'a outcome = Ret 'a | Panic

datatype ('a, 'e) result = Ok 'a | Err 'e

definition bind_out :: "'a outcome \<Rightarrow> ('a \<Rightarrow> 'b outcome) \<Rightarrow> 'b outcome" where
  "bind_out m f = (case m of Ret x \<Rightarrow> f x | Panic \<Rightarrow> Panic)"

lemma bind_out_simps [simp]:
  "bind_out (Ret x) f = f x"
  "bind_out Panic f = Panic"
  by (simp_all add: bind_out_def)

lemma bind_out_Ret_iff [io_simps]:
  "bind_out m f = Ret y \<longleftrightarrow> (\<exists>x. m = Ret x \<and> f x = Ret y)"
  by (cases m) auto

lemma bind_out_Panic_iff [io_simps]:
  "bind_out m f = Panic \<longleftrightarrow> m = Panic \<or> (\<exists>x. m = Ret x \<and> f x = Panic)"
  by (cases m) auto

lemma bind_out_cong [fundef_cong]:
  "\<lbrakk>m = m'; \<And>x. m' = Ret x \<Longrightarrow> f x = f' x\<rbrakk> \<Longrightarrow> bind_out m f = bind_out m' f'"
  by (cases m') simp_all

primrec res_map_err :: "('e \<Rightarrow> 'f) \<Rightarrow> ('a, 'e) result \<Rightarrow> ('a, 'f) result" where
  "res_map_err f (Ok x) = Ok x"
| "res_map_err f (Err e) = Err (f e)"

subsection \<open>Checked arithmetic\<close>

text \<open>
  \<open>a + b\<close>, \<open>a - b\<close> and \<open>a * b\<close> panic on overflow in this build; \<open>checked_add\<close> is the
  library call that returns \<open>None\<close> instead.
\<close>

definition add_ck :: "'a::len word \<Rightarrow> 'a word \<Rightarrow> 'a word outcome" where
  "add_ck a b = (if unat a + unat b < 2 ^ LENGTH('a) then Ret (a + b) else Panic)"

definition sub_ck :: "'a::len word \<Rightarrow> 'a word \<Rightarrow> 'a word outcome" where
  "sub_ck a b = (if b \<le> a then Ret (a - b) else Panic)"

definition mul_ck :: "'a::len word \<Rightarrow> 'a word \<Rightarrow> 'a word outcome" where
  "mul_ck a b = (if unat a * unat b < 2 ^ LENGTH('a) then Ret (a * b) else Panic)"

definition checked_add :: "'a::len word \<Rightarrow> 'a word \<Rightarrow> 'a word option" where
  "checked_add a b = (if unat a + unat b < 2 ^ LENGTH('a) then Some (a + b) else None)"

lemma unat_bound: "unat (w::'a::len word) < 2 ^ LENGTH('a)"
  by (rule unsigned_less)

lemma unat_add_no_overflow:
  fixes a b :: "'a::len word"
  assumes "unat a + unat b < 2 ^ LENGTH('a)"
  shows "unat (a + b) = unat a + unat b"
  using assms by (simp add: unat_word_ariths)

lemma unat_mult_no_overflow:
  fixes a b :: "'a::len word"
  assumes "unat a * unat b < 2 ^ LENGTH('a)"
  shows "unat (a * b) = unat a * unat b"
  using assms by (simp add: unat_word_ariths)

lemma add_ck_Ret_iff [ck_simps]:
  fixes a b c :: "'a::len word"
  shows "add_ck a b = Ret c \<longleftrightarrow> unat c = unat a + unat b"
proof
  assume "add_ck a b = Ret c"
  then show "unat c = unat a + unat b"
    by (auto simp: add_ck_def unat_add_no_overflow split: if_splits)
next
  assume eq: "unat c = unat a + unat b"
  then have "unat a + unat b < 2 ^ LENGTH('a)"
    by (metis unsigned_less)
  moreover from this eq have "c = a + b"
    by (metis unat_add_no_overflow word_unat_eq_iff)
  ultimately show "add_ck a b = Ret c" by (simp add: add_ck_def)
qed

lemma add_ck_Panic_iff [ck_simps]:
  fixes a b :: "'a::len word"
  shows "add_ck a b = Panic \<longleftrightarrow> 2 ^ LENGTH('a) \<le> unat a + unat b"
  by (simp add: add_ck_def not_less)

lemma sub_ck_Ret_iff [ck_simps]:
  fixes a b c :: "'a::len word"
  shows "sub_ck a b = Ret c \<longleftrightarrow> unat a = unat b + unat c"
proof
  assume "sub_ck a b = Ret c"
  then show "unat a = unat b + unat c"
    by (auto simp: sub_ck_def unat_sub word_le_nat_alt split: if_splits)
next
  assume eq: "unat a = unat b + unat c"
  then have le: "b \<le> a" by (simp add: word_le_nat_alt)
  with eq have "unat (a - b) = unat c" by (simp add: unat_sub)
  then have "c = a - b" by (metis word_unat_eq_iff)
  with le show "sub_ck a b = Ret c" by (simp add: sub_ck_def)
qed

lemma sub_ck_Panic_iff [ck_simps]:
  "sub_ck a b = Panic \<longleftrightarrow> unat a < unat b"
  by (auto simp: sub_ck_def word_le_nat_alt)

lemma mul_ck_Ret_iff [ck_simps]:
  fixes a b c :: "'a::len word"
  shows "mul_ck a b = Ret c \<longleftrightarrow> unat c = unat a * unat b"
proof
  assume "mul_ck a b = Ret c"
  then show "unat c = unat a * unat b"
    by (auto simp: mul_ck_def unat_mult_no_overflow split: if_splits)
next
  assume eq: "unat c = unat a * unat b"
  then have "unat a * unat b < 2 ^ LENGTH('a)"
    by (metis unsigned_less)
  moreover from this eq have "c = a * b"
    by (metis unat_mult_no_overflow word_unat_eq_iff)
  ultimately show "mul_ck a b = Ret c" by (simp add: mul_ck_def)
qed

lemma mul_ck_Panic_iff [ck_simps]:
  fixes a b :: "'a::len word"
  shows "mul_ck a b = Panic \<longleftrightarrow> 2 ^ LENGTH('a) \<le> unat a * unat b"
  by (simp add: mul_ck_def not_less)

lemma checked_add_Some_iff [ck_simps]:
  fixes a b c :: "'a::len word"
  shows "checked_add a b = Some c \<longleftrightarrow> unat c = unat a + unat b"
  using add_ck_Ret_iff [of a b c] by (auto simp: checked_add_def add_ck_def split: if_splits)

lemma checked_add_None_iff [ck_simps]:
  fixes a b :: "'a::len word"
  shows "checked_add a b = None \<longleftrightarrow> 2 ^ LENGTH('a) \<le> unat a + unat b"
  by (simp add: checked_add_def not_less)

lemma sub_ck_le [simp]: "b \<le> a \<Longrightarrow> sub_ck a b = Ret (a - b)"
  by (simp add: sub_ck_def)

subsection \<open>Slices of byte buffers\<close>

text \<open>
  \<open>&xs[s..e]\<close> panics when the range is not inside the slice; \<open>xs[s..e].copy_from_slice(src)\<close>
  panics also when the lengths differ.
\<close>

definition field :: "nat \<Rightarrow> nat \<Rightarrow> 'a list \<Rightarrow> 'a list" where
  "field off n xs = take n (drop off xs)"

definition slice_ck :: "nat \<Rightarrow> nat \<Rightarrow> 'a list \<Rightarrow> 'a list outcome" where
  "slice_ck s e xs = (if s \<le> e \<and> e \<le> length xs then Ret (field s (e - s) xs) else Panic)"

definition overwrite :: "nat \<Rightarrow> 'a list \<Rightarrow> 'a list \<Rightarrow> 'a list" where
  "overwrite s src xs = take s xs @ src @ drop (s + length src) xs"

definition copy_ck :: "nat \<Rightarrow> nat \<Rightarrow> 'a list \<Rightarrow> 'a list \<Rightarrow> 'a list outcome" where
  "copy_ck s e src xs =
     (if s \<le> e \<and> e \<le> length xs \<and> length src = e - s then Ret (overwrite s src xs) else Panic)"

lemma length_field [simp]: "length (field off n xs) = min n (length xs - off)"
  by (simp add: field_def)

lemma length_overwrite [simp]:
  "s + length src \<le> length xs \<Longrightarrow> length (overwrite s src xs) = length xs"
  by (simp add: overwrite_def)

lemma field_overwrite_same [simp]:
  "s + length src \<le> length xs \<Longrightarrow> n = length src \<Longrightarrow> field s n (overwrite s src xs) = src"
  by (simp add: field_def overwrite_def)

lemma nth_overwrite:
  "s + length src \<le> length xs \<Longrightarrow> i < length xs \<Longrightarrow>
   overwrite s src xs ! i = (if s \<le> i \<and> i < s + length src then src ! (i - s) else xs ! i)"
  by (auto simp: overwrite_def nth_append min_def)

lemma nth_field: "i < n \<Longrightarrow> off + i < length xs \<Longrightarrow> field off n xs ! i = xs ! (off + i)"
  by (simp add: field_def)

lemma field_overwrite_disjoint:
  assumes "s + length src \<le> length xs" and "off + n \<le> s \<or> s + length src \<le> off"
    and "off + n \<le> length xs"
  shows "field off n (overwrite s src xs) = field off n xs"
  using assms by (intro nth_equalityI) (auto simp: nth_field nth_overwrite)

lemma slice_ck_ok [simp]:
  "s \<le> e \<Longrightarrow> e \<le> length xs \<Longrightarrow> slice_ck s e xs = Ret (field s (e - s) xs)"
  by (simp add: slice_ck_def)

lemma copy_ck_ok [simp]:
  "s \<le> e \<Longrightarrow> e \<le> length xs \<Longrightarrow> length src = e - s \<Longrightarrow> copy_ck s e src xs = Ret (overwrite s src xs)"
  by (simp add: copy_ck_def)

lemma field_append_left [simp]:
  "off + n \<le> length xs \<Longrightarrow> field off n (xs @ ys) = field off n xs"
  by (simp add: field_def)

lemma field_append_right [simp]:
  "length xs \<le> off \<Longrightarrow> field off n (xs @ ys) = field (off - length xs) n ys"
  by (simp add: field_def)

lemma field_all [simp]: "length xs \<le> n \<Longrightarrow> field 0 n xs = xs"
  by (simp add: field_def)

lemma field_replicate [simp]: "field off n (replicate k x) = replicate (min n (k - off)) x"
  by (simp add: field_def)

lemma field_field:
  "off + n \<le> m \<Longrightarrow> field off n (field base m xs) = field (base + off) n xs"
  by (simp add: field_def drop_take add.commute)

subsection \<open>Computations on a state that can fail\<close>

text \<open>
  A method with \<open>&mut self\<close> that returns a \<open>Result\<close> is a function from the state to an
  outcome and the state it leaves, also when it fails. \<open>io_bind\<close> is the \<open>?\<close> operator
  followed by the rest of the body.
\<close>

type_synonym ('s, 'a, 'e) io = "'s \<Rightarrow> ('a, 'e) result outcome \<times> 's"

definition io_bind :: "('s, 'a, 'e) io \<Rightarrow> ('a \<Rightarrow> ('s, 'b, 'e) io) \<Rightarrow> ('s, 'b, 'e) io" where
  "io_bind m f s =
     (case m s of
        (Ret (Ok x), s') \<Rightarrow> f x s'
      | (Ret (Err e), s') \<Rightarrow> (Ret (Err e), s')
      | (Panic, s') \<Rightarrow> (Panic, s'))"

definition io_return :: "'a \<Rightarrow> ('s, 'a, 'e) io" where
  "io_return x s = (Ret (Ok x), s)"

definition io_throw :: "'e \<Rightarrow> ('s, 'a, 'e) io" where
  "io_throw e s = (Ret (Err e), s)"

definition io_panic :: "('s, 'a, 'e) io" where
  "io_panic s = (Panic, s)"

definition io_out :: "'a outcome \<Rightarrow> ('s, 'a, 'e) io" where
  "io_out r s = ((case r of Ret x \<Rightarrow> Ret (Ok x) | Panic \<Rightarrow> Panic), s)"

definition io_res :: "('a, 'e) result outcome \<Rightarrow> ('s, 'a, 'e) io" where
  "io_res r s = (r, s)"

definition io_ok_or :: "'a option \<Rightarrow> 'e \<Rightarrow> ('s, 'a, 'e) io" where
  "io_ok_or x e s = ((case x of Some y \<Rightarrow> Ret (Ok y) | None \<Rightarrow> Ret (Err e)), s)"

definition io_map_err :: "('e \<Rightarrow> 'f) \<Rightarrow> ('s, 'a, 'e) io \<Rightarrow> ('s, 'a, 'f) io" where
  "io_map_err f m s =
     (case m s of
        (Ret (Ok x), s') \<Rightarrow> (Ret (Ok x), s')
      | (Ret (Err e), s') \<Rightarrow> (Ret (Err (f e)), s')
      | (Panic, s') \<Rightarrow> (Panic, s'))"

lemma io_atoms [io_simps]:
  "io_return x s = (Ret (Ok x), s)"
  "io_throw e s = (Ret (Err e), s)"
  "io_panic s = (Panic, s)"
  "io_out (Ret x) s = (Ret (Ok x), s)"
  "io_out Panic s = (Panic, s)"
  "io_res r s = (r, s)"
  "io_ok_or (Some x) e s = (Ret (Ok x), s)"
  "io_ok_or None e s = (Ret (Err e), s)"
  by (simp_all add: io_return_def io_throw_def io_panic_def io_out_def io_res_def io_ok_or_def)

lemma io_bind_step:
  "m s = (Ret (Ok x), s') \<Longrightarrow> io_bind m f s = f x s'"
  "m s = (Ret (Err e), s') \<Longrightarrow> io_bind m f s = (Ret (Err e), s')"
  "m s = (Panic, s') \<Longrightarrow> io_bind m f s = (Panic, s')"
  by (simp_all add: io_bind_def)

lemma io_bind_atoms [io_simps]:
  "io_bind (io_return x) f s = f x s"
  "io_bind (io_throw e) f s = (Ret (Err e), s)"
  "io_bind (io_out (Ret x)) f s = f x s"
  "io_bind (io_out Panic) f s = (Panic, s)"
  "io_bind (io_res (Ret (Ok x))) f s = f x s"
  "io_bind (io_res (Ret (Err e))) f s = (Ret (Err e), s)"
  "io_bind (io_res Panic) f s = (Panic, s)"
  "io_bind (io_ok_or (Some x) e) f s = f x s"
  "io_bind (io_ok_or None e) f s = (Ret (Err e), s)"
  by (simp_all add: io_bind_def io_atoms)

lemma io_bind_OkE:
  assumes "io_bind m f s = (Ret (Ok y), s'')"
  obtains x s' where "m s = (Ret (Ok x), s')" and "f x s' = (Ret (Ok y), s'')"
  using assms by (auto simp: io_bind_def split: prod.splits outcome.splits result.splits)

lemma io_bind_ErrE:
  assumes "io_bind m f s = (Ret (Err e), s'')"
  obtains (first) "m s = (Ret (Err e), s'')"
  | (later) x s' where "m s = (Ret (Ok x), s')" and "f x s' = (Ret (Err e), s'')"
  using assms by (auto simp: io_bind_def split: prod.splits outcome.splits result.splits)

lemma io_bind_PanicE:
  assumes "io_bind m f s = (Panic, s'')"
  obtains (first) "m s = (Panic, s'')"
  | (later) x s' where "m s = (Ret (Ok x), s')" and "f x s' = (Panic, s'')"
  using assms by (auto simp: io_bind_def split: prod.splits outcome.splits result.splits)

lemma io_map_err_iffs [io_simps]:
  "io_map_err f m s = (Ret (Ok x), s') \<longleftrightarrow> m s = (Ret (Ok x), s')"
  "io_map_err f m s = (Panic, s') \<longleftrightarrow> m s = (Panic, s')"
  "io_map_err f m s = (Ret (Err d), s') \<longleftrightarrow> (\<exists>e. m s = (Ret (Err e), s') \<and> d = f e)"
  by (auto simp: io_map_err_def split: prod.splits outcome.splits result.splits)

end
