(* ===== verification/FS_Layout.thy ===== *)
theory FS_Layout
  imports Kernel_Prelude
begin

unbundle bit_operations_syntax

section \<open>On-disk layout (\<open>src/src/fs/layout.rs\<close>)\<close>

text \<open>
  The constants, the in-memory and on-disk structures with their conversions, the bitmap
  view over a byte slice and the directory-entry iterator. The on-disk integers are
  \<open>zerocopy\<close>'s \<open>U16<LE>\<close>, \<open>U32<LE>\<close> and \<open>U64<LE>\<close>, a package outside the repository: its
  constructors and getters are the record \<open>zerocopy\<close>, an argument of every conversion, and
  what the code relies on is the locale \<open>zerocopy_spec\<close>. A \<open>repr(C)\<close> structure of
  alignment-one fields is the concatenation of its fields' bytes in declaration order.
\<close>

subsection \<open>Constants\<close>

definition BLOCK_SIZE :: nat where "BLOCK_SIZE = 512"
definition INODE_SIZE :: nat where "INODE_SIZE = 128"
definition INODES_PER_BLOCK :: nat where "INODES_PER_BLOCK = BLOCK_SIZE div INODE_SIZE"

definition SUPERBLOCK_BLOCK :: u64 where "SUPERBLOCK_BLOCK = 0"
definition INODE_BITMAP_BLOCK :: u64 where "INODE_BITMAP_BLOCK = 1"
definition DATA_BITMAP_BLOCK :: u64 where "DATA_BITMAP_BLOCK = 2"
definition INODE_TABLE_START_BLOCK :: u64 where "INODE_TABLE_START_BLOCK = 3"

definition DIR_ENTRY_SIZE :: nat where "DIR_ENTRY_SIZE = 64"
definition DIR_NAME_MAX :: nat where "DIR_NAME_MAX = 52"
definition DIR_ENTRIES_PER_BLOCK :: nat where
  "DIR_ENTRIES_PER_BLOCK = BLOCK_SIZE div DIR_ENTRY_SIZE"

definition DIRENT_USED :: u16 where "DIRENT_USED = 1"

lemmas layout_sizes =
  BLOCK_SIZE_def INODE_SIZE_def INODES_PER_BLOCK_def DIR_ENTRY_SIZE_def DIR_NAME_MAX_def
  DIR_ENTRIES_PER_BLOCK_def

lemmas layout_blocks =
  SUPERBLOCK_BLOCK_def INODE_BITMAP_BLOCK_def DATA_BITMAP_BLOCK_def INODE_TABLE_START_BLOCK_def

subsection \<open>Disk integers\<close>

record zerocopy =
  U16_new :: "u16 \<Rightarrow> u8 list"
  U16_get :: "u8 list \<Rightarrow> u16"
  U32_new :: "u32 \<Rightarrow> u8 list"
  U32_get :: "u8 list \<Rightarrow> u32"
  U64_new :: "u64 \<Rightarrow> u8 list"
  U64_get :: "u8 list \<Rightarrow> u64"

type_synonym U16Le = "u8 list"
type_synonym U32Le = "u8 list"
type_synonym U64Le = "u8 list"

locale zerocopy_spec =
  fixes Z :: zerocopy
  assumes len16 [simp]: "length (U16_new Z a) = 2"
    and len32 [simp]: "length (U32_new Z b) = 4"
    and len64 [simp]: "length (U64_new Z c) = 8"
    and get_new16 [simp]: "U16_get Z (U16_new Z a) = a"
    and get_new32 [simp]: "U32_get Z (U32_new Z b) = b"
    and get_new64 [simp]: "U64_get Z (U64_new Z c) = c"
    and zero16 [simp]: "U16_get Z (replicate 2 0) = 0"
    and zero32 [simp]: "U32_get Z (replicate 4 0) = 0"
    and zero64 [simp]: "U64_get Z (replicate 8 0) = 0"

subsection \<open>Super block\<close>

record SuperBlock =
  total_blocks :: u64
  inode_bitmap_block :: u64
  data_bitmap_block :: u64
  inode_table_start_block :: u64
  inode_count :: u64
  data_block_start :: u64
  data_block_count :: u64
  magic_number :: u32

record DiskSuperBlock =
  dsb_total_blocks :: U64Le
  dsb_inode_bitmap_block :: U64Le
  dsb_data_bitmap_block :: U64Le
  dsb_inode_table_start_block :: U64Le
  dsb_inode_count :: U64Le
  dsb_data_block_start :: U64Le
  dsb_data_block_count :: U64Le
  dsb_magic_number :: U32Le
  dsb_pad0 :: U32Le

definition DiskSuperBlock_from :: "zerocopy \<Rightarrow> SuperBlock \<Rightarrow> DiskSuperBlock" where
  "DiskSuperBlock_from Z sb =
     \<lparr> dsb_total_blocks = U64_new Z (total_blocks sb),
       dsb_inode_bitmap_block = U64_new Z (inode_bitmap_block sb),
       dsb_data_bitmap_block = U64_new Z (data_bitmap_block sb),
       dsb_inode_table_start_block = U64_new Z (inode_table_start_block sb),
       dsb_inode_count = U64_new Z (inode_count sb),
       dsb_data_block_start = U64_new Z (data_block_start sb),
       dsb_data_block_count = U64_new Z (data_block_count sb),
       dsb_magic_number = U32_new Z (magic_number sb),
       dsb_pad0 = U32_new Z 0 \<rparr>"

definition SuperBlock_try_from :: "zerocopy \<Rightarrow> DiskSuperBlock \<Rightarrow> (SuperBlock, unit) result" where
  "SuperBlock_try_from Z v =
     Ok \<lparr> total_blocks = U64_get Z (dsb_total_blocks v),
          inode_bitmap_block = U64_get Z (dsb_inode_bitmap_block v),
          data_bitmap_block = U64_get Z (dsb_data_bitmap_block v),
          inode_table_start_block = U64_get Z (dsb_inode_table_start_block v),
          inode_count = U64_get Z (dsb_inode_count v),
          data_block_start = U64_get Z (dsb_data_block_start v),
          data_block_count = U64_get Z (dsb_data_block_count v),
          magic_number = U32_get Z (dsb_magic_number v) \<rparr>"

definition sizeof_DiskSuperBlock :: nat where "sizeof_DiskSuperBlock = 64"

definition DiskSuperBlock_as_bytes :: "DiskSuperBlock \<Rightarrow> u8 list" where
  "DiskSuperBlock_as_bytes d =
     dsb_total_blocks d @ dsb_inode_bitmap_block d @ dsb_data_bitmap_block d @
     dsb_inode_table_start_block d @ dsb_inode_count d @ dsb_data_block_start d @
     dsb_data_block_count d @ dsb_magic_number d @ dsb_pad0 d"

definition DiskSuperBlock_ref_from_bytes :: "u8 list \<Rightarrow> (DiskSuperBlock, unit) result" where
  "DiskSuperBlock_ref_from_bytes bs =
     (if length bs = sizeof_DiskSuperBlock then
        Ok \<lparr> dsb_total_blocks = field 0 8 bs,
             dsb_inode_bitmap_block = field 8 8 bs,
             dsb_data_bitmap_block = field 16 8 bs,
             dsb_inode_table_start_block = field 24 8 bs,
             dsb_inode_count = field 32 8 bs,
             dsb_data_block_start = field 40 8 bs,
             dsb_data_block_count = field 48 8 bs,
             dsb_magic_number = field 56 4 bs,
             dsb_pad0 = field 60 4 bs \<rparr>
      else Err ())"

subsection \<open>File types and inodes\<close>

datatype FileType = Unknown | File | Directory

definition FileType_try_from :: "u16 \<Rightarrow> (FileType, unit) result" where
  "FileType_try_from v =
     (if v = 0 then Ok Unknown else if v = 1 then Ok File
      else if v = 2 then Ok Directory else Err ())"

fun u16_from_FileType :: "FileType \<Rightarrow> u16" where
  "u16_from_FileType Unknown = 0"
| "u16_from_FileType File = 1"
| "u16_from_FileType Directory = 2"

record Inode =
  mode :: FileType
  user_id :: u16
  group_id :: u16
  link_count :: u16
  size_in_bytes :: u64
  last_access_time :: u64
  last_modification_time :: u64
  creation_time :: u64
  direct_pointers :: "u64 list"
  indirect_pointer :: u64

record DiskInode =
  di_size_in_bytes :: U64Le
  di_last_access_time :: U64Le
  di_last_modification_time :: U64Le
  di_creation_time :: U64Le
  di_direct_pointers :: "U64Le list"
  di_indirect_pointer :: U64Le
  di_mode :: U16Le
  di_user_id :: U16Le
  di_group_id :: U16Le
  di_link_count :: U16Le

definition DiskInode_from :: "zerocopy \<Rightarrow> Inode \<Rightarrow> DiskInode" where
  "DiskInode_from Z i =
     \<lparr> di_size_in_bytes = U64_new Z (size_in_bytes i),
       di_last_access_time = U64_new Z (last_access_time i),
       di_last_modification_time = U64_new Z (last_modification_time i),
       di_creation_time = U64_new Z (creation_time i),
       di_direct_pointers = map (U64_new Z) (direct_pointers i),
       di_indirect_pointer = U64_new Z (indirect_pointer i),
       di_mode = U16_new Z (u16_from_FileType (mode i)),
       di_user_id = U16_new Z (user_id i),
       di_group_id = U16_new Z (group_id i),
       di_link_count = U16_new Z (link_count i) \<rparr>"

definition Inode_try_from :: "zerocopy \<Rightarrow> DiskInode \<Rightarrow> (Inode, unit) result" where
  "Inode_try_from Z di =
     (case FileType_try_from (U16_get Z (di_mode di)) of
        Err u \<Rightarrow> Err u
      | Ok ft \<Rightarrow>
          Ok \<lparr> mode = ft,
               user_id = U16_get Z (di_user_id di),
               group_id = U16_get Z (di_group_id di),
               link_count = U16_get Z (di_link_count di),
               size_in_bytes = U64_get Z (di_size_in_bytes di),
               last_access_time = U64_get Z (di_last_access_time di),
               last_modification_time = U64_get Z (di_last_modification_time di),
               creation_time = U64_get Z (di_creation_time di),
               direct_pointers = map (U64_get Z) (di_direct_pointers di),
               indirect_pointer = U64_get Z (di_indirect_pointer di) \<rparr>)"

definition sizeof_DiskInode :: nat where "sizeof_DiskInode = 128"

definition DiskInode_as_bytes :: "DiskInode \<Rightarrow> u8 list" where
  "DiskInode_as_bytes d =
     di_size_in_bytes d @ di_last_access_time d @ di_last_modification_time d @
     di_creation_time d @ concat (di_direct_pointers d) @ di_indirect_pointer d @
     di_mode d @ di_user_id d @ di_group_id d @ di_link_count d"

definition DiskInode_ref_from_bytes :: "u8 list \<Rightarrow> (DiskInode, unit) result" where
  "DiskInode_ref_from_bytes bs =
     (if length bs = sizeof_DiskInode then
        Ok \<lparr> di_size_in_bytes = field 0 8 bs,
             di_last_access_time = field 8 8 bs,
             di_last_modification_time = field 16 8 bs,
             di_creation_time = field 24 8 bs,
             di_direct_pointers = map (\<lambda>i. field (32 + 8 * i) 8 bs) [0..<10],
             di_indirect_pointer = field 112 8 bs,
             di_mode = field 120 2 bs,
             di_user_id = field 122 2 bs,
             di_group_id = field 124 2 bs,
             di_link_count = field 126 2 bs \<rparr>
      else Err ())"

text \<open>The Rust type \<open>[u64; 10]\<close>: an inode value always carries ten direct pointers.\<close>

definition wf_inode :: "Inode \<Rightarrow> bool" where
  "wf_inode i \<longleftrightarrow> length (direct_pointers i) = 10"

subsection \<open>Directory entries and their iterator\<close>

record DiskDirEntry =
  de_inode :: U64Le
  de_name_len :: U16Le
  de_flags :: U16Le
  de_name :: "u8 list"

definition DiskDirEntry_as_bytes :: "DiskDirEntry \<Rightarrow> u8 list" where
  "DiskDirEntry_as_bytes d = de_inode d @ de_name_len d @ de_flags d @ de_name d"

definition DiskDirEntry_ref_from_bytes :: "u8 list \<Rightarrow> (DiskDirEntry, unit) result" where
  "DiskDirEntry_ref_from_bytes bs =
     (if length bs = DIR_ENTRY_SIZE then
        Ok \<lparr> de_inode = field 0 8 bs,
             de_name_len = field 8 2 bs,
             de_flags = field 10 2 bs,
             de_name = field 12 DIR_NAME_MAX bs \<rparr>
      else Err ())"

record DirEntryBlock =
  deb_block :: "u8 list"
  deb_idx :: nat

definition DirEntryBlock_new :: "u8 list \<Rightarrow> DirEntryBlock" where
  "DirEntryBlock_new block = \<lparr> deb_block = block, deb_idx = 0 \<rparr>"

definition DirEntryBlock_next ::
    "DirEntryBlock \<Rightarrow> (DiskDirEntry option \<times> DirEntryBlock) outcome" where
  "DirEntryBlock_next it =
     (if deb_idx it \<ge> DIR_ENTRIES_PER_BLOCK then Ret (None, it)
      else
        let start = deb_idx it * DIR_ENTRY_SIZE; stop = start + DIR_ENTRY_SIZE in
        bind_out (slice_ck start stop (deb_block it)) (\<lambda>bytes.
          case DiskDirEntry_ref_from_bytes bytes of
            Err _ \<Rightarrow> Ret (None, it)
          | Ok entry \<Rightarrow> Ret (Some entry, it\<lparr>deb_idx := deb_idx it + 1\<rparr>)))"

definition dirent_at :: "u8 list \<Rightarrow> nat \<Rightarrow> DiskDirEntry" where
  "dirent_at block i =
     \<lparr> de_inode = field (i * 64) 8 block,
       de_name_len = field (i * 64 + 8) 2 block,
       de_flags = field (i * 64 + 10) 2 block,
       de_name = field (i * 64 + 12) 52 block \<rparr>"

lemma DiskDirEntry_ref_from_field:
  "i * 64 + 64 \<le> length block \<Longrightarrow>
     DiskDirEntry_ref_from_bytes (field (i * 64) 64 block) = Ok (dirent_at block i)"
  by (simp add: DiskDirEntry_ref_from_bytes_def dirent_at_def layout_sizes field_field)

lemma DirEntryBlock_next_Some:
  assumes "DirEntryBlock_next it = Ret (Some e, it')"
  shows "deb_idx it < DIR_ENTRIES_PER_BLOCK \<and> it' = it\<lparr>deb_idx := deb_idx it + 1\<rparr>"
proof -
  from assms have idx: "deb_idx it < DIR_ENTRIES_PER_BLOCK"
    by (auto simp: DirEntryBlock_next_def split: if_splits)
  with assms obtain bytes where
    "(case DiskDirEntry_ref_from_bytes bytes of
        Err _ \<Rightarrow> Ret (None, it)
      | Ok entry \<Rightarrow> Ret (Some entry, it\<lparr>deb_idx := deb_idx it + 1\<rparr>)) = Ret (Some e, it')"
    by (auto simp: DirEntryBlock_next_def Let_def bind_out_Ret_iff)
  then have "it' = it\<lparr>deb_idx := deb_idx it + 1\<rparr>" by (simp split: result.splits)
  with idx show ?thesis by simp
qed

lemma DirEntryBlock_next_block:
  "length (deb_block it) = 512 \<Longrightarrow>
     DirEntryBlock_next it =
       Ret (if deb_idx it < 8 then (Some (dirent_at (deb_block it) (deb_idx it)), it\<lparr>deb_idx := deb_idx it + 1\<rparr>)
            else (None, it))"
  by (simp add: DirEntryBlock_next_def layout_sizes Let_def
      DiskDirEntry_ref_from_field [unfolded layout_sizes])

subsection \<open>Bitmaps\<close>

datatype BitmapError = AlreadyAllocated | AlreadyCleared

definition bitmap_is_set :: "u8 list \<Rightarrow> nat \<Rightarrow> bool outcome" where
  "bitmap_is_set m idx =
     (let byte_index = idx div 8; bit_index = idx mod 8 in
      if byte_index < length m then Ret (m ! byte_index AND push_bit bit_index 1 \<noteq> 0)
      else Panic)"

definition bitmap_set ::
    "u8 list \<Rightarrow> nat \<Rightarrow> ((unit, BitmapError) result \<times> u8 list) outcome" where
  "bitmap_set m idx =
     bind_out (bitmap_is_set m idx) (\<lambda>s.
       if s then Ret (Err AlreadyAllocated, m)
       else
         let byte_index = idx div 8; bit_index = idx mod 8 in
         Ret (Ok (), m[byte_index := m ! byte_index OR push_bit bit_index 1]))"

definition bitmap_clear ::
    "u8 list \<Rightarrow> nat \<Rightarrow> ((unit, BitmapError) result \<times> u8 list) outcome" where
  "bitmap_clear m idx =
     bind_out (bitmap_is_set m idx) (\<lambda>s.
       if \<not> s then Ret (Err AlreadyCleared, m)
       else
         let byte_index = idx div 8; bit_index = idx mod 8 in
         Ret (Ok (), m[byte_index := m ! byte_index AND NOT (push_bit bit_index 1)]))"

text \<open>
  The two nested loops of \<open>find_and_set_first_free\<close>: \<open>scan_bits\<close> is the inner one over the
  bits of one byte, \<open>scan_bytes\<close> the outer one, which skips full bytes.
\<close>

fun scan_bits :: "u8 \<Rightarrow> nat \<Rightarrow> nat list \<Rightarrow> nat option" where
  "scan_bits byte base [] = None"
| "scan_bits byte base (b # bs) =
     (if byte AND push_bit b 1 = 0 then Some (base + b) else scan_bits byte base bs)"

fun scan_bytes :: "nat \<Rightarrow> u8 list \<Rightarrow> nat option" where
  "scan_bytes byte_idx [] = None"
| "scan_bytes byte_idx (byte # rest) =
     (if byte \<noteq> 0xFF then
        (case scan_bits byte (byte_idx * 8) [0..<8] of
           Some idx \<Rightarrow> Some idx
         | None \<Rightarrow> scan_bytes (Suc byte_idx) rest)
      else scan_bytes (Suc byte_idx) rest)"

definition find_and_set_first_free :: "u8 list \<Rightarrow> (nat option \<times> u8 list) outcome" where
  "find_and_set_first_free m =
     (case scan_bytes 0 m of
        None \<Rightarrow> Ret (None, m)
      | Some idx \<Rightarrow>
          bind_out (bitmap_set m idx) (\<lambda>(r, m').
            case r of Ok _ \<Rightarrow> Ret (Some idx, m') | Err _ \<Rightarrow> Ret (None, m')))"

text \<open>The abstract view of a bitmap: the truth value at a bit index.\<close>

definition bitmap_bit :: "u8 list \<Rightarrow> nat \<Rightarrow> bool" where
  "bitmap_bit m i \<longleftrightarrow> i < 8 * length m \<and> bit (m ! (i div 8)) (i mod 8)"

section \<open>Facts about the bitmap\<close>

lemma bitmap_is_set_iff:
  "bitmap_is_set m i = (if i < 8 * length m then Ret (bitmap_bit m i) else Panic)"
  by (auto simp: bitmap_is_set_def bitmap_bit_def Let_def bit_iff_and_push_bit_not_eq_0)

lemma bit_set_byte:
  fixes w :: u8
  assumes "n < 8"
  shows "bit (w OR 2 ^ n) k \<longleftrightarrow> bit w k \<or> k = n"
  using assms by (auto simp: bit_simps)

lemma bit_clear_byte:
  fixes w :: u8
  assumes "k < 8"
  shows "bit (w AND NOT (2 ^ n)) k \<longleftrightarrow> bit w k \<and> k \<noteq> n"
  using assms by (auto simp: bit_simps)

lemma same_bit_index: "(j::nat) = i \<longleftrightarrow> j div 8 = i div 8 \<and> j mod 8 = i mod 8"
  by (metis mult_div_mod_eq)

lemma bitmap_bit_set_update:
  assumes "i < 8 * length m"
  shows "bitmap_bit (m[i div 8 := m ! (i div 8) OR push_bit (i mod 8) 1]) j
           \<longleftrightarrow> j = i \<or> bitmap_bit m j"
proof -
  have "i div 8 < length m" using assms by auto
  then show ?thesis
    using assms
    by (cases "j div 8 = i div 8") (auto simp: bitmap_bit_def nth_list_update bit_set_byte same_bit_index [of j i])
qed

lemma bitmap_bit_clear_update:
  assumes "i < 8 * length m"
  shows "bitmap_bit (m[i div 8 := m ! (i div 8) AND NOT (push_bit (i mod 8) 1)]) j
           \<longleftrightarrow> j \<noteq> i \<and> bitmap_bit m j"
proof -
  have "i div 8 < length m" using assms by auto
  then show ?thesis
    using assms
    by (cases "j div 8 = i div 8") (auto simp: bitmap_bit_def nth_list_update bit_clear_byte same_bit_index [of j i])
qed


lemma bitmap_set_cases:
  "bitmap_set m i =
     (if i < 8 * length m then
        (if bitmap_bit m i then Ret (Err AlreadyAllocated, m)
         else Ret (Ok (), m[i div 8 := m ! (i div 8) OR push_bit (i mod 8) 1]))
      else Panic)"
  by (simp add: bitmap_set_def bitmap_is_set_iff Let_def)

lemma bitmap_clear_cases:
  "bitmap_clear m i =
     (if i < 8 * length m then
        (if bitmap_bit m i
         then Ret (Ok (), m[i div 8 := m ! (i div 8) AND NOT (push_bit (i mod 8) 1)])
         else Ret (Err AlreadyCleared, m))
      else Panic)"
  by (simp add: bitmap_clear_def bitmap_is_set_iff Let_def)

subsection \<open>The scan for a free bit\<close>

lemma byte_full_iff: "(w::u8) = 0xFF \<longleftrightarrow> (\<forall>b<8. bit w b)"
proof
  assume full: "\<forall>b<8. bit w b"
  have "bit (0xFF::u8) b" if "b < 8" for b
    using that by (auto simp: less_Suc_eq numeral_eq_Suc)
  with full show "w = 0xFF" by (intro bit_word_eqI) auto
qed (auto simp: less_Suc_eq numeral_eq_Suc)

lemma scan_bits_Some:
  "scan_bits byte base bs = Some k \<Longrightarrow>
     \<exists>pre b post. bs = pre @ b # post \<and> k = base + b \<and> \<not> bit byte b \<and> (\<forall>c\<in>set pre. bit byte c)"
proof (induction bs)
  case Nil
  then show ?case by simp
next
  case (Cons c bs)
  show ?case
  proof (cases "bit byte c")
    case True
    then have "byte AND push_bit c 1 \<noteq> 0"
      by (simp add: bit_iff_and_push_bit_not_eq_0)
    with Cons obtain pre b post where "bs = pre @ b # post" "k = base + b" "\<not> bit byte b"
        "\<forall>c\<in>set pre. bit byte c"
      by auto
    with True have "c # bs = (c # pre) @ b # post \<and> k = base + b \<and> \<not> bit byte b \<and>
        (\<forall>d\<in>set (c # pre). bit byte d)" by simp
    then show ?thesis by blast
  next
    case False
    then have "byte AND push_bit c 1 = 0"
      by (simp add: bit_iff_and_push_bit_not_eq_0)
    with Cons.prems False have "c # bs = [] @ c # bs \<and> k = base + c \<and> \<not> bit byte c \<and>
        (\<forall>d\<in>set []. bit byte d)" by simp
    then show ?thesis by blast
  qed
qed

lemma scan_bits_None: "scan_bits byte base bs = None \<longleftrightarrow> (\<forall>b\<in>set bs. bit byte b)"
  by (induction bs) (auto simp: bit_iff_and_push_bit_not_eq_0)

lemma scan_bits_upt:
  assumes "scan_bits byte base [0..<8] = Some k"
  shows "\<exists>b<8. k = base + b \<and> \<not> bit byte b \<and> (\<forall>c<b. bit byte c)"
proof -
  from scan_bits_Some [OF assms] obtain pre b post
    where split: "[0..<8] = pre @ b # post" and k: "k = base + b" "\<not> bit byte b"
      and pre: "\<forall>c\<in>set pre. bit byte c" by blast
  have len: "length pre < 8" using arg_cong [OF split, of length] by simp
  have b: "b = length pre" and "pre = [0..<length pre]"
    using arg_cong [OF split, of "\<lambda>xs. xs ! length pre"]
      arg_cong [OF split, of "take (length pre)"] len by (simp_all add: take_upt)
  then have "set pre = {..<b}" by (metis atLeast0LessThan set_upt)
  with k pre len b show ?thesis by blast
qed

text \<open>
  The reference definition of what the scan computes: the least index whose bit is clear.
\<close>

definition first_free :: "u8 list \<Rightarrow> nat option" where
  "first_free m = find (\<lambda>i. \<not> bitmap_bit m i) [0..<8 * length m]"

lemma first_free_Some_iff:
  "first_free m = Some i \<longleftrightarrow> i < 8 * length m \<and> \<not> bitmap_bit m i \<and> (\<forall>j<i. bitmap_bit m j)"
  by (auto simp: first_free_def find_Some_iff)

lemma first_free_None_iff: "first_free m = None \<longleftrightarrow> (\<forall>i<8 * length m. bitmap_bit m i)"
  by (auto simp: first_free_def find_None_iff)

lemma scan_bytes_Some:
  "scan_bytes n m = Some k \<Longrightarrow>
     \<exists>i. k = n * 8 + i \<and> i < 8 * length m \<and> \<not> bitmap_bit m i \<and> (\<forall>j<i. bitmap_bit m j)"
proof (induction m arbitrary: n)
  case Nil
  then show ?case by simp
next
  case (Cons byte rest)
  have head: "bitmap_bit (byte # rest) j = bit byte j" if "j < 8" for j
    using that by (simp add: bitmap_bit_def)
  have tail: "bitmap_bit (byte # rest) (8 + j) = bitmap_bit rest j" for j
    by (auto simp: bitmap_bit_def nth_Cons' div_add1_eq [of 8 j])
  show ?case
  proof (cases "scan_bits byte (n * 8) [0..<8]")
    case (Some idx)
    then have "byte \<noteq> 0xFF" using scan_bits_upt byte_full_iff by blast
    with Cons.prems Some have "k = idx" by simp
    with scan_bits_upt [OF Some] obtain b where "b < 8" "k = n * 8 + b" "\<not> bit byte b"
        "\<forall>c<b. bit byte c" by blast
    then show ?thesis by (intro exI [of _ b]) (auto simp: head)
  next
    case None
    then have full: "\<forall>b<8. bit byte b" by (auto simp: scan_bits_None)
    from Cons.prems None have "scan_bytes (Suc n) rest = Some k" by (auto split: if_splits)
    from Cons.IH [OF this] obtain i where i: "k = Suc n * 8 + i" "i < 8 * length rest"
        "\<not> bitmap_bit rest i" "\<forall>j<i. bitmap_bit rest j" by blast
    have "bitmap_bit (byte # rest) j" if "j < 8 + i" for j
      using that full head tail [of "j - 8"] i(4) by (cases "j < 8") auto
    with i tail show ?thesis by (intro exI [of _ "8 + i"]) auto
  qed
qed

lemma scan_bytes_None: "scan_bytes n m = None \<longleftrightarrow> (\<forall>byte\<in>set m. byte = 0xFF)"
proof (induction m arbitrary: n)
  case (Cons byte rest)
  have "scan_bits byte (n * 8) [0..<8] = None \<longleftrightarrow> byte = 0xFF"
    by (simp add: scan_bits_None byte_full_iff Ball_def)
  with Cons show ?case by (auto split: option.splits)
qed simp

lemma bitmap_full_iff: "(\<forall>byte\<in>set m. byte = 0xFF) \<longleftrightarrow> (\<forall>i<8 * length m. bitmap_bit m i)"
proof
  assume *: "\<forall>i<8 * length m. bitmap_bit m i"
  show "\<forall>byte\<in>set m. byte = 0xFF"
  proof
    fix byte assume "byte \<in> set m"
    then obtain k where k: "k < length m" "byte = m ! k" by (auto simp: in_set_conv_nth)
    have "bit (m ! k) b" if "b < 8" for b
      using * [rule_format, of "8 * k + b"] k that by (simp add: bitmap_bit_def)
    with k show "byte = 0xFF" by (simp add: byte_full_iff)
  qed
next
  assume *: "\<forall>byte\<in>set m. byte = 0xFF"
  have "bitmap_bit m i" if "i < 8 * length m" for i
  proof -
    have "i div 8 < length m" using that by auto
    then have "m ! (i div 8) = 0xFF" using * nth_mem by blast
    then have "bit (m ! (i div 8)) (i mod 8)" by (simp only: byte_full_iff)
    then show ?thesis using that by (simp add: bitmap_bit_def)
  qed
  then show "\<forall>i<8 * length m. bitmap_bit m i" by blast
qed

lemma scan_bytes_first_free: "scan_bytes 0 m = first_free m"
proof (cases "scan_bytes 0 m")
  case None
  then show ?thesis
    using first_free_None_iff [of m] by (simp add: scan_bytes_None bitmap_full_iff)
next
  case (Some k)
  then show ?thesis using scan_bytes_Some [OF Some] first_free_Some_iff [of m k] by simp
qed

definition bitmap_mark :: "u8 list \<Rightarrow> nat \<Rightarrow> u8 list" where
  "bitmap_mark m i = m[i div 8 := m ! (i div 8) OR push_bit (i mod 8) 1]"

lemma length_bitmap_mark [simp]: "length (bitmap_mark m i) = length m"
  by (simp add: bitmap_mark_def)

lemma bitmap_bit_mark:
  "i < 8 * length m \<Longrightarrow> bitmap_bit (bitmap_mark m i) j \<longleftrightarrow> j = i \<or> bitmap_bit m j"
  unfolding bitmap_mark_def by (rule bitmap_bit_set_update)

lemma find_and_set_first_free_eq:
  "find_and_set_first_free m =
     (case first_free m of
        None \<Rightarrow> Ret (None, m)
      | Some i \<Rightarrow> Ret (Some i, bitmap_mark m i))"
proof (cases "first_free m")
  case (Some i)
  then have "i < 8 * length m" "\<not> bitmap_bit m i" by (simp_all add: first_free_Some_iff)
  with Some show ?thesis
    by (simp add: find_and_set_first_free_def scan_bytes_first_free bitmap_set_cases
        bitmap_mark_def)
qed (simp add: find_and_set_first_free_def scan_bytes_first_free)


section \<open>Facts about the on-disk structures\<close>

lemma concat_eight [simp]:
  "\<forall>x\<in>set xs. length x = 8 \<Longrightarrow> length (concat xs) = 8 * length xs"
  by (induction xs) auto

lemma field_concat_eight:
  "\<lbrakk>\<forall>x\<in>set xs. length x = 8; i < length xs\<rbrakk> \<Longrightarrow> field (8 * i) 8 (concat xs) = xs ! i"
proof (induction xs arbitrary: i)
  case Nil
  then show ?case by simp
next
  case (Cons x xs)
  then show ?case by (cases i) simp_all
qed

lemma FileType_roundtrip [simp]: "FileType_try_from (u16_from_FileType t) = Ok t"
  by (cases t) (simp_all add: FileType_try_from_def)

context zerocopy_spec
begin

lemma length_superblock_bytes [simp]:
  "length (DiskSuperBlock_as_bytes (DiskSuperBlock_from Z sb)) = 64"
  by (simp add: DiskSuperBlock_as_bytes_def DiskSuperBlock_from_def)

lemma superblock_bytes_decode:
  "DiskSuperBlock_ref_from_bytes (DiskSuperBlock_as_bytes (DiskSuperBlock_from Z sb)) =
     Ok (DiskSuperBlock_from Z sb)"
  by (simp add: DiskSuperBlock_ref_from_bytes_def sizeof_DiskSuperBlock_def
      DiskSuperBlock_as_bytes_def DiskSuperBlock_from_def)

lemma superblock_try_from [simp]: "SuperBlock_try_from Z (DiskSuperBlock_from Z sb) = Ok sb"
  by (simp add: SuperBlock_try_from_def DiskSuperBlock_from_def)

lemma length_inode_bytes [simp]:
  "wf_inode i \<Longrightarrow> length (DiskInode_as_bytes (DiskInode_from Z i)) = 128"
  by (simp add: DiskInode_as_bytes_def DiskInode_from_def wf_inode_def)

lemma inode_pointer_fields:
  assumes "length ps = 10"
  shows "map (\<lambda>i. field (8 * i) 8 (concat (map (U64_new Z) ps) @ rest)) [0..<10] =
         map (U64_new Z) ps"
  using assms by (intro nth_equalityI) (auto simp: field_concat_eight)

lemma inode_bytes_decode:
  assumes "wf_inode i"
  shows "DiskInode_ref_from_bytes (DiskInode_as_bytes (DiskInode_from Z i)) =
           Ok (DiskInode_from Z i)"
  using assms inode_pointer_fields [of "direct_pointers i"]
  by (simp add: DiskInode_ref_from_bytes_def sizeof_DiskInode_def
      DiskInode_as_bytes_def DiskInode_from_def wf_inode_def)

lemma inode_try_from [simp]: "Inode_try_from Z (DiskInode_from Z i) = Ok i"
  by (simp add: Inode_try_from_def DiskInode_from_def comp_def)

lemma dirent_bytes_decode:
  assumes "length nm = 52"
  shows "DiskDirEntry_ref_from_bytes (DiskDirEntry_as_bytes
           \<lparr> de_inode = U64_new Z ino, de_name_len = U16_new Z l, de_flags = U16_new Z f,
             de_name = nm \<rparr>) =
         Ok \<lparr> de_inode = U64_new Z ino, de_name_len = U16_new Z l, de_flags = U16_new Z f,
             de_name = nm \<rparr>"
  using assms by (simp add: DiskDirEntry_ref_from_bytes_def DiskDirEntry_as_bytes_def layout_sizes)

end

subsection \<open>The little-endian encoding satisfies the interface\<close>

text \<open>
  What the type \<open>U64<LE>\<close> documents: the bytes of the integer, least significant first.
\<close>

primrec le_new :: "nat \<Rightarrow> 'a::len word \<Rightarrow> u8 list" where
  "le_new 0 w = []"
| "le_new (Suc n) w = ucast w # le_new n (drop_bit 8 w)"

fun le_get :: "u8 list \<Rightarrow> 'a::len word" where
  "le_get [] = 0"
| "le_get (b # bs) = ucast b OR push_bit 8 (le_get bs)"

definition le_zerocopy :: zerocopy where
  "le_zerocopy =
     \<lparr> U16_new = le_new 2, U16_get = le_get, U32_new = le_new 4, U32_get = le_get,
       U64_new = le_new 8, U64_get = le_get \<rparr>"

lemma length_le_new [simp]: "length (le_new n w) = n"
  by (induction n arbitrary: w) simp_all

lemma le_get_new: "le_get (le_new n w) = take_bit (8 * n) w"
proof (induction n arbitrary: w)
  case (Suc n)
  show ?case
    by (rule bit_word_eqI) (auto simp: Suc bit_simps)
qed simp

lemma le_get_zero: "le_get (replicate n 0) = 0"
  by (induction n) simp_all

lemma le_get_new_width: "8 * n = LENGTH('a::len) \<Longrightarrow> le_get (le_new n (w::'a word)) = w"
  by (simp add: le_get_new take_bit_word_eq_self)

interpretation le: zerocopy_spec le_zerocopy
proof
  fix a :: u16 and b :: u32 and c :: u64
  show "U16_get le_zerocopy (U16_new le_zerocopy a) = a"
    and "U32_get le_zerocopy (U32_new le_zerocopy b) = b"
    and "U64_get le_zerocopy (U64_new le_zerocopy c) = c"
    by (simp_all add: le_zerocopy_def le_get_new_width)
qed (simp_all add: le_zerocopy_def le_get_zero)

lemma field_join: "j = i + n \<Longrightarrow> field i n bs @ field j m bs = field i (n + m) bs"
  by (simp add: field_def take_add add.commute [of n i])

lemma field_join_append: "j = i + n \<Longrightarrow> field i n bs @ field j m bs @ xs = field i (n + m) bs @ xs"
  using field_join [of j i n bs m] by (metis append.assoc)

lemma field_join_many: "concat (map (\<lambda>k. field (i + n * k) n bs) [0..<m]) = field i (n * m) bs"
proof (induction m)
  case (Suc m)
  then show ?case using field_join [of "i + n * m" i "n * m" bs n] by (simp add: algebra_simps)
qed (simp add: field_def)



end
