(* ===== verification/Block_Dev.thy ===== *)
theory Block_Dev
  imports FS_Layout
begin

section \<open>Block devices (\<open>src/src/fs/block_dev.rs\<close>)\<close>

text \<open>
  The trait \<open>BlockDevice\<close> is the record of its three methods, over a type of device states;
  the file system takes it as an argument, as the Rust code is generic over it. The contract
  of the trait is the locale \<open>block_device_spec\<close>; \<open>reliable_device\<close> adds that requests for
  blocks of the device succeed. The repository implements the trait for the \<open>virtio_drivers\<close>
  block driver, a package outside the repository, which is the record \<open>virtio_blk\<close>; its
  documented behaviour is the locale \<open>virtio_driver\<close>, and the implementation is shown to
  keep the trait's contract over any such driver.
\<close>

datatype FileSystemError =
    FormatFailed | MountFailed | BlockError | NoSpace | NameTooLong | CorruptLayout
  | InvalidSuperBlock

text \<open>
  A read fills the caller's buffer; when it fails, the buffer is what the device left there.
\<close>

record 'd block_device =
  read_blocks :: "'d \<Rightarrow> u64 \<Rightarrow> u8 list \<Rightarrow> (unit, FileSystemError) result \<times> u8 list \<times> 'd"
  write_blocks :: "'d \<Rightarrow> u64 \<Rightarrow> u8 list \<Rightarrow> (unit, FileSystemError) result \<times> 'd"
  capacity :: "'d \<Rightarrow> u64"

record ('d, 'e) virtio_blk =
  drv_read_blocks :: "'d \<Rightarrow> usize \<Rightarrow> u8 list \<Rightarrow> (unit, 'e) result \<times> u8 list \<times> 'd"
  drv_write_blocks :: "'d \<Rightarrow> usize \<Rightarrow> u8 list \<Rightarrow> (unit, 'e) result \<times> 'd"
  drv_capacity :: "'d \<Rightarrow> u64"

definition virtio_read_blocks ::
    "('d, 'e) virtio_blk \<Rightarrow> 'd \<Rightarrow> u64 \<Rightarrow> u8 list \<Rightarrow> (unit, FileSystemError) result \<times> u8 list \<times> 'd" where
  "virtio_read_blocks V d start_block_id buffer =
     (case drv_read_blocks V d start_block_id buffer of
        (r, buffer', d') \<Rightarrow> (res_map_err (\<lambda>_. BlockError) r, buffer', d'))"

definition virtio_write_blocks ::
    "('d, 'e) virtio_blk \<Rightarrow> 'd \<Rightarrow> u64 \<Rightarrow> u8 list \<Rightarrow> (unit, FileSystemError) result \<times> 'd" where
  "virtio_write_blocks V d start_block_id buffer =
     (case drv_write_blocks V d start_block_id buffer of
        (r, d') \<Rightarrow> (res_map_err (\<lambda>_. BlockError) r, d'))"

definition VirtIOBlk_device :: "('d, 'e) virtio_blk \<Rightarrow> 'd block_device" where
  "VirtIOBlk_device V =
     \<lparr> read_blocks = virtio_read_blocks V,
       write_blocks = virtio_write_blocks V,
       capacity = drv_capacity V \<rparr>"

subsection \<open>The contract of the trait\<close>

text \<open>
  \<open>blocks d b\<close> is what block \<open>b\<close> holds, \<open>dev_ok\<close> the states the device can be in. Only
  single blocks of 512 bytes are ever transferred. A failed write may leave anything in the
  block it was aimed at, never in another one.
\<close>

locale block_device_spec =
  fixes D :: "'d block_device"
    and dev_ok :: "'d \<Rightarrow> bool"
    and blocks :: "'d \<Rightarrow> u64 \<Rightarrow> u8 list"
  assumes blocks_length: "dev_ok d \<Longrightarrow> length (blocks d b) = 512"
    and read_frame: "\<lbrakk>dev_ok d; length buf = 512; read_blocks D d b buf = (r, buf', d')\<rbrakk> \<Longrightarrow>
      dev_ok d' \<and> blocks d' = blocks d \<and> capacity D d' = capacity D d \<and> length buf' = 512"
    and read_ok: "\<lbrakk>dev_ok d; length buf = 512; read_blocks D d b buf = (Ok (), buf', d')\<rbrakk> \<Longrightarrow>
      buf' = blocks d b \<and> b < capacity D d"
    and write_frame: "\<lbrakk>dev_ok d; length buf = 512; write_blocks D d b buf = (r, d')\<rbrakk> \<Longrightarrow>
      dev_ok d' \<and> capacity D d' = capacity D d \<and> (\<forall>c. c \<noteq> b \<longrightarrow> blocks d' c = blocks d c)"
    and write_ok: "\<lbrakk>dev_ok d; length buf = 512; write_blocks D d b buf = (Ok (), d')\<rbrakk> \<Longrightarrow>
      blocks d' b = buf \<and> b < capacity D d"

locale reliable_device = block_device_spec +
  assumes read_total: "\<lbrakk>dev_ok d; length buf = 512; b < capacity D d\<rbrakk> \<Longrightarrow>
      \<exists>buf' d'. read_blocks D d b buf = (Ok (), buf', d')"
    and write_total: "\<lbrakk>dev_ok d; length buf = 512; b < capacity D d\<rbrakk> \<Longrightarrow>
      \<exists>d'. write_blocks D d b buf = (Ok (), d')"

text \<open>The same contract, for the driver the kernel uses.\<close>

locale virtio_driver =
  fixes V :: "('d, 'e) virtio_blk"
    and dev_ok :: "'d \<Rightarrow> bool"
    and blocks :: "'d \<Rightarrow> u64 \<Rightarrow> u8 list"
  assumes drv_blocks_length: "dev_ok d \<Longrightarrow> length (blocks d b) = 512"
    and drv_read_frame: "\<lbrakk>dev_ok d; length buf = 512; drv_read_blocks V d b buf = (r, buf', d')\<rbrakk> \<Longrightarrow>
      dev_ok d' \<and> blocks d' = blocks d \<and> drv_capacity V d' = drv_capacity V d \<and> length buf' = 512"
    and drv_read_ok: "\<lbrakk>dev_ok d; length buf = 512; drv_read_blocks V d b buf = (Ok (), buf', d')\<rbrakk> \<Longrightarrow>
      buf' = blocks d b \<and> b < drv_capacity V d"
    and drv_write_frame: "\<lbrakk>dev_ok d; length buf = 512; drv_write_blocks V d b buf = (r, d')\<rbrakk> \<Longrightarrow>
      dev_ok d' \<and> drv_capacity V d' = drv_capacity V d \<and> (\<forall>c. c \<noteq> b \<longrightarrow> blocks d' c = blocks d c)"
    and drv_write_ok: "\<lbrakk>dev_ok d; length buf = 512; drv_write_blocks V d b buf = (Ok (), d')\<rbrakk> \<Longrightarrow>
      blocks d' b = buf \<and> b < drv_capacity V d"

locale reliable_virtio_driver = virtio_driver +
  assumes drv_read_total: "\<lbrakk>dev_ok d; length buf = 512; b < drv_capacity V d\<rbrakk> \<Longrightarrow>
      \<exists>buf' d'. drv_read_blocks V d b buf = (Ok (), buf', d')"
    and drv_write_total: "\<lbrakk>dev_ok d; length buf = 512; b < drv_capacity V d\<rbrakk> \<Longrightarrow>
      \<exists>d'. drv_write_blocks V d b buf = (Ok (), d')"

lemma res_map_err_Ok_iff [simp]:
  "res_map_err f r = Ok x \<longleftrightarrow> r = Ok x"
  "Ok x = res_map_err f r \<longleftrightarrow> r = Ok x"
  by (cases r; auto)+

lemma virtio_read_blocks_iff:
  "virtio_read_blocks V d b buf = (r, buf', d') \<longleftrightarrow>
     (\<exists>r0. drv_read_blocks V d b buf = (r0, buf', d') \<and> r = res_map_err (\<lambda>_. BlockError) r0)"
  by (auto simp: virtio_read_blocks_def split: prod.splits)

lemma virtio_write_blocks_iff:
  "virtio_write_blocks V d b buf = (r, d') \<longleftrightarrow>
     (\<exists>r0. drv_write_blocks V d b buf = (r0, d') \<and> r = res_map_err (\<lambda>_. BlockError) r0)"
  by (auto simp: virtio_write_blocks_def split: prod.splits)

sublocale virtio_driver \<subseteq> block_device_spec "VirtIOBlk_device V" dev_ok blocks
proof
  fix d b r d' and buf buf' :: "u8 list"
  assume ok: "dev_ok d"
  then show "length (blocks d b) = 512" by (rule drv_blocks_length)
  assume len: "length buf = 512"
  note facts = VirtIOBlk_device_def virtio_read_blocks_iff virtio_write_blocks_iff
  show "dev_ok d' \<and> blocks d' = blocks d \<and>
      capacity (VirtIOBlk_device V) d' = capacity (VirtIOBlk_device V) d \<and> length buf' = 512"
    if "read_blocks (VirtIOBlk_device V) d b buf = (r, buf', d')"
    using that drv_read_frame [OF ok len, of b _ buf' d'] by (auto simp: facts)
  show "buf' = blocks d b \<and> b < capacity (VirtIOBlk_device V) d"
    if "read_blocks (VirtIOBlk_device V) d b buf = (Ok (), buf', d')"
    using that drv_read_ok [OF ok len, of b buf' d'] by (auto simp: facts)
  show "dev_ok d' \<and> capacity (VirtIOBlk_device V) d' = capacity (VirtIOBlk_device V) d \<and>
      (\<forall>c. c \<noteq> b \<longrightarrow> blocks d' c = blocks d c)"
    if "write_blocks (VirtIOBlk_device V) d b buf = (r, d')"
    using that drv_write_frame [OF ok len, of b _ d'] by (auto simp: facts)
  show "blocks d' b = buf \<and> b < capacity (VirtIOBlk_device V) d"
    if "write_blocks (VirtIOBlk_device V) d b buf = (Ok (), d')"
    using that drv_write_ok [OF ok len, of b d'] by (auto simp: facts)
qed

sublocale reliable_virtio_driver \<subseteq> reliable_device "VirtIOBlk_device V" dev_ok blocks
proof
  fix d b and buf :: "u8 list"
  assume "dev_ok d" "length buf = 512" "b < capacity (VirtIOBlk_device V) d"
  then show "\<exists>buf' d'. read_blocks (VirtIOBlk_device V) d b buf = (Ok (), buf', d')"
    and "\<exists>d'. write_blocks (VirtIOBlk_device V) d b buf = (Ok (), d')"
    using drv_read_total [of d buf b] drv_write_total [of d buf b]
    by (auto simp: VirtIOBlk_device_def virtio_read_blocks_iff virtio_write_blocks_iff)
qed

subsection \<open>A disk of sectors\<close>

text \<open>
  A concrete driver: an array of 512-byte sectors, some of which may be unreadable and
  unwritable. Requests outside the disk fail.
\<close>

record sector_disk =
  sectors :: "u64 \<Rightarrow> u8 list"
  sector_count :: u64
  bad_sector :: "u64 \<Rightarrow> bool"

definition sector_driver :: "(sector_disk, unit) virtio_blk" where
  "sector_driver =
     \<lparr> drv_read_blocks = (\<lambda>d b buf.
         if b < sector_count d \<and> \<not> bad_sector d b then (Ok (), sectors d b, d)
         else (Err (), buf, d)),
       drv_write_blocks = (\<lambda>d b buf.
         if b < sector_count d \<and> \<not> bad_sector d b
         then (Ok (), d\<lparr>sectors := (sectors d)(b := buf)\<rparr>) else (Err (), d)),
       drv_capacity = sector_count \<rparr>"

abbreviation sector_device :: "sector_disk block_device" where
  "sector_device \<equiv> VirtIOBlk_device sector_driver"

definition disk_ok :: "sector_disk \<Rightarrow> bool" where
  "disk_ok d \<longleftrightarrow> (\<forall>b. length (sectors d b) = 512)"

definition good_disk_ok :: "sector_disk \<Rightarrow> bool" where
  "good_disk_ok d \<longleftrightarrow> disk_ok d \<and> (\<forall>b. \<not> bad_sector d b)"

definition blank_disk :: "u64 \<Rightarrow> sector_disk" where
  "blank_disk n = \<lparr> sectors = (\<lambda>_. replicate 512 0), sector_count = n, bad_sector = (\<lambda>_. False) \<rparr>"

interpretation faulty_disk: virtio_driver sector_driver disk_ok sectors
  by unfold_locales (auto simp: sector_driver_def disk_ok_def split: if_splits)

interpretation good_disk: reliable_virtio_driver sector_driver good_disk_ok sectors
  by unfold_locales (auto simp: sector_driver_def good_disk_ok_def disk_ok_def split: if_splits)

lemma good_disk_ok_blank [simp]: "good_disk_ok (blank_disk n)"
  by (simp add: good_disk_ok_def disk_ok_def blank_disk_def)

lemma capacity_sector_device [simp]: "capacity sector_device d = sector_count d"
  by (simp add: VirtIOBlk_device_def sector_driver_def)

lemma sector_count_blank [simp]: "sector_count (blank_disk n) = n"
  by (simp add: blank_disk_def)

end
