(* ===== verification/Simple_FS.thy ===== *)
theory Simple_FS
  imports Block_Dev
begin

unbundle bit_operations_syntax

section \<open>The simple file system (\<open>src/src/fs/simple_fs.rs\<close>)\<close>

text \<open>
  The file system's state is the device and the super block in memory. Every method is a
  computation on that state (\<open>io\<close> of the prelude); \<open>?\<close> is \<open>io_bind\<close>, an index or an
  arithmetic overflow that would panic is \<open>io_out\<close> of a checked operation. The disk-integer
  package and the device are the arguments \<open>Z\<close> and \<open>D\<close>. Messages printed on the serial line
  are left out.
\<close>

definition MAGIC_NUMBER :: u32 where "MAGIC_NUMBER = 0xDEADBEEF"
definition ROOT_DIRECTORY_INODE :: u64 where "ROOT_DIRECTORY_INODE = 0"

record 'd SFS =
  device :: 'd
  superblock :: SuperBlock

definition zero_block :: "u8 list" where
  "zero_block = replicate BLOCK_SIZE 0"

text \<open>
  One-block requests with the error mapped to \<open>BlockError\<close>, the shape of every transfer in
  the code: a zeroed buffer is read into, a whole buffer is written.
\<close>

definition dev_read :: "'d block_device \<Rightarrow> u64 \<Rightarrow> ('d, u8 list, FileSystemError) io" where
  "dev_read D b d =
     (case read_blocks D d b zero_block of
        (Ok _, buffer, d') \<Rightarrow> (Ret (Ok buffer), d')
      | (Err _, buffer, d') \<Rightarrow> (Ret (Err BlockError), d'))"

definition dev_write :: "'d block_device \<Rightarrow> u64 \<Rightarrow> u8 list \<Rightarrow> ('d, unit, FileSystemError) io" where
  "dev_write D b buffer d =
     (case write_blocks D d b buffer of
        (Ok _, d') \<Rightarrow> (Ret (Ok ()), d')
      | (Err _, d') \<Rightarrow> (Ret (Err BlockError), d'))"

definition on_device :: "('d, 'a, 'e) io \<Rightarrow> ('d SFS, 'a, 'e) io" where
  "on_device m fs = (case m (device fs) of (r, d') \<Rightarrow> (r, fs\<lparr>device := d'\<rparr>))"

subsection \<open>Formatting and mounting\<close>

definition format ::
    "zerocopy \<Rightarrow> 'd block_device \<Rightarrow> ('d, 'd SFS, FileSystemError) io" where
  "format Z D d0 =
     (let cap = capacity D d0;
          inode_table_blocks = cap div 10 in
      io_bind (io_out (mul_ck inode_table_blocks (of_nat INODES_PER_BLOCK))) (\<lambda>icount.
      io_bind (io_out (add_ck INODE_TABLE_START_BLOCK inode_table_blocks)) (\<lambda>dstart.
      io_bind (io_out (sub_ck cap dstart)) (\<lambda>dcount.
        let sb = \<lparr> total_blocks = cap,
                   inode_bitmap_block = INODE_BITMAP_BLOCK,
                   data_bitmap_block = DATA_BITMAP_BLOCK,
                   inode_table_start_block = INODE_TABLE_START_BLOCK,
                   inode_count = icount,
                   data_block_start = dstart,
                   data_block_count = dcount,
                   magic_number = MAGIC_NUMBER \<rparr>;
            dsb = DiskSuperBlock_from Z sb in
        io_bind (io_out (copy_ck 0 sizeof_DiskSuperBlock (DiskSuperBlock_as_bytes dsb) zero_block))
          (\<lambda>superblock_buffer.
        io_bind (dev_write D SUPERBLOCK_BLOCK superblock_buffer) (\<lambda>_.
        io_bind (dev_write D INODE_BITMAP_BLOCK zero_block) (\<lambda>_.
        io_bind (dev_write D DATA_BITMAP_BLOCK zero_block) (\<lambda>_ d.
          (Ret (Ok \<lparr> device = d, superblock = sb \<rparr>), d)))))))) d0)"

text \<open>
  \<open>mount\<close> maps the error of its read but does not return it (there is no \<open>?\<close>), so it goes on
  with whatever the buffer holds.
\<close>

definition mount ::
    "zerocopy \<Rightarrow> 'd block_device \<Rightarrow> ('d, 'd SFS, FileSystemError) io" where
  "mount Z D d0 =
     (case read_blocks D d0 SUPERBLOCK_BLOCK zero_block of
        (_, buffer, d1) \<Rightarrow>
          io_bind (io_out (slice_ck 0 sizeof_DiskSuperBlock buffer)) (\<lambda>bytes.
          io_bind (io_res (Ret (res_map_err (\<lambda>_. InvalidSuperBlock)
                     (DiskSuperBlock_ref_from_bytes bytes)))) (\<lambda>disk_superblock.
          io_bind (io_res (Ret (res_map_err (\<lambda>_. InvalidSuperBlock)
                     (SuperBlock_try_from Z disk_superblock)))) (\<lambda>sb.
          if magic_number sb \<noteq> MAGIC_NUMBER then io_throw InvalidSuperBlock
          else (\<lambda>d. (Ret (Ok \<lparr> device = d, superblock = sb \<rparr>), d))))) d1)"

subsection \<open>Allocation of inodes and data blocks\<close>

definition allocate_inode :: "'d block_device \<Rightarrow> ('d SFS, u64, FileSystemError) io" where
  "allocate_inode D =
     io_bind (on_device (dev_read D INODE_BITMAP_BLOCK)) (\<lambda>bitmap_buffer.
     io_bind (io_out (find_and_set_first_free bitmap_buffer)) (\<lambda>(free, bitmap_buffer).
     io_bind (io_ok_or free NoSpace) (\<lambda>free_inode_index.
     io_bind (\<lambda>fs. on_device (dev_write D (inode_bitmap_block (superblock fs)) bitmap_buffer) fs) (\<lambda>_.
     io_return (of_nat free_inode_index)))))"

definition allocate_data_block :: "'d block_device \<Rightarrow> ('d SFS, u64, FileSystemError) io" where
  "allocate_data_block D =
     io_bind (on_device (dev_read D DATA_BITMAP_BLOCK)) (\<lambda>bm_buffer.
     io_bind (io_out (find_and_set_first_free bm_buffer)) (\<lambda>(free, bm_buffer).
     io_bind (io_ok_or free NoSpace) (\<lambda>free_idx.
     io_bind (on_device (dev_write D DATA_BITMAP_BLOCK bm_buffer)) (\<lambda>_ fs.
     io_out (add_ck (data_block_start (superblock fs)) (of_nat free_idx)) fs))))"

subsection \<open>The inode table\<close>

definition inode_offset :: "u64 \<Rightarrow> nat" where
  "inode_offset inode_index = unat (inode_index mod of_nat INODES_PER_BLOCK) * INODE_SIZE"

definition read_inode ::
    "zerocopy \<Rightarrow> 'd block_device \<Rightarrow> u64 \<Rightarrow> ('d SFS, Inode, FileSystemError) io" where
  "read_inode Z D inode_index fs0 =
     io_bind (io_out (add_ck (inode_table_start_block (superblock fs0))
                (inode_index div of_nat INODES_PER_BLOCK))) (\<lambda>block_num.
     let offset_in_block = inode_offset inode_index in
     io_bind (on_device (dev_read D block_num)) (\<lambda>buffer.
     io_bind (io_out (slice_ck offset_in_block (offset_in_block + sizeof_DiskInode) buffer)) (\<lambda>bytes.
     io_bind (io_res (Ret (res_map_err (\<lambda>_. BlockError) (DiskInode_ref_from_bytes bytes))))
       (\<lambda>disk_inode.
     io_res (Ret (res_map_err (\<lambda>_. BlockError) (Inode_try_from Z disk_inode))))))) fs0"

definition write_inode ::
    "zerocopy \<Rightarrow> 'd block_device \<Rightarrow> Inode \<Rightarrow> u64 \<Rightarrow> ('d SFS, unit, FileSystemError) io" where
  "write_inode Z D inode inode_idx fs0 =
     io_bind (io_out (add_ck (inode_table_start_block (superblock fs0))
                (inode_idx div of_nat INODES_PER_BLOCK))) (\<lambda>block_num.
     let offset_in_block = inode_offset inode_idx in
     io_bind (on_device (dev_read D block_num)) (\<lambda>buffer.
     let disk_inode = DiskInode_from Z inode in
     io_bind (io_out (copy_ck offset_in_block (offset_in_block + sizeof_DiskInode)
                (DiskInode_as_bytes disk_inode) buffer)) (\<lambda>buffer.
     on_device (dev_write D block_num buffer)))) fs0"

subsection \<open>Directory blocks\<close>

definition write_dirent_into_block ::
    "zerocopy \<Rightarrow> u8 list \<Rightarrow> nat \<Rightarrow> u64 \<Rightarrow> u8 list \<Rightarrow> (u8 list, FileSystemError) result outcome" where
  "write_dirent_into_block Z block slot inode name =
     (if length name > DIR_NAME_MAX then Ret (Err NameTooLong)
      else
        let start = slot * DIR_ENTRY_SIZE;
            stop = start + DIR_ENTRY_SIZE in
        bind_out (copy_ck 0 (length name) name (replicate DIR_NAME_MAX 8)) (\<lambda>entry_name.
        let entry = \<lparr> de_inode = U64_new Z inode,
                      de_name_len = U16_new Z (of_nat (length name)),
                      de_flags = U16_new Z DIRENT_USED,
                      de_name = entry_name \<rparr> in
        bind_out (copy_ck 0 DIR_ENTRY_SIZE (DiskDirEntry_as_bytes entry)
                    (replicate DIR_ENTRY_SIZE 0)) (\<lambda>entry_bytes.
        bind_out (copy_ck start stop entry_bytes block) (\<lambda>block'.
        Ret (Ok block')))))"

fun find_free_dir_slot_loop :: "zerocopy \<Rightarrow> u8 list \<Rightarrow> nat list \<Rightarrow> nat option outcome" where
  "find_free_dir_slot_loop Z block [] = Ret None"
| "find_free_dir_slot_loop Z block (i # is) =
     (let start = i * DIR_ENTRY_SIZE;
          stop = start + DIR_ENTRY_SIZE in
      bind_out (slice_ck start stop block) (\<lambda>bytes.
        case DiskDirEntry_ref_from_bytes bytes of
          Ok entry \<Rightarrow>
            let used = U16_get Z (de_flags entry) AND DIRENT_USED \<noteq> 0;
                inode = U64_get Z (de_inode entry) in
            if \<not> used \<or> inode = 0 then Ret (Some i)
            else find_free_dir_slot_loop Z block is
        | Err _ \<Rightarrow> find_free_dir_slot_loop Z block is))"

definition find_free_dir_slot :: "zerocopy \<Rightarrow> u8 list \<Rightarrow> nat option outcome" where
  "find_free_dir_slot Z block = find_free_dir_slot_loop Z block [0..<DIR_ENTRIES_PER_BLOCK]"

definition zero_inode :: "FileType \<Rightarrow> u16 \<Rightarrow> Inode" where
  "zero_inode ft links =
     \<lparr> mode = ft, user_id = 0, group_id = 0, link_count = links, size_in_bytes = 0,
       last_access_time = 0, last_modification_time = 0, creation_time = 0,
       direct_pointers = replicate 10 0, indirect_pointer = 0 \<rparr>"

text \<open>\<open>b"."\<close> and \<open>b".."\<close>.\<close>

definition dot_name :: "u8 list" where "dot_name = [0x2E]"
definition dotdot_name :: "u8 list" where "dotdot_name = [0x2E, 0x2E]"

definition init_root_directory ::
    "zerocopy \<Rightarrow> 'd block_device \<Rightarrow> ('d SFS, unit, FileSystemError) io" where
  "init_root_directory Z D =
     io_bind (on_device (dev_read D INODE_BITMAP_BLOCK)) (\<lambda>ibuf.
     io_bind (io_out (bind_out (bitmap_is_set ibuf 0) (\<lambda>s.
                if \<not> s then bind_out (bitmap_set ibuf 0) (\<lambda>(_, ibuf'). Ret ibuf')
                else Ret ibuf))) (\<lambda>ibuf.
     io_bind (on_device (dev_write D INODE_BITMAP_BLOCK ibuf)) (\<lambda>_.
     io_bind (allocate_data_block D) (\<lambda>data_block.
     let root = (zero_inode Directory 2)\<lparr>direct_pointers := (replicate 10 0)[0 := data_block]\<rparr> in
     io_bind (write_inode Z D root 0) (\<lambda>_.
     io_bind (io_res (write_dirent_into_block Z zero_block 0 0 dot_name)) (\<lambda>dir_block.
     io_bind (io_res (write_dirent_into_block Z dir_block 1 0 dotdot_name)) (\<lambda>dir_block.
     on_device (dev_write D data_block dir_block))))))))"

definition add_root_dir_entry ::
    "zerocopy \<Rightarrow> 'd block_device \<Rightarrow> u64 \<Rightarrow> u8 list \<Rightarrow> ('d SFS, unit, FileSystemError) io" where
  "add_root_dir_entry Z D inode name =
     (if length name > DIR_NAME_MAX then io_throw NameTooLong
      else
        io_bind (read_inode Z D 0) (\<lambda>root.
        let block = direct_pointers root ! 0 in
        if block = 0 then io_throw CorruptLayout
        else
          io_bind (on_device (dev_read D block)) (\<lambda>dir_block.
          io_bind (io_out (find_free_dir_slot Z dir_block)) (\<lambda>free.
          io_bind (io_ok_or free NoSpace) (\<lambda>slot.
          io_bind (io_res (write_dirent_into_block Z dir_block slot inode name)) (\<lambda>dir_block.
          on_device (dev_write D block dir_block)))))))"

text \<open>
  The loop of \<open>create_file_in_root\<close> over the directory-entry iterator: \<open>i\<close> is the counter of
  \<open>enumerate\<close>, \<open>slot\<close> the variable \<open>empty_slot_index\<close>. The slice \<open>entry.name[..len]\<close>
  panics when the stored length exceeds the 52 bytes of the field.
\<close>

function create_scan ::
    "zerocopy \<Rightarrow> u8 list \<Rightarrow> nat \<Rightarrow> nat option \<Rightarrow> DirEntryBlock
       \<Rightarrow> (nat option, FileSystemError) result outcome" where
  "create_scan Z name i slot it =
     (case DirEntryBlock_next it of
        Panic \<Rightarrow> Panic
      | Ret (None, _) \<Rightarrow> Ret (Ok slot)
      | Ret (Some entry, it') \<Rightarrow>
          if U16_get Z (de_flags entry) AND DIRENT_USED \<noteq> 0 then
            bind_out (slice_ck 0 (unat (U16_get Z (de_name_len entry))) (de_name entry)) (\<lambda>nm.
              if nm = name then Ret (Err CorruptLayout)
              else create_scan Z name (i + 1) slot it')
          else if slot = None then create_scan Z name (i + 1) (Some i) it'
          else create_scan Z name (i + 1) slot it')"
  by pat_completeness auto
termination
  by (relation "measure (\<lambda>(Z, name, i, slot, it). DIR_ENTRIES_PER_BLOCK - deb_idx it)")
    (auto dest!: DirEntryBlock_next_Some)

definition create_file_in_root ::
    "zerocopy \<Rightarrow> 'd block_device \<Rightarrow> u8 list \<Rightarrow> ('d SFS, u64 \<times> u64, FileSystemError) io" where
  "create_file_in_root Z D name =
     (if length name > DIR_NAME_MAX \<or> name = [] then io_throw NameTooLong
      else
        io_bind (read_inode Z D ROOT_DIRECTORY_INODE) (\<lambda>root_dir_inode.
        if mode root_dir_inode \<noteq> Directory then io_throw CorruptLayout
        else
          let dir_block = direct_pointers root_dir_inode ! 0 in
          if dir_block = 0 then io_throw CorruptLayout
          else
            io_bind (on_device (dev_read D dir_block)) (\<lambda>dir_block_buf.
            io_bind (io_res (create_scan Z name 0 None (DirEntryBlock_new dir_block_buf)))
              (\<lambda>empty_slot_index.
            io_bind (io_ok_or empty_slot_index NoSpace) (\<lambda>slot_index.
            io_bind (allocate_inode D) (\<lambda>inode_index.
            io_bind (write_inode Z D (zero_inode File 1) inode_index) (\<lambda>_.
            io_bind (io_res (write_dirent_into_block Z dir_block_buf slot_index inode_index name))
              (\<lambda>dir_block_buf.
            io_bind (on_device (dev_write D dir_block dir_block_buf)) (\<lambda>_.
            io_return (inode_index, dir_block))))))))))"

subsection \<open>The \<open>FileSystem\<close> trait\<close>

datatype FileHandler = FileHandler usize

datatype FileError =
    BlockReadError | DirectoryFull | BlockWriteError | FileNotFound | FileExists
  | CreationFailed | NoSpace | InvalidHandle | InvalidName | Corrupt

definition create_file_err :: "FileSystemError \<Rightarrow> FileError" where
  "create_file_err e =
     (case e of
        NameTooLong \<Rightarrow> InvalidName
      | FileSystemError.NoSpace \<Rightarrow> FileError.NoSpace
      | CorruptLayout \<Rightarrow> Corrupt
      | _ \<Rightarrow> CreationFailed)"

definition create_file ::
    "zerocopy \<Rightarrow> 'd block_device \<Rightarrow> u8 list \<Rightarrow> ('d SFS, FileHandler, FileError) io" where
  "create_file Z D name =
     io_bind (io_map_err create_file_err (create_file_in_root Z D name)) (\<lambda>(inode_index, dir_block).
     io_return (FileHandler inode_index))"

text \<open>\<open>delete_file\<close>, \<open>open_file\<close> and \<open>list_file\<close> are \<open>todo!()\<close>, which panics.\<close>

definition delete_file :: "u8 list \<Rightarrow> ('d SFS, unit, FileError) io" where
  "delete_file name = io_panic"

definition open_file :: "u8 list \<Rightarrow> ('d SFS, FileHandler, FileError) io" where
  "open_file name = io_panic"

definition list_file :: "('d SFS, u8 list list, FileError) io" where
  "list_file = io_panic"

end
