(* ===== verification/Simple_FS_Steps.thy ===== *)
theory Simple_FS_Steps
  imports Simple_FS
begin

unbundle bit_operations_syntax

section \<open>What each file-system step does to the disk\<close>

text \<open>
  For every method of \<open>SFS\<close> that transfers blocks, a case rule: the outcomes it can have on a
  device that keeps the trait's contract, with the blocks each of them leaves. The rules are
  proved once, in the locales of the device and of the disk integers.
\<close>

definition inode_block :: "SuperBlock \<Rightarrow> u64 \<Rightarrow> u64" where
  "inode_block sb i = inode_table_start_block sb + i div of_nat INODES_PER_BLOCK"

definition disk_inode ::
    "zerocopy \<Rightarrow> SuperBlock \<Rightarrow> (u64 \<Rightarrow> u8 list) \<Rightarrow> u64 \<Rightarrow> (Inode, unit) result" where
  "disk_inode Z sb B i =
     (case DiskInode_ref_from_bytes (field (inode_offset i) 128 (B (inode_block sb i))) of
        Ok di \<Rightarrow> Inode_try_from Z di
      | Err u \<Rightarrow> Err u)"

lemma length_zero_block [simp]: "length zero_block = 512"
  by (simp add: zero_block_def layout_sizes)

text \<open>
  How one step changes the file system, given the contents function of the device:
  \<open>kept\<close> leaves every block alone, \<open>stored\<close> replaces one block, \<open>smeared\<close> is what a failed
  write may do.
\<close>

definition kept ::
    "'d block_device \<Rightarrow> ('d \<Rightarrow> bool) \<Rightarrow> ('d \<Rightarrow> u64 \<Rightarrow> u8 list) \<Rightarrow> 'd SFS \<Rightarrow> 'd SFS \<Rightarrow> bool" where
  "kept D dev_ok blocks fs fs' \<longleftrightarrow>
     dev_ok (device fs') \<and> superblock fs' = superblock fs \<and>
     capacity D (device fs') = capacity D (device fs) \<and> blocks (device fs') = blocks (device fs)"

definition stored ::
    "'d block_device \<Rightarrow> ('d \<Rightarrow> bool) \<Rightarrow> ('d \<Rightarrow> u64 \<Rightarrow> u8 list) \<Rightarrow> u64 \<Rightarrow> u8 list \<Rightarrow> 'd SFS \<Rightarrow> 'd SFS \<Rightarrow> bool" where
  "stored D dev_ok blocks b buf fs fs' \<longleftrightarrow>
     dev_ok (device fs') \<and> superblock fs' = superblock fs \<and>
     capacity D (device fs') = capacity D (device fs) \<and>
     blocks (device fs') = (blocks (device fs))(b := buf)"

definition smeared ::
    "'d block_device \<Rightarrow> ('d \<Rightarrow> bool) \<Rightarrow> ('d \<Rightarrow> u64 \<Rightarrow> u8 list) \<Rightarrow> u64 \<Rightarrow> 'd SFS \<Rightarrow> 'd SFS \<Rightarrow> bool" where
  "smeared D dev_ok blocks b fs fs' \<longleftrightarrow>
     dev_ok (device fs') \<and> superblock fs' = superblock fs \<and>
     capacity D (device fs') = capacity D (device fs) \<and>
     (\<forall>c. c \<noteq> b \<longrightarrow> blocks (device fs') c = blocks (device fs) c)"

text \<open>What \<open>format\<close> puts into every super block, as far as the other methods rely on it.\<close>

definition std_layout :: "SuperBlock \<Rightarrow> bool" where
  "std_layout sb \<longleftrightarrow>
     inode_bitmap_block sb = INODE_BITMAP_BLOCK \<and>
     inode_table_start_block sb = INODE_TABLE_START_BLOCK \<and>
     unat (data_block_start sb) + 4096 \<le> 2 ^ 64"

lemma inode_block_ck:
  assumes "std_layout sb"
  shows "add_ck (inode_table_start_block sb) (i div of_nat INODES_PER_BLOCK) = Ret (inode_block sb i)"
proof -
  have "unat i < 2 ^ 64" using unat_bound [of i] by simp
  then have "unat (i div 4) < 2 ^ 62" by (simp add: unat_div)
  then have "unat (3::u64) + unat (i div 4) < 2 ^ 64" by simp
  then show ?thesis
    using assms by (simp add: add_ck_def std_layout_def layout_blocks layout_sizes inode_block_def)
qed

lemma data_block_ck:
  assumes "std_layout sb" and "i < 4096"
  shows "add_ck (data_block_start sb) (of_nat i) = Ret (data_block_start sb + of_nat i)"
proof -
  have "unat (of_nat i :: u64) = i" using assms(2) by (simp add: unat_of_nat)
  moreover have "unat (data_block_start sb) + 4096 \<le> 2 ^ 64"
    using assms(1) unfolding std_layout_def by blast
  ultimately have "unat (data_block_start sb) + unat (of_nat i :: u64) < 2 ^ LENGTH(64)"
    using assms(2) by simp
  then show ?thesis unfolding add_ck_def by simp
qed

lemma inode_offset_bound: "inode_offset i + 128 \<le> 512"
proof -
  have "unat (i mod 4) < 4" by (simp add: unat_mod)
  then show ?thesis by (simp add: inode_offset_def layout_sizes)
qed

lemma inode_place_inj:
  assumes "inode_block sb i = inode_block sb j" and "inode_offset i = inode_offset j"
  shows "i = j"
proof -
  from assms have "i div 4 = j div 4" and "unat (i mod 4) = unat (j mod 4)"
    by (simp_all add: inode_block_def inode_offset_def layout_sizes)
  then have "i div 4 = j div 4" "i mod 4 = j mod 4" by (simp_all add: word_unat_eq_iff)
  then show ?thesis by (metis word_mod_div_equality)
qed

lemma inode_offset_apart:
  assumes "inode_block sb i = inode_block sb j" and "i \<noteq> j"
  shows "inode_offset i + 128 \<le> inode_offset j \<or> inode_offset j + 128 \<le> inode_offset i"
proof -
  have "inode_offset i \<noteq> inode_offset j" using assms inode_place_inj by blast
  moreover have "128 dvd inode_offset i" "128 dvd inode_offset j"
    by (simp_all add: inode_offset_def layout_sizes)
  ultimately show ?thesis by (auto elim!: dvdE)
qed

lemmas change_defs = kept_def stored_def smeared_def

text \<open>
  A request to one of the blocks \<open>bs\<close> that the device refuses, in some state with the given
  capacity: the only reason for the error \<open>BlockError\<close>.
\<close>

definition io_fault ::
    "'d block_device \<Rightarrow> ('d \<Rightarrow> bool) \<Rightarrow> u64 \<Rightarrow> u64 set \<Rightarrow> bool" where
  "io_fault D dev_ok cap bs \<longleftrightarrow>
     (\<exists>d b. b \<in> bs \<and> dev_ok d \<and> capacity D d = cap \<and>
        ((\<exists>e buf d'. read_blocks D d b zero_block = (Err e, buf, d')) \<or>
         (\<exists>buf e d'. length buf = 512 \<and> write_blocks D d b buf = (Err e, d'))))"

lemma io_fault_mono: "io_fault D dev_ok cap bs \<Longrightarrow> bs \<subseteq> cs \<Longrightarrow> io_fault D dev_ok cap cs"
  unfolding io_fault_def by blast

context block_device_spec
begin

abbreviation unchanged where "unchanged \<equiv> kept D dev_ok blocks"
abbreviation rewrote where "rewrote \<equiv> stored D dev_ok blocks"
abbreviation damaged where "damaged \<equiv> smeared D dev_ok blocks"

lemma dev_read_cases:
  assumes "dev_ok d"
  obtains (ok) d' where "dev_read D b d = (Ret (Ok (blocks d b)), d')" "b < capacity D d"
      "dev_ok d'" "blocks d' = blocks d" "capacity D d' = capacity D d"
  | (err) d' where "dev_read D b d = (Ret (Err BlockError), d')"
      "dev_ok d'" "blocks d' = blocks d" "capacity D d' = capacity D d"
      "io_fault D dev_ok (capacity D d) {b}"
proof -
  obtain r buf d' where r: "read_blocks D d b zero_block = (r, buf, d')"
    by (metis prod_cases3)
  from read_frame [OF assms length_zero_block r]
  have frame: "dev_ok d'" "blocks d' = blocks d" "capacity D d' = capacity D d" by simp_all
  show thesis
  proof (cases r)
    case (Ok u)
    with read_ok [OF assms length_zero_block, of b buf d'] r frame ok show thesis
      by (simp add: dev_read_def)
  next
    case (Err e)
    with r assms have "io_fault D dev_ok (capacity D d) {b}" by (auto simp: io_fault_def)
    with Err r frame err show thesis by (simp add: dev_read_def)
  qed
qed

lemma dev_write_cases:
  assumes "dev_ok d" "length buf = 512"
  obtains (ok) d' where "dev_write D b buf d = (Ret (Ok ()), d')" "b < capacity D d"
      "dev_ok d'" "blocks d' = (blocks d)(b := buf)" "capacity D d' = capacity D d"
  | (err) d' where "dev_write D b buf d = (Ret (Err BlockError), d')"
      "dev_ok d'" "\<forall>c. c \<noteq> b \<longrightarrow> blocks d' c = blocks d c" "capacity D d' = capacity D d"
      "io_fault D dev_ok (capacity D d) {b}"
proof -
  obtain r d' where r: "write_blocks D d b buf = (r, d')"
    by (metis surj_pair)
  from write_frame [OF assms r]
  have frame: "dev_ok d'" "capacity D d' = capacity D d" "\<forall>c. c \<noteq> b \<longrightarrow> blocks d' c = blocks d c"
    by simp_all
  show thesis
  proof (cases r)
    case (Ok u)
    with write_ok [OF assms, of b d'] r have "blocks d' b = buf" "b < capacity D d" by simp_all
    moreover from this frame(3) have "blocks d' = (blocks d)(b := buf)" by (intro ext) simp
    ultimately show thesis using Ok r frame ok by (simp add: dev_write_def)
  next
    case (Err e)
    with r assms have "io_fault D dev_ok (capacity D d) {b}" by (auto simp: io_fault_def)
    with Err r frame err show thesis by (simp add: dev_write_def)
  qed
qed

lemma sfs_read_cases:
  assumes "dev_ok (device fs)"
  obtains (ok) fs' where "on_device (dev_read D b) fs = (Ret (Ok (blocks (device fs) b)), fs')"
      "b < capacity D (device fs)" "unchanged fs fs'"
  | (err) fs' where "on_device (dev_read D b) fs = (Ret (Err BlockError), fs')" "unchanged fs fs'"
      "io_fault D dev_ok (capacity D (device fs)) {b}"
proof (cases rule: dev_read_cases [OF assms, of b])
  case (1 d')
  then show thesis by (intro ok [of "fs\<lparr>device := d'\<rparr>"]) (simp_all add: on_device_def kept_def)
next
  case (2 d')
  then show thesis by (intro err [of "fs\<lparr>device := d'\<rparr>"]) (simp_all add: on_device_def kept_def)
qed

lemma sfs_write_cases:
  assumes "dev_ok (device fs)" "length buf = 512"
  obtains (ok) fs' where "on_device (dev_write D b buf) fs = (Ret (Ok ()), fs')"
      "b < capacity D (device fs)" "rewrote b buf fs fs'"
  | (err) fs' where "on_device (dev_write D b buf) fs = (Ret (Err BlockError), fs')"
      "damaged b fs fs'" "io_fault D dev_ok (capacity D (device fs)) {b}"
proof (cases rule: dev_write_cases [OF assms, of b])
  case (1 d')
  then show thesis by (intro ok [of "fs\<lparr>device := d'\<rparr>"]) (simp_all add: on_device_def stored_def)
next
  case (2 d')
  then show thesis by (intro err [of "fs\<lparr>device := d'\<rparr>"]) (simp_all add: on_device_def smeared_def)
qed

lemma unchangedD:
  assumes "unchanged fs fs'"
  shows "dev_ok (device fs')" "superblock fs' = superblock fs"
    "capacity D (device fs') = capacity D (device fs)" "blocks (device fs') = blocks (device fs)"
  using assms by (simp_all add: kept_def)

lemma rewroteD:
  assumes "rewrote b buf fs fs'"
  shows "dev_ok (device fs')" "superblock fs' = superblock fs"
    "capacity D (device fs') = capacity D (device fs)"
    "blocks (device fs') = (blocks (device fs))(b := buf)"
  using assms by (simp_all add: stored_def)

lemma change_trans:
  "unchanged fs fs' \<Longrightarrow> unchanged fs' fs'' \<Longrightarrow> unchanged fs fs''"
  "unchanged fs fs' \<Longrightarrow> rewrote b buf fs' fs'' \<Longrightarrow> rewrote b buf fs fs''"
  "unchanged fs fs' \<Longrightarrow> damaged b fs' fs'' \<Longrightarrow> damaged b fs fs''"
  "unchanged fs fs' \<Longrightarrow> damaged b fs fs'"
  "rewrote b buf fs fs' \<Longrightarrow> damaged b fs fs'"
  by (simp_all add: change_defs)

lemma allocate_inode_cases:
  assumes "dev_ok (device fs)" and sb: "inode_bitmap_block (superblock fs) = INODE_BITMAP_BLOCK"
  obtains (ok) i fs' where "allocate_inode D fs = (Ret (Ok (of_nat i)), fs')"
      "first_free (blocks (device fs) 1) = Some i"
      "rewrote 1 (bitmap_mark (blocks (device fs) 1) i) fs fs'"
  | (full) fs' where "allocate_inode D fs = (Ret (Err FileSystemError.NoSpace), fs')"
      "first_free (blocks (device fs) 1) = None" "unchanged fs fs'"
  | (err) fs' where "allocate_inode D fs = (Ret (Err BlockError), fs')" "damaged 1 fs fs'"
      "io_fault D dev_ok (capacity D (device fs)) {1}"
proof (cases rule: sfs_read_cases [OF assms(1), of INODE_BITMAP_BLOCK])
  case (1 fs1)
  note fs1 = unchangedD [OF 1(3)]
  show thesis
  proof (cases "first_free (blocks (device fs) 1)")
    case None
    with 1 full show thesis
      by (simp add: allocate_inode_def io_bind_step io_simps find_and_set_first_free_eq layout_blocks)
  next
    case (Some i)
    have len: "length (bitmap_mark (blocks (device fs) 1) i) = 512"
      using blocks_length [OF assms(1)] by simp
    have run: "allocate_inode D fs =
        io_bind (on_device (dev_write D 1 (bitmap_mark (blocks (device fs) 1) i)))
          (\<lambda>_. io_return (of_nat i)) fs1"
      using 1 Some fs1 sb
      by (simp add: allocate_inode_def io_bind_step io_simps find_and_set_first_free_eq layout_blocks
          io_bind_def)
    show thesis
    proof (cases rule: sfs_write_cases [OF fs1(1) len, of 1])
      case (1 fs2)
      with run Some ok [of i fs2] \<open>unchanged fs fs1\<close> show thesis
        by (simp add: io_bind_step io_simps change_trans)
    next
      case (2 fs2)
      with run err [of fs2] \<open>unchanged fs fs1\<close> fs1 show thesis
        by (simp add: io_bind_step io_simps change_trans)
    qed
  qed
next
  case (2 fs1)
  then show thesis using err [of fs1] by (simp add: allocate_inode_def io_bind_step change_trans layout_blocks)
qed


lemma allocate_data_block_cases:
  assumes "dev_ok (device fs)" and sb: "std_layout (superblock fs)"
  obtains (ok) i fs' where
      "allocate_data_block D fs = (Ret (Ok (data_block_start (superblock fs) + of_nat i)), fs')"
      "first_free (blocks (device fs) 2) = Some i"
      "rewrote 2 (bitmap_mark (blocks (device fs) 2) i) fs fs'"
  | (full) fs' where "allocate_data_block D fs = (Ret (Err FileSystemError.NoSpace), fs')"
      "first_free (blocks (device fs) 2) = None" "unchanged fs fs'"
  | (err) fs' where "allocate_data_block D fs = (Ret (Err BlockError), fs')" "damaged 2 fs fs'"
      "io_fault D dev_ok (capacity D (device fs)) {2}"
proof (cases rule: sfs_read_cases [OF assms(1), of DATA_BITMAP_BLOCK])
  case (1 fs1)
  note fs1 = unchangedD [OF 1(3)]
  show thesis
  proof (cases "first_free (blocks (device fs) 2)")
    case None
    with 1 full show thesis
      by (simp add: allocate_data_block_def io_bind_step io_simps find_and_set_first_free_eq
          layout_blocks)
  next
    case (Some i)
    have len: "length (bitmap_mark (blocks (device fs) 2) i) = 512"
      using blocks_length [OF assms(1)] by simp
    have "i < 4096" using Some blocks_length [OF assms(1), of 2] by (simp add: first_free_Some_iff)
    with sb have sum: "add_ck (data_block_start (superblock fs)) (of_nat i) =
        Ret (data_block_start (superblock fs) + of_nat i)"
      by (intro data_block_ck) simp_all
    have run: "allocate_data_block D fs =
        io_bind (on_device (dev_write D 2 (bitmap_mark (blocks (device fs) 2) i)))
          (\<lambda>_ fs. io_out (add_ck (data_block_start (superblock fs)) (of_nat i)) fs) fs1"
      using 1 Some fs1
      by (simp add: allocate_data_block_def io_bind_step io_simps find_and_set_first_free_eq
          layout_blocks)
    show thesis
    proof (cases rule: sfs_write_cases [OF fs1(1) len, of 2])
      case (1 fs2)
      then have "allocate_data_block D fs = (Ret (Ok (data_block_start (superblock fs) + of_nat i)), fs2)"
        using run sum fs1(2) rewroteD(2) [OF 1(3)] by (simp add: io_bind_step io_simps)
      with Some ok [of i fs2] 1(3) \<open>unchanged fs fs1\<close> show thesis by (simp add: change_trans)
    next
      case (2 fs2)
      with run err [of fs2] \<open>unchanged fs fs1\<close> fs1 show thesis
        by (simp add: io_bind_step io_simps change_trans)
    qed
  qed
next
  case (2 fs1)
  then show thesis using err [of fs1]
    by (simp add: allocate_data_block_def io_bind_step change_trans layout_blocks)
qed

lemma read_inode_cases:
  assumes "dev_ok (device fs)" and sb: "std_layout (superblock fs)"
  obtains (ok) ino fs' where "read_inode Z D i fs = (Ret (Ok ino), fs')"
      "disk_inode Z (superblock fs) (blocks (device fs)) i = Ok ino" "unchanged fs fs'"
  | (err) fs' where "read_inode Z D i fs = (Ret (Err BlockError), fs')" "unchanged fs fs'"
      "disk_inode Z (superblock fs) (blocks (device fs)) i = Err () \<or>
       io_fault D dev_ok (capacity D (device fs)) {inode_block (superblock fs) i}"
proof (cases rule: sfs_read_cases [OF assms(1), of "inode_block (superblock fs) i"])
  case (1 fs1)
  let ?blk = "blocks (device fs) (inode_block (superblock fs) i)"
  have "length ?blk = 512" using blocks_length [OF assms(1)] .
  with 1 have run: "read_inode Z D i fs =
      (Ret (res_map_err (\<lambda>_. BlockError) (disk_inode Z (superblock fs) (blocks (device fs)) i)), fs1)"
    using inode_offset_bound [of i]
    by (cases "DiskInode_ref_from_bytes (field (inode_offset i) 128 ?blk)")
      (simp_all add: read_inode_def inode_block_ck [OF sb] io_simps io_bind_step Let_def
        sizeof_DiskInode_def disk_inode_def)
  show thesis
  proof (cases "disk_inode Z (superblock fs) (blocks (device fs)) i")
    case (Ok ino)
    with run 1 ok [of ino fs1] show thesis by simp
  next
    case (Err e)
    with run 1 err [of fs1] show thesis by simp
  qed
next
  case (2 fs1)
  then show thesis
    using err [of fs1] by (simp add: read_inode_def inode_block_ck [OF sb] io_simps io_bind_step Let_def)
qed

end

locale sfs_env = zerocopy_spec + block_device_spec
begin

lemma write_inode_cases:
  assumes "dev_ok (device fs)" and sb: "std_layout (superblock fs)" and wf: "wf_inode ino"
  obtains (ok) fs' where "write_inode Z D ino i fs = (Ret (Ok ()), fs')"
      "rewrote (inode_block (superblock fs) i)
         (overwrite (inode_offset i) (DiskInode_as_bytes (DiskInode_from Z ino))
            (blocks (device fs) (inode_block (superblock fs) i))) fs fs'"
      "inode_block (superblock fs) i < capacity D (device fs)"
  | (err) fs' where "write_inode Z D ino i fs = (Ret (Err BlockError), fs')"
      "damaged (inode_block (superblock fs) i) fs fs'"
      "io_fault D dev_ok (capacity D (device fs)) {inode_block (superblock fs) i}"
proof (cases rule: sfs_read_cases [OF assms(1), of "inode_block (superblock fs) i"])
  case (1 fs1)
  let ?b = "inode_block (superblock fs) i"
  let ?new = "overwrite (inode_offset i) (DiskInode_as_bytes (DiskInode_from Z ino)) (blocks (device fs) ?b)"
  have len: "length (blocks (device fs) ?b) = 512" using blocks_length [OF assms(1)] .
  then have len': "length ?new = 512" using inode_offset_bound [of i] wf by simp
  from 1 len have run: "write_inode Z D ino i fs = on_device (dev_write D ?b ?new) fs1"
    using inode_offset_bound [of i] wf
    by (simp add: write_inode_def inode_block_ck [OF sb] io_simps io_bind_step Let_def sizeof_DiskInode_def)
  show thesis
  proof (cases rule: sfs_write_cases [OF unchangedD(1) [OF 1(3)] len', of ?b])
    case (1 fs2)
    with run ok [of fs2] \<open>unchanged fs fs1\<close> show thesis by (simp add: change_trans kept_def)
  next
    case (2 fs2)
    with run err [of fs2] \<open>unchanged fs fs1\<close> show thesis by (simp add: change_trans kept_def)
  qed
next
  case (2 fs1)
  then show thesis
    using err [of fs1]
    by (simp add: write_inode_def inode_block_ck [OF sb] io_simps io_bind_step Let_def change_trans)
qed

lemma disk_inode_overwrite:
  assumes "length (B (inode_block sb i)) = 512" and "wf_inode ino"
  shows "disk_inode Z sb (B(inode_block sb i := overwrite (inode_offset i)
           (DiskInode_as_bytes (DiskInode_from Z ino)) (B (inode_block sb i)))) j =
         (if j = i then Ok ino else disk_inode Z sb B j)"
proof (cases "j = i")
  case True
  then show ?thesis
    using assms inode_offset_bound [of i] by (simp add: disk_inode_def inode_bytes_decode)
next
  case False
  show ?thesis
  proof (cases "inode_block sb j = inode_block sb i")
    case True
    let ?src = "DiskInode_as_bytes (DiskInode_from Z ino)"
    have "field (inode_offset j) 128 (overwrite (inode_offset i) ?src (B (inode_block sb i))) =
        field (inode_offset j) 128 (B (inode_block sb i))"
      using False True assms inode_offset_bound [of i] inode_offset_bound [of j]
        inode_offset_apart [of sb i j]
      by (intro field_overwrite_disjoint) auto
    with True False show ?thesis by (simp add: disk_inode_def)
  next
    case apart: False
    with False show ?thesis by (simp add: disk_inode_def)
  qed
qed

end

end
