(* ===== verification/Simple_FS_Dir.thy ===== *)
theory Simple_FS_Dir
  imports Simple_FS_Steps
begin

unbundle bit_operations_syntax

section \<open>Directory blocks and the creation of files\<close>

text \<open>
  A directory block as a list of eight entries and as a map from names to inode numbers;
  the scan of \<open>create_file_in_root\<close> as a scan of that list; the effect of writing an entry;
  the invariant \<open>sfs_inv\<close> of a formatted file system; and the case rule for
  \<open>create_file_in_root\<close> on such a file system.
\<close>

subsection \<open>The entries of a directory block\<close>

definition entry_used :: "zerocopy \<Rightarrow> DiskDirEntry \<Rightarrow> bool" where
  "entry_used Z e \<longleftrightarrow> U16_get Z (de_flags e) AND DIRENT_USED \<noteq> 0"

definition entry_len :: "zerocopy \<Rightarrow> DiskDirEntry \<Rightarrow> nat" where
  "entry_len Z e = unat (U16_get Z (de_name_len e))"

definition entry_name :: "zerocopy \<Rightarrow> DiskDirEntry \<Rightarrow> u8 list" where
  "entry_name Z e = take (entry_len Z e) (de_name e)"

definition entry_inode :: "zerocopy \<Rightarrow> DiskDirEntry \<Rightarrow> u64" where
  "entry_inode Z e = U64_get Z (de_inode e)"

definition dir_entries :: "u8 list \<Rightarrow> DiskDirEntry list" where
  "dir_entries block = map (dirent_at block) [0..<8]"

text \<open>The directory a block stands for: the used entries, by name.\<close>

definition dir_alist :: "zerocopy \<Rightarrow> DiskDirEntry list \<Rightarrow> (u8 list \<times> u64) list" where
  "dir_alist Z es = map (\<lambda>e. (entry_name Z e, entry_inode Z e)) (filter (entry_used Z) es)"

definition dir_map :: "zerocopy \<Rightarrow> u8 list \<Rightarrow> u8 list \<Rightarrow> u64 option" where
  "dir_map Z block = map_of (dir_alist Z (dir_entries block))"

definition dir_wf :: "zerocopy \<Rightarrow> u8 list \<Rightarrow> bool" where
  "dir_wf Z block \<longleftrightarrow> (\<forall>e\<in>set (dir_entries block). entry_used Z e \<longrightarrow> entry_len Z e \<le> 52)"

lemma length_dir_entries [simp]: "length (dir_entries block) = 8"
  by (simp add: dir_entries_def)

lemma dir_entries_nth [simp]: "i < 8 \<Longrightarrow> dir_entries block ! i = dirent_at block i"
  by (simp add: dir_entries_def)

subsection \<open>The scan of \<open>create_file_in_root\<close> as a scan of the entries\<close>

fun scan_entries ::
    "zerocopy \<Rightarrow> u8 list \<Rightarrow> nat \<Rightarrow> nat option \<Rightarrow> DiskDirEntry list
       \<Rightarrow> (nat option, FileSystemError) result outcome" where
  "scan_entries Z name i slot [] = Ret (Ok slot)"
| "scan_entries Z name i slot (e # es) =
     (if entry_used Z e then
        (if entry_len Z e \<le> 52 then
           (if entry_name Z e = name then Ret (Err CorruptLayout)
            else scan_entries Z name (i + 1) slot es)
         else Panic)
      else scan_entries Z name (i + 1) (if slot = None then Some i else slot) es)"

declare create_scan.simps [simp del]

lemma dirent_name_length [simp]:
  "length block = 512 \<Longrightarrow> i < 8 \<Longrightarrow> length (de_name (dirent_at block i)) = 52"
  by (simp add: dirent_at_def)

lemma create_scan_entries:
  assumes "length block = 512" and "k \<le> 8"
  shows "create_scan Z name i slot \<lparr> deb_block = block, deb_idx = k \<rparr> =
         scan_entries Z name i slot (map (dirent_at block) [k..<8])"
  using assms(2)
proof (induction "8 - k" arbitrary: k i slot)
  case 0
  then have "k = 8" by simp
  then show ?case
    using assms(1) by (simp add: create_scan.simps [of Z name i slot] DirEntryBlock_next_block)
next
  case (Suc n)
  then have k: "k < 8" by simp
  then have upt: "[k..<8] = k # [k + 1..<8]" by (simp add: upt_conv_Cons)
  have IH: "create_scan Z name i' slot' \<lparr> deb_block = block, deb_idx = k + 1 \<rparr> =
      scan_entries Z name i' slot' (map (dirent_at block) [k + 1..<8])" for i' slot'
    using Suc.hyps(1) [of "k + 1"] Suc.hyps(2) k by simp
  show ?case
    using assms(1) k IH
    by (simp add: create_scan.simps [of Z name i slot] DirEntryBlock_next_block upt
        slice_ck_def entry_used_def entry_len_def entry_name_def field_def)
qed

lemma create_scan_new:
  "length block = 512 \<Longrightarrow> create_scan Z name i slot (DirEntryBlock_new block) =
     scan_entries Z name i slot (dir_entries block)"
  by (simp add: DirEntryBlock_new_def create_scan_entries dir_entries_def)

lemma scan_entries_wf:
  assumes "\<forall>e\<in>set es. entry_used Z e \<longrightarrow> entry_len Z e \<le> 52"
  shows "scan_entries Z name i slot es =
     Ret (if name \<in> fst ` set (dir_alist Z es) then Err CorruptLayout
          else Ok (if slot = None
                   then map_option ((+) i) (find (\<lambda>j. \<not> entry_used Z (es ! j)) [0..<length es])
                   else slot))"
  using assms
proof (induction es arbitrary: i slot)
  case Nil
  then show ?case by (simp add: dir_alist_def)
next
  case (Cons e es)
  have shift: "find (\<lambda>j. \<not> entry_used Z ((e # es) ! j)) (map Suc [0..<length es]) =
      map_option Suc (find (\<lambda>j. \<not> entry_used Z (es ! j)) [0..<length es])"
    by (simp add: find_map_list comp_def)
  have upt: "[0..<Suc (length es)] = 0 # map Suc [0..<length es]"
    by (metis map_Suc_upt upt_conv_Cons zero_less_Suc)
  have plus: "(+) (Suc i) = (\<lambda>x. Suc (i + x))" by (rule ext) simp
  show ?case
  proof (cases "entry_used Z e")
    case True
    with Cons show ?thesis
      by (auto simp: dir_alist_def upt shift option.map_comp comp_def plus simp del: upt_Suc)
  next
    case False
    with Cons show ?thesis
      by (auto simp: dir_alist_def upt simp del: upt_Suc)
  qed
qed


subsection \<open>Writing an entry\<close>

definition new_dirent :: "zerocopy \<Rightarrow> u64 \<Rightarrow> u8 list \<Rightarrow> DiskDirEntry" where
  "new_dirent Z ino name =
     \<lparr> de_inode = U64_new Z ino, de_name_len = U16_new Z (of_nat (length name)),
       de_flags = U16_new Z DIRENT_USED,
       de_name = overwrite 0 name (replicate 52 8) \<rparr>"

definition put_dirent :: "zerocopy \<Rightarrow> u8 list \<Rightarrow> nat \<Rightarrow> u64 \<Rightarrow> u8 list \<Rightarrow> u8 list" where
  "put_dirent Z block slot ino name =
     overwrite (slot * 64) (DiskDirEntry_as_bytes (new_dirent Z ino name)) block"

context zerocopy_spec
begin

lemma length_new_dirent_bytes [simp]:
  "length name \<le> 52 \<Longrightarrow> length (DiskDirEntry_as_bytes (new_dirent Z ino name)) = 64"
  by (simp add: new_dirent_def DiskDirEntry_as_bytes_def)

lemma length_put_dirent [simp]:
  "\<lbrakk>length block = 512; slot < 8; length name \<le> 52\<rbrakk> \<Longrightarrow> length (put_dirent Z block slot ino name) = 512"
  by (simp add: put_dirent_def)

lemma overwrite_whole: "length src = length xs \<Longrightarrow> overwrite 0 src xs = src"
  by (simp add: overwrite_def)

lemma write_dirent_ok:
  assumes "length block = 512" "slot < 8" "length name \<le> 52"
  shows "write_dirent_into_block Z block slot ino name = Ret (Ok (put_dirent Z block slot ino name))"
  using assms length_new_dirent_bytes [OF assms(3), of ino]
  by (simp add: write_dirent_into_block_def layout_sizes Let_def put_dirent_def overwrite_whole
      flip: new_dirent_def)

lemma dirent_at_put:
  assumes "length block = 512" "slot < 8" "length name \<le> 52" "i < 8"
  shows "dirent_at (put_dirent Z block slot ino name) i =
         (if i = slot then new_dirent Z ino name else dirent_at block i)"
proof (cases "i = slot")
  case True
  have "DiskDirEntry_ref_from_bytes (field (i * 64) 64 (put_dirent Z block slot ino name)) =
      Ok (new_dirent Z ino name)"
  proof -
    have "field (i * 64) 64 (put_dirent Z block slot ino name) =
        DiskDirEntry_as_bytes (new_dirent Z ino name)"
      using assms True by (simp add: put_dirent_def)
    then show ?thesis
      using assms dirent_bytes_decode [of "overwrite 0 name (replicate 52 8)"]
      by (simp add: new_dirent_def)
  qed
  with assms True show ?thesis by (simp add: DiskDirEntry_ref_from_field)
next
  case False
  then have apart: "i * 64 + 64 \<le> slot * 64 \<or> slot * 64 + 64 \<le> i * 64" by arith
  have "field (i * 64 + off) n (put_dirent Z block slot ino name) = field (i * 64 + off) n block"
    if "off + n \<le> 64" for off n
    unfolding put_dirent_def using assms apart that by (intro field_overwrite_disjoint) auto
  from this [of 0 8] this [of 8 2] this [of 10 2] this [of 12 52] False show ?thesis
    by (simp add: dirent_at_def)
qed

lemma dir_entries_put:
  assumes "length block = 512" "slot < 8" "length name \<le> 52"
  shows "dir_entries (put_dirent Z block slot ino name) = (dir_entries block)[slot := new_dirent Z ino name]"
  using assms by (intro nth_equalityI) (auto simp: dirent_at_put nth_list_update)

lemma new_dirent_view [simp]:
  assumes "length name \<le> 52"
  shows "entry_used Z (new_dirent Z ino name)" "entry_len Z (new_dirent Z ino name) = length name"
    "entry_name Z (new_dirent Z ino name) = name" "entry_inode Z (new_dirent Z ino name) = ino"
proof -
  have len: "unat (of_nat (length name) :: u16) = length name"
    using assms by (simp add: unat_of_nat)
  then show l: "entry_len Z (new_dirent Z ino name) = length name"
    by (simp add: entry_len_def new_dirent_def)
  show "entry_name Z (new_dirent Z ino name) = name"
    using l by (simp add: entry_name_def new_dirent_def overwrite_def)
qed (simp_all add: entry_used_def entry_inode_def new_dirent_def DIRENT_USED_def)

end

lemma dir_alist_update:
  assumes "slot < length es" "\<not> entry_used Z (es ! slot)" "entry_used Z e"
  shows "\<exists>xs ys. dir_alist Z es = xs @ ys \<and>
           dir_alist Z (es[slot := e]) = xs @ (entry_name Z e, entry_inode Z e) # ys"
proof -
  let ?xs = "take slot es" and ?ys = "drop (Suc slot) es"
  have "es = ?xs @ es ! slot # ?ys" using assms(1) by (simp add: id_take_nth_drop)
  then have "dir_alist Z es = dir_alist Z ?xs @ dir_alist Z ?ys"
    using assms(2) by (metis (no_types, lifting) append_Nil dir_alist_def filter.simps(2) filter_append map_append)
  moreover have "dir_alist Z (es[slot := e]) =
      dir_alist Z ?xs @ (entry_name Z e, entry_inode Z e) # dir_alist Z ?ys"
    using assms(1,3) by (simp add: dir_alist_def upd_conv_take_nth_drop)
  ultimately show ?thesis by blast
qed

lemma map_of_insert_fresh:
  "n \<notin> fst ` set (xs @ ys) \<Longrightarrow> map_of (xs @ (n, v) # ys) = (map_of (xs @ ys))(n \<mapsto> v)"
  by (induction xs) (auto simp: fun_upd_twist)

context zerocopy_spec
begin

lemma dir_map_put:
  assumes "length block = 512" "slot < 8" "length name \<le> 52"
    and "\<not> entry_used Z (dirent_at block slot)" and "name \<notin> dom (dir_map Z block)"
  shows "dir_map Z (put_dirent Z block slot ino name) = (dir_map Z block)(name \<mapsto> ino)"
proof -
  obtain xs ys where "dir_alist Z (dir_entries block) = xs @ ys"
    and "dir_alist Z ((dir_entries block)[slot := new_dirent Z ino name]) = xs @ (name, ino) # ys"
    using dir_alist_update [of slot "dir_entries block" Z "new_dirent Z ino name"] assms by auto
  with assms show ?thesis
    by (simp add: dir_map_def dir_entries_put dom_map_of_conv_image_fst map_of_insert_fresh
        del: map_of_append)
qed

lemma dir_wf_put:
  assumes "length block = 512" "slot < 8" "length name \<le> 52" "dir_wf Z block"
  shows "dir_wf Z (put_dirent Z block slot ino name)"
  using assms by (auto simp: dir_wf_def dir_entries_put dest!: set_update_subset_insert [THEN subsetD])

lemma length_field_block:
  "length block = 512 \<Longrightarrow> i < 8 \<Longrightarrow> length (de_name (dirent_at block i)) = 52"
  by simp

lemma entry_unused_zero:
  assumes "i < 8"
  shows "\<not> entry_used Z (dirent_at zero_block i)"
proof -
  have "min 2 (502 - i * 64) = 2" using assms by simp
  then show ?thesis by (simp add: entry_used_def dirent_at_def zero_block_def layout_sizes)
qed

end


section \<open>The invariant of a formatted file system\<close>

definition valid_sb :: "SuperBlock \<Rightarrow> bool" where
  "valid_sb sb \<longleftrightarrow> std_layout sb \<and> 4 \<le> unat (data_block_start sb) \<and>
     unat (inode_count sb) = 4 * (unat (data_block_start sb) - 3)"

definition root_block :: "zerocopy \<Rightarrow> SuperBlock \<Rightarrow> (u64 \<Rightarrow> u8 list) \<Rightarrow> u64" where
  "root_block Z sb B = (case disk_inode Z sb B 0 of Ok root \<Rightarrow> direct_pointers root ! 0 | Err _ \<Rightarrow> 0)"

definition is_directory :: "(Inode, unit) result \<Rightarrow> bool" where
  "is_directory r = (case r of Ok ino \<Rightarrow> mode ino = Directory | Err _ \<Rightarrow> False)"

definition sfs_inv :: "zerocopy \<Rightarrow> SuperBlock \<Rightarrow> (u64 \<Rightarrow> u8 list) \<Rightarrow> bool" where
  "sfs_inv Z sb B \<longleftrightarrow>
     valid_sb sb \<and> is_directory (disk_inode Z sb B 0) \<and>
     data_block_start sb \<le> root_block Z sb B \<and>
     bitmap_bit (B 1) 0 \<and>
     dir_wf Z (B (root_block Z sb B)) \<and>
     distinct (map fst (dir_alist Z (dir_entries (B (root_block Z sb B))))) \<and>
     (\<forall>x\<in>ran (dir_map Z (B (root_block Z sb B))). bitmap_bit (B 1) (unat x))"

lemma unat_inode_block:
  assumes "std_layout sb"
  shows "unat (inode_block sb i) = 3 + unat i div 4"
proof -
  have "unat i div 4 < 2 ^ 62" using unat_bound [of i] by simp
  then have "unat (3::u64) + unat (i div 4) < 2 ^ LENGTH(64)" by (simp add: unat_div)
  from unat_add_no_overflow [OF this] show ?thesis
    using assms by (simp add: inode_block_def std_layout_def layout_blocks layout_sizes unat_div)
qed

lemma inode_block_not_bitmap:
  assumes "std_layout sb"
  shows "inode_block sb i \<noteq> 1" "inode_block sb i \<noteq> 2" "inode_block sb i \<noteq> 0"
  using unat_inode_block [OF assms, of i] by auto

lemma inode_block_below_data:
  assumes "valid_sb sb" and "i < inode_count sb"
  shows "inode_block sb i < data_block_start sb"
proof -
  have "unat i < 4 * (unat (data_block_start sb) - 3)"
    using assms by (simp add: valid_sb_def word_less_nat_alt)
  then have "unat i div 4 < unat (data_block_start sb) - 3" by auto
  then show ?thesis
    using assms(1) unat_inode_block [of sb i] by (simp add: valid_sb_def word_less_nat_alt)
qed

lemma disk_inode_cong:
  "B (inode_block sb i) = B' (inode_block sb i) \<Longrightarrow> disk_inode Z sb B i = disk_inode Z sb B' i"
  by (simp add: disk_inode_def)

lemma inode_zero_in_table:
  assumes "valid_sb sb"
  shows "0 < inode_count sb"
  using assms by (auto simp: valid_sb_def word_less_nat_alt)

lemma root_block_not_meta:
  assumes "valid_sb sb" and "data_block_start sb \<le> root_block Z sb B"
  shows "root_block Z sb B \<noteq> 0" "root_block Z sb B \<noteq> 1" "root_block Z sb B \<noteq> 2"
    "i < inode_count sb \<Longrightarrow> inode_block sb i \<noteq> root_block Z sb B"
  using assms inode_block_below_data [of sb i]
  by (auto simp: valid_sb_def word_le_nat_alt word_less_nat_alt)

definition free_slot :: "zerocopy \<Rightarrow> u8 list \<Rightarrow> nat option" where
  "free_slot Z block = find (\<lambda>j. \<not> entry_used Z (dirent_at block j)) [0..<8]"

lemma free_slot_Some:
  "free_slot Z block = Some slot \<Longrightarrow> slot < 8 \<and> \<not> entry_used Z (dirent_at block slot)"
  by (auto simp: free_slot_def find_Some_iff)

lemma dom_dir_map: "dom (dir_map Z block) = fst ` set (dir_alist Z (dir_entries block))"
  by (simp add: dir_map_def dom_map_of_conv_image_fst)

lemma create_scan_wf:
  assumes "length block = 512" and "dir_wf Z block"
  shows "create_scan Z name 0 None (DirEntryBlock_new block) =
           Ret (if name \<in> dom (dir_map Z block) then Err CorruptLayout else Ok (free_slot Z block))"
proof -
  have "find (\<lambda>j. \<not> entry_used Z (dir_entries block ! j)) [0..<8] = free_slot Z block"
    unfolding free_slot_def by (rule find_cong) auto
  moreover have "map_option ((+) 0) x = x" for x :: "nat option" by (cases x) simp_all
  ultimately show ?thesis
    using assms by (simp add: create_scan_new scan_entries_wf dir_wf_def dom_dir_map)
qed


lemma wf_zero_inode [simp]: "wf_inode (zero_inode ft n)"
  by (simp add: wf_inode_def zero_inode_def)

text \<open>
  The blocks a creation may write, and the blocks after a successful one: three writes, in
  this order.
\<close>

definition create_targets :: "SuperBlock \<Rightarrow> (u64 \<Rightarrow> u8 list) \<Rightarrow> u64 \<Rightarrow> u64 set" where
  "create_targets sb B rb = {1, rb} \<union> {inode_block sb (of_nat i) |i. first_free (B 1) = Some i}"

definition create_blocks ::
    "zerocopy \<Rightarrow> SuperBlock \<Rightarrow> (u64 \<Rightarrow> u8 list) \<Rightarrow> u64 \<Rightarrow> nat \<Rightarrow> nat \<Rightarrow> u8 list \<Rightarrow> u64 \<Rightarrow> u8 list" where
  "create_blocks Z sb B rb i slot name =
     (let ib = inode_block sb (of_nat i);
          B1 = B(1 := bitmap_mark (B 1) i);
          B2 = B1(ib := overwrite (inode_offset (of_nat i))
                 (DiskInode_as_bytes (DiskInode_from Z (zero_inode File 1))) (B1 ib))
      in B2(rb := put_dirent Z (B rb) slot (of_nat i) name))"

text \<open>The part of \<open>create_file_in_root\<close> after the scan of the directory.\<close>

definition create_tail ::
    "zerocopy \<Rightarrow> 'd block_device \<Rightarrow> u8 list \<Rightarrow> nat \<Rightarrow> u8 list \<Rightarrow> u64
       \<Rightarrow> ('d SFS, u64 \<times> u64, FileSystemError) io" where
  "create_tail Z D blk slot name rb =
     io_bind (allocate_inode D) (\<lambda>inode_index.
     io_bind (write_inode Z D (zero_inode File 1) inode_index) (\<lambda>_.
     io_bind (io_res (write_dirent_into_block Z blk slot inode_index name)) (\<lambda>dir_block_buf.
     io_bind (on_device (dev_write D rb dir_block_buf)) (\<lambda>_.
     io_return (inode_index, rb)))))"

context sfs_env
begin

lemma read_root_cases:
  assumes ok: "dev_ok (device fs)" and inv: "sfs_inv Z (superblock fs) (blocks (device fs))"
  obtains (found) root fs' where "read_inode Z D 0 fs = (Ret (Ok root), fs')" "unchanged fs fs'"
      "mode root = Directory"
      "direct_pointers root ! 0 = root_block Z (superblock fs) (blocks (device fs))"
      "root_block Z (superblock fs) (blocks (device fs)) \<noteq> 0"
  | (err) fs' where "read_inode Z D 0 fs = (Ret (Err BlockError), fs')" "unchanged fs fs'"
      "io_fault D dev_ok (capacity D (device fs)) {inode_block (superblock fs) 0}"
proof -
  have sb: "std_layout (superblock fs)" using inv by (simp add: sfs_inv_def valid_sb_def)
  show thesis
  proof (cases rule: read_inode_cases [OF ok sb, of Z 0])
    case (1 root fs')
    moreover have "mode root = Directory" "direct_pointers root ! 0 = root_block Z (superblock fs) (blocks (device fs))"
      using inv 1(2) by (auto simp: sfs_inv_def is_directory_def root_block_def)
    moreover have "root_block Z (superblock fs) (blocks (device fs)) \<noteq> 0"
      using inv root_block_not_meta(1) by (simp add: sfs_inv_def)
    ultimately show thesis using found by blast
  next
    case (2 fs')
    then show thesis using err inv by (auto simp: sfs_inv_def is_directory_def)
  qed
qed

lemma create_tail_cases:
  assumes dev: "dev_ok (device fs)" and sb: "std_layout (superblock fs)"
    and blk: "length blk = 512" and slot: "slot < 8" and name: "length name \<le> 52"
  obtains (ok) i fs' where
      "create_tail Z D blk slot name rb fs = (Ret (Ok (of_nat i, rb)), fs')"
      "first_free (blocks (device fs) 1) = Some i"
      "dev_ok (device fs')" "superblock fs' = superblock fs"
      "capacity D (device fs') = capacity D (device fs)"
      "blocks (device fs') = (let ib = inode_block (superblock fs) (of_nat i);
          B1 = (blocks (device fs))(1 := bitmap_mark (blocks (device fs) 1) i);
          B2 = B1(ib := overwrite (inode_offset (of_nat i))
                 (DiskInode_as_bytes (DiskInode_from Z (zero_inode File 1))) (B1 ib))
        in B2(rb := put_dirent Z blk slot (of_nat i) name))"
  | (full) fs' where
      "create_tail Z D blk slot name rb fs = (Ret (Err FileSystemError.NoSpace), fs')"
      "first_free (blocks (device fs) 1) = None" "unchanged fs fs'"
  | (err) fs' where
      "create_tail Z D blk slot name rb fs = (Ret (Err BlockError), fs')"
      "dev_ok (device fs')" "superblock fs' = superblock fs"
      "capacity D (device fs') = capacity D (device fs)"
      "\<forall>c. c \<notin> create_targets (superblock fs) (blocks (device fs)) rb \<longrightarrow>
         blocks (device fs') c = blocks (device fs) c"
      "io_fault D dev_ok (capacity D (device fs)) (create_targets (superblock fs) (blocks (device fs)) rb)"
proof (cases rule: allocate_inode_cases [OF dev])
  show "inode_bitmap_block (superblock fs) = INODE_BITMAP_BLOCK"
    using sb by (simp add: std_layout_def)
next
  case (2 i fs1)
  note w1 = rewroteD [OF 2(3)]
  note dirent = write_dirent_ok [OF blk slot name, of "of_nat i"]
  have sb1: "std_layout (superblock fs1)" using sb w1 by simp
  have targets: "create_targets (superblock fs) (blocks (device fs)) rb =
      {1, rb, inode_block (superblock fs) (of_nat i)}"
    using 2(2) by (auto simp: create_targets_def)
  show thesis
  proof (cases rule: write_inode_cases [OF w1(1) sb1 wf_zero_inode [of File 1], of "of_nat i"])
    case (1 fs2)
    note w2 = rewroteD [OF 1(2)]
    show thesis
    proof (cases rule: sfs_write_cases [OF w2(1) length_put_dirent [OF blk slot name, of "of_nat i"], of rb])
      case (1 fs3)
      note w3 = rewroteD [OF 1(3)]
      show thesis
        by (rule ok [of i fs3])
          (use 1 2 \<open>write_inode Z D (zero_inode File 1) (of_nat i) fs1 = _\<close> dirent w1 w2 w3 in
            \<open>simp_all add: create_tail_def io_bind_step io_simps Let_def\<close>)
    next
      case (2 fs3)
      have "io_fault D dev_ok (capacity D (device fs)) {1, rb, inode_block (superblock fs) (of_nat i)}"
        by (rule io_fault_mono [where bs = "{rb}"]) (use 2(3) w1 w2 in simp_all)
      then show thesis
        by (intro err [of fs3])
          (use 2 \<open>allocate_inode D fs = _\<close> \<open>write_inode Z D (zero_inode File 1) (of_nat i) fs1 = _\<close>
             dirent w1 w2 in
             \<open>simp_all add: targets create_tail_def io_bind_step io_simps smeared_def\<close>)
    qed
  next
    case (2 fs2)
    have "io_fault D dev_ok (capacity D (device fs)) {1, rb, inode_block (superblock fs) (of_nat i)}"
      by (rule io_fault_mono [where bs = "{inode_block (superblock fs) (of_nat i)}"])
        (use 2(3) w1 in simp_all)
    then show thesis
      by (intro err [of fs2])
        (use 2 \<open>allocate_inode D fs = _\<close> w1 in
          \<open>simp_all add: targets create_tail_def io_bind_step smeared_def\<close>)
  qed
next
  case (3 fs1)
  then show thesis by (intro full) (simp_all add: create_tail_def io_bind_step)
next
  case (4 fs1)
  have "io_fault D dev_ok (capacity D (device fs)) (create_targets (superblock fs) (blocks (device fs)) rb)"
    by (rule io_fault_mono [OF 4(3)]) (simp add: create_targets_def)
  with 4 show thesis
    by (intro err [of fs1]) (simp_all add: create_tail_def io_bind_step smeared_def create_targets_def)
qed

lemma create_file_in_root_cases:
  fixes fs name
  defines "B \<equiv> blocks (device fs)" and "sb \<equiv> superblock fs"
  defines "rb \<equiv> root_block Z sb B"
  assumes dev: "dev_ok (device fs)" and inv: "sfs_inv Z sb B"
  obtains (bad_name) "create_file_in_root Z D name fs = (Ret (Err NameTooLong), fs)"
      "name = [] \<or> 52 < length name"
  | (present) fs' where "create_file_in_root Z D name fs = (Ret (Err CorruptLayout), fs')"
      "unchanged fs fs'" "name \<in> dom (dir_map Z (B rb))" "name \<noteq> []" "length name \<le> 52"
  | (full) fs' where "create_file_in_root Z D name fs = (Ret (Err FileSystemError.NoSpace), fs')"
      "unchanged fs fs'" "free_slot Z (B rb) = None \<or> first_free (B 1) = None"
      "name \<notin> dom (dir_map Z (B rb))" "name \<noteq> []" "length name \<le> 52"
  | (err) fs' where "create_file_in_root Z D name fs = (Ret (Err BlockError), fs')"
      "dev_ok (device fs')" "superblock fs' = sb" "capacity D (device fs') = capacity D (device fs)"
      "\<forall>c. c \<notin> create_targets sb B rb \<longrightarrow> blocks (device fs') c = B c"
      "io_fault D dev_ok (capacity D (device fs)) (insert (inode_block sb 0) (create_targets sb B rb))"
      "name \<noteq> []" "length name \<le> 52"
  | (ok) i slot fs' where
      "create_file_in_root Z D name fs = (Ret (Ok (of_nat i, rb)), fs')"
      "first_free (B 1) = Some i" "free_slot Z (B rb) = Some slot"
      "name \<notin> dom (dir_map Z (B rb))" "name \<noteq> []" "length name \<le> 52"
      "dev_ok (device fs')" "superblock fs' = sb" "capacity D (device fs') = capacity D (device fs)"
      "blocks (device fs') = create_blocks Z sb B rb i slot name"
proof (cases "name = [] \<or> 52 < length name")
  case True
  then show thesis using bad_name by (auto simp: create_file_in_root_def layout_sizes io_simps)
next
  case False
  then have name: "name \<noteq> []" "length name \<le> 52" by auto
  have blk: "length (B rb) = 512" unfolding B_def by (rule blocks_length [OF dev])
  have wf: "dir_wf Z (B rb)" using inv by (simp add: sfs_inv_def rb_def)
  show thesis
  proof (cases rule: read_root_cases [OF dev inv [unfolded B_def sb_def]])
    case (1 root fs1)
    note fs1 = unchangedD [OF 1(2)]
    have rb: "direct_pointers root ! 0 = rb" "rb \<noteq> 0" using 1 by (simp_all add: rb_def sb_def B_def)
    show thesis
    proof (cases rule: sfs_read_cases [OF fs1(1), of rb])
      case (1 fs2)
      note fs2 = unchangedD [OF 1(3)]
      have scan: "create_scan Z name 0 None (DirEntryBlock_new (B rb)) =
          Ret (if name \<in> dom (dir_map Z (B rb)) then Err CorruptLayout else Ok (free_slot Z (B rb)))"
        by (rule create_scan_wf [OF blk wf])
      have run: "create_file_in_root Z D name fs =
          io_bind (io_res (create_scan Z name 0 None (DirEntryBlock_new (B rb)))) (\<lambda>slot.
          io_bind (io_ok_or slot FileSystemError.NoSpace) (\<lambda>slot_index.
          create_tail Z D (B rb) slot_index name rb)) fs2"
        using 1 \<open>read_inode Z D 0 fs = _\<close> \<open>mode root = Directory\<close> rb name fs1
        by (simp add: create_file_in_root_def create_tail_def layout_sizes io_bind_step Let_def
            ROOT_DIRECTORY_INODE_def B_def)
      have trans: "unchanged fs fs2" using \<open>unchanged fs fs1\<close> 1(3) by (rule change_trans)
      show thesis
      proof (cases "name \<in> dom (dir_map Z (B rb))")
        case True
        then show thesis using present [of fs2] run scan trans name by (simp add: io_simps)
      next
        case False
        show thesis
        proof (cases "free_slot Z (B rb)")
          case None
          then show thesis using full [of fs2] run scan trans name False by (simp add: io_simps)
        next
          case (Some slot)
          then have slot: "slot < 8" using free_slot_Some by blast
          have sb2: "std_layout (superblock fs2)"
            using inv fs1 fs2 by (simp add: sfs_inv_def valid_sb_def sb_def)
          have run': "create_file_in_root Z D name fs = create_tail Z D (B rb) slot name rb fs2"
            using run scan False Some by (simp add: io_simps)
          note view = fs1(2-4) fs2(2-4) B_def sb_def
          show thesis
          proof (cases rule: create_tail_cases [OF fs2(1) sb2 blk slot name(2), of rb])
            case (1 i fs3)
            then show thesis using ok [of i fs3 slot] run' view Some False name
              by (simp add: create_blocks_def Let_def)
          next
            case (2 fs3)
            then show thesis using full [of fs3] run' view trans False name
              by (simp add: kept_def)
          next
            case (3 fs3)
            have "io_fault D dev_ok (capacity D (device fs))
                (insert (inode_block sb 0) (create_targets sb B rb))"
              by (rule io_fault_mono [where bs = "create_targets sb B rb"])
                (use 3(6) view in auto)
            with 3 show thesis using err [of fs3] run' view name by simp
          qed
        qed
      qed
    next
      case (2 fs2)
      have "io_fault D dev_ok (capacity D (device fs))
          (insert (inode_block sb 0) (create_targets sb B rb))"
        by (rule io_fault_mono [where bs = "{rb}"]) (use 2(3) fs1 in \<open>auto simp: create_targets_def\<close>)
      with 2 show thesis
        using err [of fs2] \<open>read_inode Z D 0 fs = _\<close> \<open>mode root = Directory\<close> rb name fs1 unchangedD [OF 2(2)]
        by (simp add: create_file_in_root_def layout_sizes io_bind_step Let_def
            ROOT_DIRECTORY_INODE_def B_def sb_def)
    qed
  next
    case (2 fs1)
    have "io_fault D dev_ok (capacity D (device fs))
        (insert (inode_block sb 0) (create_targets sb B rb))"
      by (rule io_fault_mono [OF 2(3)]) (simp add: sb_def)
    with 2 show thesis
      using err [of fs1] name unchangedD [OF 2(2)]
      by (simp add: create_file_in_root_def layout_sizes io_bind_step ROOT_DIRECTORY_INODE_def
          B_def sb_def)
  qed
qed

end

end
