(* ===== verification/Simple_FS_Format.thy ===== *)
theory Simple_FS_Format
  imports Simple_FS_Dir
begin

unbundle bit_operations_syntax

section \<open>Formatting, mounting and the root directory\<close>

text \<open>
  The geometry \<open>format\<close> computes and when its arithmetic overflows; the outcomes of \<open>format\<close>,
  \<open>mount\<close> and \<open>init_root_directory\<close> on a device that keeps the trait's contract; and what a
  new root directory and a successful creation leave on the disk.
\<close>

subsection \<open>\<open>format\<close> and \<open>mount\<close>\<close>

text \<open>The super block that \<open>format\<close> computes from the capacity.\<close>

definition layout_of :: "u64 \<Rightarrow> SuperBlock" where
  "layout_of cap =
     \<lparr> total_blocks = cap, inode_bitmap_block = 1, data_bitmap_block = 2,
       inode_table_start_block = 3, inode_count = 4 * (cap div 10),
       data_block_start = 3 + cap div 10, data_block_count = cap - (3 + cap div 10),
       magic_number = MAGIC_NUMBER \<rparr>"

definition superblock_image :: "zerocopy \<Rightarrow> SuperBlock \<Rightarrow> u8 list" where
  "superblock_image Z sb =
     overwrite 0 (DiskSuperBlock_as_bytes (DiskSuperBlock_from Z sb)) zero_block"

lemma cap_div_bounds:
  fixes cap :: u64
  shows "unat (3 + cap div 10) = 3 + unat cap div 10"
    and "unat (4 * (cap div 10)) = 4 * (unat cap div 10)"
    and "unat (3::u64) + unat (cap div 10) < 2 ^ LENGTH(64)"
    and "unat (cap div 10) * unat (4::u64) < 2 ^ LENGTH(64)"
proof -
  have bound: "unat cap < 2 ^ 64" using unat_bound [of cap] by simp
  then show add: "unat (3::u64) + unat (cap div 10) < 2 ^ LENGTH(64)"
    and mul: "unat (cap div 10) * unat (4::u64) < 2 ^ LENGTH(64)"
    by (simp_all add: unat_div)
  from unat_add_no_overflow [OF add] show "unat (3 + cap div 10) = 3 + unat cap div 10"
    by (simp add: unat_div)
  from unat_mult_no_overflow [OF mul] show "unat (4 * (cap div 10)) = 4 * (unat cap div 10)"
    by (simp add: unat_div mult.commute)
qed

lemma layout_of_valid:
  assumes "10 \<le> unat cap"
  shows "valid_sb (layout_of cap)"
proof -
  have "unat cap < 2 ^ 64" using unat_bound [of cap] by simp
  then have "3 + unat cap div 10 + 4096 \<le> 2 ^ 64" by simp
  moreover have "4 \<le> 3 + unat cap div 10" using assms by auto
  ultimately show ?thesis
    by (simp add: valid_sb_def std_layout_def layout_of_def layout_blocks cap_div_bounds)
qed

lemma data_start_le_cap: "3 \<le> unat cap \<Longrightarrow> 3 + cap div 10 \<le> (cap::u64)"
  by (simp add: word_le_nat_alt cap_div_bounds)

lemma data_start_gt_cap: "unat cap < 3 \<Longrightarrow> \<not> 3 + cap div 10 \<le> (cap::u64)"
  by (simp add: word_le_nat_alt cap_div_bounds)

lemma format_arith:
  "add_ck INODE_TABLE_START_BLOCK ((cap::u64) div 10) = Ret (3 + cap div 10)"
  "mul_ck ((cap::u64) div 10) (of_nat INODES_PER_BLOCK) = Ret (4 * (cap div 10))"
  using cap_div_bounds(3,4) [of cap]
  by (simp_all add: add_ck_def mul_ck_def layout_blocks layout_sizes mult.commute)

lemma format_too_small:
  assumes "unat (capacity D d) < 3"
  shows "format Z D d = (Panic, d)"
  using data_start_gt_cap [OF assms]
  by (simp add: format_def Let_def format_arith io_simps sub_ck_def)

context zerocopy_spec
begin

lemma length_superblock_image [simp]: "length (superblock_image Z sb) = 512"
  by (simp add: superblock_image_def)

lemma mount_image:
  assumes "read_blocks D d 0 zero_block = (r, superblock_image Z sb, d')"
  shows "mount Z D d =
     (if magic_number sb = MAGIC_NUMBER then (Ret (Ok \<lparr> device = d', superblock = sb \<rparr>), d')
      else (Ret (Err InvalidSuperBlock), d'))"
proof -
  have "field 0 64 (superblock_image Z sb) = DiskSuperBlock_as_bytes (DiskSuperBlock_from Z sb)"
    by (simp add: superblock_image_def)
  then show ?thesis
    using assms
    by (simp add: mount_def layout_blocks sizeof_DiskSuperBlock_def io_simps
        superblock_bytes_decode)
qed

lemma mount_zero:
  assumes "read_blocks D d 0 zero_block = (r, zero_block, d')"
  shows "mount Z D d = (Ret (Err InvalidSuperBlock), d')"
proof -
  have "field 56 4 (replicate 64 (0::u8)) = replicate 4 0" by simp
  moreover have "field 0 64 zero_block = replicate 64 0"
    by (simp add: zero_block_def layout_sizes)
  ultimately show ?thesis
    using assms zero32
    by (simp add: mount_def layout_blocks sizeof_DiskSuperBlock_def io_simps
        DiskSuperBlock_ref_from_bytes_def SuperBlock_try_from_def MAGIC_NUMBER_def)
qed

end

context sfs_env
begin

lemma format_run:
  assumes "3 \<le> unat (capacity D d)"
  shows "format Z D d =
     io_bind (dev_write D 0 (superblock_image Z (layout_of (capacity D d)))) (\<lambda>_.
     io_bind (dev_write D 1 zero_block) (\<lambda>_.
     io_bind (dev_write D 2 zero_block) (\<lambda>_ d'.
     (Ret (Ok \<lparr> device = d', superblock = layout_of (capacity D d) \<rparr>), d')))) d"
proof -
  have "copy_ck 0 sizeof_DiskSuperBlock (DiskSuperBlock_as_bytes (DiskSuperBlock_from Z sb)) zero_block =
      Ret (superblock_image Z sb)" for sb
    by (simp add: sizeof_DiskSuperBlock_def superblock_image_def)
  then show ?thesis
    using data_start_le_cap [OF assms]
    by (simp add: format_def Let_def format_arith [unfolded layout_blocks] io_simps layout_of_def
        layout_blocks)
qed

lemma format_cases:
  assumes "dev_ok d" "3 \<le> unat (capacity D d)"
  obtains (ok) d' where
      "format Z D d = (Ret (Ok \<lparr> device = d', superblock = layout_of (capacity D d) \<rparr>), d')"
      "dev_ok d'" "capacity D d' = capacity D d"
      "blocks d' = (blocks d)(0 := superblock_image Z (layout_of (capacity D d)),
                              1 := zero_block, 2 := zero_block)"
  | (err) d' where "format Z D d = (Ret (Err BlockError), d')" "dev_ok d'"
      "capacity D d' = capacity D d" "io_fault D dev_ok (capacity D d) {0, 1, 2}"
proof -
  note run = format_run [OF assms(2)]
  show thesis
  proof (cases rule: dev_write_cases [OF assms(1), of "superblock_image Z (layout_of (capacity D d))" 0])
    case (2 d1)
    note w1 = 2
    show thesis
    proof (cases rule: dev_write_cases [OF w1(3) length_zero_block, of 1])
      case (1 d2)
      note w2 = 1
      show thesis
      proof (cases rule: dev_write_cases [OF w2(3) length_zero_block, of 2])
        case (1 d3)
        with run w1 w2 ok [of d3] show thesis by (simp add: io_bind_step)
      next
        case (2 d3)
        with run w1 w2 err [of d3] io_fault_mono [OF 2(5), of "{0, 1, 2}"] show thesis
          by (simp add: io_bind_step)
      qed
    next
      case (2 d2)
      with run w1 err [of d2] io_fault_mono [OF 2(5), of "{0, 1, 2}"] show thesis
        by (simp add: io_bind_step)
    qed
  next
    case (3 d1)
    with run err [of d1] io_fault_mono [OF 3(5), of "{0, 1, 2}"] show thesis
      by (simp add: io_bind_step)
  qed simp
qed

end

subsection \<open>\<open>init_root_directory\<close>\<close>

text \<open>The inode and the directory block of a new root directory.\<close>

definition root_inode :: "u64 \<Rightarrow> Inode" where
  "root_inode rb = (zero_inode Directory 2)\<lparr>direct_pointers := (replicate 10 0)[0 := rb]\<rparr>"

definition root_dir_block :: "zerocopy \<Rightarrow> u8 list" where
  "root_dir_block Z = put_dirent Z (put_dirent Z zero_block 0 0 dot_name) 1 0 dotdot_name"

definition mark_root :: "u8 list \<Rightarrow> u8 list" where
  "mark_root m = (if bitmap_bit m 0 then m else bitmap_mark m 0)"

definition root_blocks ::
    "zerocopy \<Rightarrow> SuperBlock \<Rightarrow> (u64 \<Rightarrow> u8 list) \<Rightarrow> nat \<Rightarrow> u64 \<Rightarrow> u8 list" where
  "root_blocks Z sb B i =
     (let rb = data_block_start sb + of_nat i; ib = inode_block sb 0;
          B2 = B(1 := mark_root (B 1), 2 := bitmap_mark (B 2) i)
      in B2(ib := overwrite 0 (DiskInode_as_bytes (DiskInode_from Z (root_inode rb))) (B2 ib),
            rb := root_dir_block Z))"

lemma wf_root_inode [simp]: "wf_inode (root_inode rb)"
  by (simp add: wf_inode_def root_inode_def)

lemma length_mark_root [simp]: "length (mark_root m) = length m"
  by (simp add: mark_root_def)

lemma mark_root_run:
  "length ibuf = 512 \<Longrightarrow>
     bind_out (bitmap_is_set ibuf 0) (\<lambda>s.
       if \<not> s then bind_out (bitmap_set ibuf 0) (\<lambda>(_, ibuf'). Ret ibuf') else Ret ibuf) =
     Ret (mark_root ibuf)"
  by (simp add: bitmap_is_set_iff bitmap_set_cases mark_root_def bitmap_mark_def)

context sfs_env
begin

lemma length_root_dir_block [simp]: "length (root_dir_block Z) = 512"
  by (simp add: root_dir_block_def dot_name_def dotdot_name_def)

lemma root_dir_block_run:
  "io_bind (io_res (write_dirent_into_block Z zero_block 0 0 dot_name)) (\<lambda>dir_block.
   io_bind (io_res (write_dirent_into_block Z dir_block (Suc 0) 0 dotdot_name)) f) = f (root_dir_block Z)"
  by (rule ext) (simp add: write_dirent_ok io_simps root_dir_block_def dot_name_def dotdot_name_def)

lemma init_root_tail_cases:
  assumes dev: "dev_ok (device fs)" and sb: "std_layout (superblock fs)"
  obtains (ok) fs' where
      "io_bind (write_inode Z D (root_inode rb) 0) (\<lambda>_.
         on_device (dev_write D rb (root_dir_block Z))) fs = (Ret (Ok ()), fs')"
      "dev_ok (device fs')" "superblock fs' = superblock fs"
      "capacity D (device fs') = capacity D (device fs)"
      "blocks (device fs') = (blocks (device fs))
         (inode_block (superblock fs) 0 := overwrite 0 (DiskInode_as_bytes (DiskInode_from Z (root_inode rb)))
            (blocks (device fs) (inode_block (superblock fs) 0)),
          rb := root_dir_block Z)"
  | (err) fs' where
      "io_bind (write_inode Z D (root_inode rb) 0) (\<lambda>_.
         on_device (dev_write D rb (root_dir_block Z))) fs = (Ret (Err BlockError), fs')"
      "dev_ok (device fs')" "superblock fs' = superblock fs"
      "capacity D (device fs') = capacity D (device fs)"
      "io_fault D dev_ok (capacity D (device fs)) {inode_block (superblock fs) 0, rb}"
proof (cases rule: write_inode_cases [OF dev sb wf_root_inode, of rb 0])
  case (1 fs1)
  note w1 = rewroteD [OF 1(2)]
  have off: "inode_offset 0 = 0" by (simp add: inode_offset_def)
  show thesis
  proof (cases rule: sfs_write_cases [OF w1(1) length_root_dir_block, of rb])
    case (1 fs2)
    note w2 = rewroteD [OF 1(3)]
    show thesis
      by (rule ok [of fs2])
        (use 1 \<open>write_inode Z D (root_inode rb) 0 fs = _\<close> w1 w2 off in \<open>simp_all add: io_bind_step\<close>)
  next
    case (2 fs2)
    show thesis
      by (rule err [of fs2])
        (use 2 \<open>write_inode Z D (root_inode rb) 0 fs = _\<close> w1
           io_fault_mono [OF 2(3), of "{inode_block (superblock fs) 0, rb}"]
          in \<open>simp_all add: io_bind_step smeared_def\<close>)
  qed
next
  case (2 fs1)
  show thesis
    by (rule err [of fs1])
      (use 2 io_fault_mono [OF 2(3), of "{inode_block (superblock fs) 0, rb}"]
        in \<open>simp_all add: io_bind_step smeared_def\<close>)
qed

lemma init_root_cases:
  fixes fs
  defines "B \<equiv> blocks (device fs)" and "sb \<equiv> superblock fs"
  assumes dev: "dev_ok (device fs)" and std: "std_layout sb"
  obtains (ok) i fs' where "init_root_directory Z D fs = (Ret (Ok ()), fs')"
      "first_free (B 2) = Some i" "dev_ok (device fs')" "superblock fs' = sb"
      "capacity D (device fs') = capacity D (device fs)"
      "blocks (device fs') = root_blocks Z sb B i"
  | (full) fs' where "init_root_directory Z D fs = (Ret (Err FileSystemError.NoSpace), fs')"
      "first_free (B 2) = None"
  | (err) fs' where "init_root_directory Z D fs = (Ret (Err BlockError), fs')"
      "io_fault D dev_ok (capacity D (device fs))
         ({1, 2, inode_block sb 0} \<union> {data_block_start sb + of_nat i |i. first_free (B 2) = Some i})"
proof (cases rule: sfs_read_cases [OF dev, of INODE_BITMAP_BLOCK])
  case (1 fs1)
  note r1 = unchangedD [OF 1(3)]
  have len: "length (mark_root (B 1)) = 512" using blocks_length [OF dev] by (simp add: B_def)
  let ?rest = "\<lambda>data_block.
      io_bind (write_inode Z D (root_inode data_block) 0) (\<lambda>_.
      on_device (dev_write D data_block (root_dir_block Z)))"
  have run: "init_root_directory Z D fs =
      io_bind (on_device (dev_write D 1 (mark_root (B 1)))) (\<lambda>_.
      io_bind (allocate_data_block D) ?rest) fs1"
    using 1 by (simp add: mark_root_run [OF blocks_length [OF dev]] init_root_directory_def io_bind_step io_simps layout_blocks B_def Let_def
        root_dir_block_run flip: root_inode_def)
  show thesis
  proof (cases rule: sfs_write_cases [OF r1(1) len, of 1])
    case (1 fs2)
    note w2 = rewroteD [OF 1(3)]
    have sb2: "std_layout (superblock fs2)" using std r1 w2 by (simp add: sb_def)
    have B2: "blocks (device fs2) 2 = B 2" using w2 r1 by (simp add: B_def)
    show thesis
    proof (cases rule: allocate_data_block_cases [OF w2(1) sb2])
      case (1 i fs3)
      note w3 = rewroteD [OF 1(3)]
      have sb3: "std_layout (superblock fs3)" using sb2 w3 by simp
      let ?rb = "data_block_start sb + of_nat i"
      show thesis
      proof (cases rule: init_root_tail_cases [OF w3(1) sb3, of ?rb])
        case (1 fs4)
        show thesis
          by (rule ok [of fs4 i])
            (use 1 run \<open>on_device (dev_write D 1 (mark_root (B 1))) fs1 = _\<close>
               \<open>allocate_data_block D fs2 = _\<close> \<open>first_free _ = Some i\<close> r1 w2 w3 B2 in
              \<open>simp_all add: io_bind_step sb_def B_def root_blocks_def Let_def\<close>)
      next
        case (2 fs4)
        show thesis
          by (rule err [of fs4])
            (use 2 run \<open>on_device (dev_write D 1 (mark_root (B 1))) fs1 = _\<close>
               \<open>allocate_data_block D fs2 = _\<close> \<open>first_free _ = Some i\<close> r1 w2 w3 B2 in
              \<open>auto simp: io_bind_step sb_def B_def intro: io_fault_mono\<close>)
      qed
    next
      case (2 fs3)
      then show thesis
        using full [of fs3] run \<open>on_device (dev_write D 1 (mark_root (B 1))) fs1 = _\<close> B2
        by (simp add: io_bind_step)
    next
      case (3 fs3)
      then show thesis
        using err [of fs3] run \<open>on_device (dev_write D 1 (mark_root (B 1))) fs1 = _\<close> r1 w2
        by (auto simp: io_bind_step intro: io_fault_mono)
    qed
  next
    case (2 fs2)
    then show thesis
      using err [of fs2] run r1 by (auto simp: io_bind_step intro: io_fault_mono)
  qed
next
  case (2 fs1)
  then show thesis
    using err [of fs1]
    by (auto simp: init_root_directory_def io_bind_step layout_blocks intro: io_fault_mono)
qed

end

end
