(* ===== verification/Simple_FS_Inv.thy ===== *)
theory Simple_FS_Inv
  imports Simple_FS_Format
begin

unbundle bit_operations_syntax

section \<open>The invariant of the file system and the operations that keep it\<close>

text \<open>
  \<open>init_root_directory\<close> establishes \<open>sfs_inv\<close> on a formatted disk, \<open>create_file\<close> keeps it as
  long as the inode table has room, and on a reliable device neither of them fails with an
  I/O error. All of it is about the blocks \<open>root_blocks\<close> and \<open>create_blocks\<close>, which the case
  rules name.
\<close>

context zerocopy_spec
begin

lemma dir_alist_zero [simp]: "dir_alist Z (dir_entries zero_block) = []"
  using entry_unused_zero by (auto simp: dir_alist_def dir_entries_def filter_empty_conv)

lemma dir_wf_zero [simp]: "dir_wf Z zero_block"
  using entry_unused_zero by (auto simp: dir_wf_def dir_entries_def)

lemma dir_map_zero [simp]: "dir_map Z zero_block = Map.empty"
  by (simp add: dir_map_def)

lemma dir_distinct_put:
  assumes "length block = 512" "slot < 8" "length name \<le> 52"
    and "\<not> entry_used Z (dirent_at block slot)" and "name \<notin> dom (dir_map Z block)"
    and "distinct (map fst (dir_alist Z (dir_entries block)))"
  shows "distinct (map fst (dir_alist Z (dir_entries (put_dirent Z block slot ino name))))"
proof -
  obtain xs ys where "dir_alist Z (dir_entries block) = xs @ ys"
    and "dir_alist Z ((dir_entries block)[slot := new_dirent Z ino name]) = xs @ (name, ino) # ys"
    using dir_alist_update [of slot "dir_entries block" Z "new_dirent Z ino name"] assms by auto
  with assms show ?thesis by (auto simp: dir_entries_put dom_dir_map)
qed

lemma free_slot_put:
  assumes "length block = 512" "free_slot Z block = Some slot" "length name \<le> 52"
  shows "card {j. j < 8 \<and> \<not> entry_used Z (dirent_at block j)} =
    Suc (card {j. j < 8 \<and> \<not> entry_used Z (dirent_at (put_dirent Z block slot ino name) j)})"
proof -
  note slot = free_slot_Some [OF assms(2)]
  let ?U = "{j. j < 8 \<and> \<not> entry_used Z (dirent_at block j)}"
  have "{j. j < 8 \<and> \<not> entry_used Z (dirent_at (put_dirent Z block slot ino name) j)} = ?U - {slot}"
    using assms slot by (auto simp: dirent_at_put split: if_splits)
  moreover have "slot \<in> ?U" "finite ?U" using slot by auto
  ultimately show ?thesis by (metis card_Suc_Diff1)
qed

lemma root_dir_facts:
  shows "length (put_dirent Z zero_block 0 0 dot_name) = 512"
    and "dir_map Z (root_dir_block Z) = [dot_name \<mapsto> 0, dotdot_name \<mapsto> 0]"
    and "dir_wf Z (root_dir_block Z)"
    and "distinct (map fst (dir_alist Z (dir_entries (root_dir_block Z))))"
    and "j < 8 \<Longrightarrow> entry_used Z (dirent_at (root_dir_block Z) j) \<longleftrightarrow> j < 2"
proof -
  let ?b = "put_dirent Z zero_block 0 0 dot_name"
  have names: "length dot_name \<le> 52" "length dotdot_name \<le> 52" "dot_name \<noteq> dotdot_name"
    by (simp_all add: dot_name_def dotdot_name_def)
  show len: "length ?b = 512" using names by simp
  have m: "dir_map Z ?b = [dot_name \<mapsto> 0]"
    using dir_map_put [of zero_block 0 dot_name 0] entry_unused_zero [of 0] names by simp
  have unused: "\<not> entry_used Z (dirent_at ?b 1)"
    using dirent_at_put [of zero_block 0 dot_name 1 0] entry_unused_zero [of 1] names by simp
  have wf: "dir_wf Z ?b" using dir_wf_put [of zero_block 0 dot_name 0] names by simp
  have dist: "distinct (map fst (dir_alist Z (dir_entries ?b)))"
    using dir_distinct_put [of zero_block 0 dot_name 0] entry_unused_zero [of 0] names by simp
  have fresh: "dotdot_name \<notin> dom (dir_map Z ?b)" using m names by auto
  show "dir_map Z (root_dir_block Z) = [dot_name \<mapsto> 0, dotdot_name \<mapsto> 0]"
    unfolding root_dir_block_def using dir_map_put [OF len _ names(2) unused fresh] m by simp
  show "dir_wf Z (root_dir_block Z)"
    unfolding root_dir_block_def using dir_wf_put [OF len _ names(2) wf] by simp
  show "distinct (map fst (dir_alist Z (dir_entries (root_dir_block Z))))"
    unfolding root_dir_block_def using dir_distinct_put [OF len _ names(2) unused fresh dist] by simp
  show "entry_used Z (dirent_at (root_dir_block Z) j) \<longleftrightarrow> j < 2" if "j < 8"
    using that names len entry_unused_zero [of j]
    by (auto simp: root_dir_block_def dirent_at_put)
qed

end

lemma first_free_zero: "first_free zero_block = Some 0"
proof -
  have "\<not> bitmap_bit zero_block 0"
    by (simp add: bitmap_bit_def zero_block_def layout_sizes)
  then show ?thesis by (simp add: first_free_Some_iff)
qed

lemma data_block_ge_start:
  assumes "std_layout sb" and "i < 4096"
  shows "data_block_start sb \<le> data_block_start sb + of_nat i"
    and "unat (data_block_start sb + of_nat i) = unat (data_block_start sb) + i"
proof -
  have i: "unat (of_nat i :: u64) = i" using assms(2) by (simp add: unat_of_nat)
  have "unat (data_block_start sb) + unat (of_nat i :: u64) < 2 ^ LENGTH(64)"
    using data_block_ck [OF assms] by (auto simp: add_ck_def split: if_splits)
  from unat_add_no_overflow [OF this] i
  show *: "unat (data_block_start sb + of_nat i) = unat (data_block_start sb) + i" by simp
  then show "data_block_start sb \<le> data_block_start sb + of_nat i"
    by (simp add: word_le_nat_alt)
qed

context sfs_env
begin

lemma root_blocks_inv:
  assumes sb: "valid_sb sb" and len: "\<forall>b. length (B b) = 512" and i: "i < 4096"
  defines "B' \<equiv> root_blocks Z sb B i" and "rb \<equiv> data_block_start sb + of_nat i"
  shows "sfs_inv Z sb B'" and "root_block Z sb B' = rb" and "B' rb = root_dir_block Z"
    and "disk_inode Z sb B' 0 = Ok (root_inode rb)"
    and "B' 1 = mark_root (B 1)" and "B' 2 = bitmap_mark (B 2) i"
proof -
  have std: "std_layout sb" using sb by (simp add: valid_sb_def)
  note rb = data_block_ge_start [OF std i, folded rb_def]
  note ib = inode_block_not_bitmap [OF std, of 0]
  have below: "inode_block sb 0 < data_block_start sb"
    by (rule inode_block_below_data [OF sb inode_zero_in_table [OF sb]])
  then have apart: "rb \<noteq> inode_block sb 0" using rb(1) by auto
  have low: "rb \<noteq> 1" "rb \<noteq> 2" using sb rb(2) by (auto simp: valid_sb_def)
  let ?B2 = "B(1 := mark_root (B 1), 2 := bitmap_mark (B 2) i)"
  have off: "inode_offset 0 = 0" by (simp add: inode_offset_def)
  have B': "B' = (?B2(inode_block sb 0 := overwrite (inode_offset 0)
        (DiskInode_as_bytes (DiskInode_from Z (root_inode rb))) (?B2 (inode_block sb 0))))
      (rb := root_dir_block Z)"
    by (simp add: B'_def root_blocks_def Let_def rb_def off)
  show dir: "B' rb = root_dir_block Z" by (simp add: B')
  show one: "B' 1 = mark_root (B 1)" and "B' 2 = bitmap_mark (B 2) i"
    using low ib by (simp_all add: B')
  have "disk_inode Z sb B' 0 = disk_inode Z sb (B'(rb := B rb)) 0"
    using apart by (intro disk_inode_cong) simp
  also have "\<dots> = Ok (root_inode rb)"
  proof -
    have "length (?B2 (inode_block sb 0)) = 512" using len ib by simp
    from disk_inode_overwrite [where B = ?B2 and i = 0, OF this wf_root_inode, of rb 0] show ?thesis
      using apart by (subst disk_inode_cong [where B' = "?B2(inode_block sb 0 := overwrite (inode_offset 0)
        (DiskInode_as_bytes (DiskInode_from Z (root_inode rb))) (?B2 (inode_block sb 0)))"])
        (simp_all add: B')
  qed
  finally show ino: "disk_inode Z sb B' 0 = Ok (root_inode rb)" .
  then show root: "root_block Z sb B' = rb" by (simp add: root_block_def root_inode_def zero_inode_def)
  have "bitmap_bit (mark_root (B 1)) 0"
    using len by (simp add: mark_root_def bitmap_bit_mark)
  then show "sfs_inv Z sb B'"
    using sb ino rb one root_dir_facts(2-4)
    by (auto simp: sfs_inv_def root dir is_directory_def root_inode_def zero_inode_def ran_def
        split: if_splits)
qed


lemma create_blocks_facts:
  assumes inv: "sfs_inv Z sb B" and len: "\<forall>b. length (B b) = 512"
    and i: "first_free (B 1) = Some i" "of_nat i < inode_count sb"
    and slot: "free_slot Z (B (root_block Z sb B)) = Some slot"
    and name: "name \<notin> dom (dir_map Z (B (root_block Z sb B)))" "length name \<le> 52"
  defines "rb \<equiv> root_block Z sb B"
  defines "B' \<equiv> create_blocks Z sb B rb i slot name"
  shows "B' 1 = bitmap_mark (B 1) i" and "B' rb = put_dirent Z (B rb) slot (of_nat i) name"
    and "j < inode_count sb \<Longrightarrow>
           disk_inode Z sb B' j = (if j = of_nat i then Ok (zero_inode File 1) else disk_inode Z sb B j)"
    and "b \<notin> {1, rb, inode_block sb (of_nat i)} \<Longrightarrow> B' b = B b"
    and "i < 4096" and "i \<noteq> 0"
proof -
  have sb: "valid_sb sb" and std: "std_layout sb" and ge: "data_block_start sb \<le> rb"
    using inv by (simp_all add: sfs_inv_def valid_sb_def rb_def)
  note rb = root_block_not_meta [OF sb ge [unfolded rb_def], folded rb_def]
  note ib = inode_block_not_bitmap [OF std]
  let ?ib = "inode_block sb (of_nat i)" and ?B1 = "B(1 := bitmap_mark (B 1) i)"
  let ?B2 = "?B1(?ib := overwrite (inode_offset (of_nat i))
      (DiskInode_as_bytes (DiskInode_from Z (zero_inode File 1))) (?B1 ?ib))"
  have B': "B' = ?B2(rb := put_dirent Z (B rb) slot (of_nat i) name)"
    by (simp add: B'_def create_blocks_def Let_def)
  show "B' 1 = bitmap_mark (B 1) i" using rb ib by (simp add: B')
  show "B' rb = put_dirent Z (B rb) slot (of_nat i) name" by (simp add: B')
  show "B' b = B b" if "b \<notin> {1, rb, ?ib}" using that by (simp add: B')
  show "i < 4096" using i(1) len by (simp add: first_free_Some_iff)
  show "i \<noteq> 0" using inv i(1) by (auto simp: sfs_inv_def first_free_Some_iff intro: Nat.gr0I)
  show "disk_inode Z sb B' j = (if j = of_nat i then Ok (zero_inode File 1) else disk_inode Z sb B j)"
    if j: "j < inode_count sb"
  proof -
    have "disk_inode Z sb B' j = disk_inode Z sb ?B2 j"
      using rb(4) [OF j] by (intro disk_inode_cong) (simp add: B')
    also have "\<dots> = (if j = of_nat i then Ok (zero_inode File 1) else disk_inode Z sb ?B1 j)"
      by (rule disk_inode_overwrite) (use len ib in simp_all)
    also have "disk_inode Z sb ?B1 j = disk_inode Z sb B j"
      using ib by (intro disk_inode_cong) simp
    finally show ?thesis .
  qed
qed

lemma create_blocks_inv:
  assumes inv: "sfs_inv Z sb B" and len: "\<forall>b. length (B b) = 512"
    and i: "first_free (B 1) = Some i" "of_nat i < inode_count sb"
    and slot: "free_slot Z (B (root_block Z sb B)) = Some slot"
    and name: "name \<notin> dom (dir_map Z (B (root_block Z sb B)))" "length name \<le> 52"
  defines "rb \<equiv> root_block Z sb B"
  defines "B' \<equiv> create_blocks Z sb B rb i slot name"
  shows "root_block Z sb B' = rb" and "sfs_inv Z sb B'"
    and "dir_map Z (B' rb) = (dir_map Z (B rb))(name \<mapsto> of_nat i)"
proof -
  note facts = create_blocks_facts [OF assms(1-7), folded rb_def, folded B'_def]
  have sb: "valid_sb sb" using inv by (simp add: sfs_inv_def)
  have i': "unat (of_nat i :: u64) = i" using facts(5) by (simp add: unat_of_nat)
  then have "(0::u64) \<noteq> of_nat i" using facts(6) by auto
  then have ino: "disk_inode Z sb B' 0 = disk_inode Z sb B 0"
    using facts(3) [OF inode_zero_in_table [OF sb]] by simp
  then show root: "root_block Z sb B' = rb" by (simp add: root_block_def rb_def)
  note slot' = free_slot_Some [OF slot, folded rb_def]
  have blk: "length (B rb) = 512" using len by simp
  note put = slot' [THEN conjunct1] name(2)
  show map: "dir_map Z (B' rb) = (dir_map Z (B rb))(name \<mapsto> of_nat i)"
    unfolding facts(2) using dir_map_put [OF blk put] slot' name(1) by (simp add: rb_def)
  have bits: "bitmap_bit (B' 1) k \<longleftrightarrow> k = i \<or> bitmap_bit (B 1) k" for k
    using facts(1,5) len by (simp add: bitmap_bit_mark)
  have "distinct (map fst (dir_alist Z (dir_entries (B' rb))))"
    unfolding facts(2) using dir_distinct_put [OF blk put] slot' name(1) inv
    by (simp add: rb_def sfs_inv_def)
  moreover have "dir_wf Z (B' rb)"
    unfolding facts(2) using dir_wf_put [OF blk put] inv by (simp add: rb_def sfs_inv_def)
  moreover have "\<forall>x\<in>ran (dir_map Z (B' rb)). bitmap_bit (B' 1) (unat x)"
  proof -
    have "\<forall>x\<in>ran (dir_map Z (B rb)). bitmap_bit (B 1) (unat x)"
      using inv by (simp add: sfs_inv_def rb_def)
    then show ?thesis using i' by (auto simp: map bits ran_def)
  qed
  ultimately show "sfs_inv Z sb B'"
    using inv ino bits by (simp add: sfs_inv_def root) (simp add: rb_def)
qed

end

subsection \<open>Reliable devices\<close>

locale reliable_sfs_env = sfs_env + reliable_device
begin

lemma no_io_fault:
  assumes "\<And>b. b \<in> bs \<Longrightarrow> b < cap"
  shows "\<not> io_fault D dev_ok cap bs"
proof
  assume "io_fault D dev_ok cap bs"
  then obtain d b where "b \<in> bs" "dev_ok d" "capacity D d = cap"
    and fault: "(\<exists>e buf d'. read_blocks D d b zero_block = (Err e, buf, d')) \<or>
      (\<exists>buf e d'. length buf = 512 \<and> write_blocks D d b buf = (Err e, d'))"
    unfolding io_fault_def by blast
  then have "b < capacity D d" using assms by simp
  with fault read_total [OF \<open>dev_ok d\<close> length_zero_block] write_total [OF \<open>dev_ok d\<close>]
  show False by (metis Pair_inject result.distinct(1))
qed

end

interpretation sfs_disk: sfs_env le_zerocopy sector_device disk_ok sectors
  by unfold_locales

interpretation sfs_good_disk: reliable_sfs_env le_zerocopy sector_device good_disk_ok sectors
  by unfold_locales

end
