(* ===== verification/Simple_FS_Correct.thy ===== *)
theory Simple_FS_Correct
  imports Simple_FS_Inv
begin

unbundle bit_operations_syntax

section \<open>Correctness of the file system\<close>

text \<open>
  An abstract file system (a map from names to inode numbers, the set of inodes in use and the
  inode table) with one operation, the creation of a file, and the theorems that the methods
  of \<open>SFS\<close> implement it.
\<close>

subsection \<open>The abstract file system\<close>

record afs =
  afs_dir :: "u8 list \<Rightarrow> u64 option"
  afs_used :: "nat set"
  afs_inodes :: "u64 \<Rightarrow> (Inode, unit) result option"

definition afs_create :: "u8 list \<Rightarrow> afs \<Rightarrow> (FileHandler, FileError) result \<times> afs" where
  "afs_create name a =
     (if name = [] \<or> 52 < length name then (Err InvalidName, a)
      else if name \<in> dom (afs_dir a) then (Err Corrupt, a)
      else if 8 \<le> card (dom (afs_dir a)) then (Err FileError.NoSpace, a)
      else case find (\<lambda>i. i \<notin> afs_used a) [0..<4096] of
          None \<Rightarrow> (Err FileError.NoSpace, a)
        | Some i \<Rightarrow>
            (Ok (FileHandler (of_nat i)),
             a\<lparr> afs_dir := (afs_dir a)(name \<mapsto> of_nat i),
                afs_used := insert i (afs_used a),
                afs_inodes := (afs_inodes a)(of_nat i \<mapsto> Ok (zero_inode File 1)) \<rparr>))"

text \<open>What a file system on a device stands for.\<close>

definition afs_of :: "zerocopy \<Rightarrow> SuperBlock \<Rightarrow> (u64 \<Rightarrow> u8 list) \<Rightarrow> afs" where
  "afs_of Z sb B =
     \<lparr> afs_dir = dir_map Z (B (root_block Z sb B)),
       afs_used = {i. i < 4096 \<and> bitmap_bit (B 1) i},
       afs_inodes = (\<lambda>j. if j < inode_count sb then Some (disk_inode Z sb B j) else None) \<rparr>"

lemma free_slot_None_iff:
  assumes "distinct (map fst (dir_alist Z (dir_entries block)))"
  shows "free_slot Z block = None \<longleftrightarrow> 8 \<le> card (dom (dir_map Z block))"
proof -
  let ?es = "dir_entries block"
  have "card (dom (dir_map Z block)) = length (filter (entry_used Z) ?es)"
    using assms distinct_card [of "map fst (dir_alist Z ?es)"] by (simp add: dom_dir_map dir_alist_def image_image)
  moreover have "8 \<le> length (filter (entry_used Z) ?es) \<longleftrightarrow> (\<forall>e\<in>set ?es. entry_used Z e)"
    using length_filter_le [of "entry_used Z" ?es] length_filter_less [of _ ?es "entry_used Z"]
    by (metis filter_True length_dir_entries linorder_not_le)
  ultimately show ?thesis by (auto simp: free_slot_def find_None_iff dir_entries_def)
qed

lemma first_free_used:
  assumes "length m = 512"
  shows "first_free m = find (\<lambda>i. i \<notin> {i. i < 4096 \<and> bitmap_bit m i}) [0..<4096]"
  unfolding first_free_def using assms by (intro find_cong) auto

context sfs_env
begin

lemma afs_create_of:
  assumes inv: "sfs_inv Z sb B" and len: "\<forall>b. length (B b) = 512"
  shows "afs_create name (afs_of Z sb B) =
     (if name = [] \<or> 52 < length name then (Err InvalidName, afs_of Z sb B)
      else if name \<in> dom (dir_map Z (B (root_block Z sb B))) then (Err Corrupt, afs_of Z sb B)
      else case (free_slot Z (B (root_block Z sb B)), first_free (B 1)) of
          (Some slot, Some i) \<Rightarrow>
            (Ok (FileHandler (of_nat i)),
             (afs_of Z sb B)\<lparr> afs_dir := (dir_map Z (B (root_block Z sb B)))(name \<mapsto> of_nat i),
                afs_used := insert i {i. i < 4096 \<and> bitmap_bit (B 1) i},
                afs_inodes := (afs_inodes (afs_of Z sb B))(of_nat i \<mapsto> Ok (zero_inode File 1)) \<rparr>)
        | _ \<Rightarrow> (Err FileError.NoSpace, afs_of Z sb B))"
proof -
  have "free_slot Z (B (root_block Z sb B)) = None \<longleftrightarrow>
      8 \<le> card (dom (dir_map Z (B (root_block Z sb B))))"
    using inv by (intro free_slot_None_iff) (simp add: sfs_inv_def)
  then show ?thesis
    using len
    by (auto simp: afs_create_def afs_of_def first_free_used split: option.split)
qed

lemma afs_of_create_blocks:
  assumes inv: "sfs_inv Z sb B" and len: "\<forall>b. length (B b) = 512"
    and i: "first_free (B 1) = Some i" "of_nat i < inode_count sb"
    and slot: "free_slot Z (B (root_block Z sb B)) = Some slot"
    and name: "name \<notin> dom (dir_map Z (B (root_block Z sb B)))" "length name \<le> 52" "name \<noteq> []"
  shows "(Ok (FileHandler (of_nat i)), afs_of Z sb (create_blocks Z sb B (root_block Z sb B) i slot name)) =
    afs_create name (afs_of Z sb B)"
proof -
  note facts = create_blocks_facts [OF assms(1-7)] and keep = create_blocks_inv [OF assms(1-7)]
  have "afs_inodes (afs_of Z sb (create_blocks Z sb B (root_block Z sb B) i slot name)) =
      (afs_inodes (afs_of Z sb B))(of_nat i \<mapsto> Ok (zero_inode File 1))"
    using facts(3) i(2) by (auto simp: afs_of_def)
  moreover have "{j. j < 4096 \<and> bitmap_bit (create_blocks Z sb B (root_block Z sb B) i slot name 1) j} =
      insert i {j. j < 4096 \<and> bitmap_bit (B 1) j}"
    using facts(1,5) len by (auto simp: bitmap_bit_mark)
  ultimately show ?thesis
    using i slot name keep(1,3) by (simp add: afs_create_of [OF inv len]) (simp add: afs_of_def)
qed

lemma afs_of_root_blocks:
  assumes sb: "valid_sb sb" and len: "\<forall>b. length (B b) = 512" and zero: "B 1 = zero_block"
  shows "afs_dir (afs_of Z sb (root_blocks Z sb B 0)) = [dot_name \<mapsto> 0, dotdot_name \<mapsto> 0]"
    and "afs_used (afs_of Z sb (root_blocks Z sb B 0)) = {0}"
proof -
  have "(0::nat) < 4096" by simp
  note inv = root_blocks_inv [OF sb len this]
  show "afs_dir (afs_of Z sb (root_blocks Z sb B 0)) = [dot_name \<mapsto> 0, dotdot_name \<mapsto> 0]"
    using inv(2,3) root_dir_facts(2) by (simp add: afs_of_def)
  have "bitmap_bit zero_block j \<longleftrightarrow> False" if "j < 4096" for j
    using that by (simp add: bitmap_bit_def zero_block_def layout_sizes)
  then show "afs_used (afs_of Z sb (root_blocks Z sb B 0)) = {0}"
    using inv(5) zero by (auto simp: afs_of_def mark_root_def bitmap_bit_mark)
qed

lemma format_layout:
  assumes "dev_ok d" and "format Z D d = (Ret (Ok fs), d')"
  shows "3 \<le> unat (capacity D d)" and "superblock fs = layout_of (capacity D d)"
proof -
  show cap: "3 \<le> unat (capacity D d)"
    using format_too_small [of D d Z] assms(2) by (cases "unat (capacity D d) < 3") auto
  show "superblock fs = layout_of (capacity D d)"
    using assms by (cases rule: format_cases [OF assms(1) cap]) auto
qed

text \<open>The outcomes of \<open>create_file\<close>, from those of \<open>create_file_in_root\<close>.\<close>

lemma create_file_eq:
  "create_file_in_root Z D name fs = (Ret (Ok (i, rb)), fs') \<Longrightarrow>
     create_file Z D name fs = (Ret (Ok (FileHandler i)), fs')"
  "create_file_in_root Z D name fs = (Ret (Err e), fs') \<Longrightarrow>
     create_file Z D name fs = (Ret (Err (create_file_err e)), fs')"
  by (simp_all add: create_file_def io_map_err_def io_bind_step io_simps)

end

context reliable_sfs_env
begin

lemma create_no_fault:
  assumes inv: "sfs_inv Z sb B"
    and cap: "data_block_start sb \<le> cap" "root_block Z sb B < cap"
    and room: "\<forall>i. first_free (B 1) = Some i \<longrightarrow> of_nat i < inode_count sb"
  shows "\<not> io_fault D dev_ok cap (insert (inode_block sb 0) (create_targets sb B (root_block Z sb B)))"
proof (rule no_io_fault)
  have sb: "valid_sb sb" using inv by (simp add: sfs_inv_def)
  have "inode_block sb j < cap" if "j < inode_count sb" for j
    using inode_block_below_data [OF sb that] cap(1) by simp
  moreover have "1 < cap" using sb cap(1) by (auto simp: valid_sb_def word_le_nat_alt word_less_nat_alt)
  ultimately show "b < cap"
    if "b \<in> insert (inode_block sb 0) (create_targets sb B (root_block Z sb B))" for b
    using that cap(2) room inode_zero_in_table [OF sb] by (auto simp: create_targets_def)
qed

lemma create_refines:
  assumes dev: "dev_ok (device fs)"
    and inv: "sfs_inv Z (superblock fs) (blocks (device fs))"
    and cap: "data_block_start (superblock fs) \<le> capacity D (device fs)"
      "root_block Z (superblock fs) (blocks (device fs)) < capacity D (device fs)"
    and room: "\<forall>i. first_free (blocks (device fs) 1) = Some i \<longrightarrow> of_nat i < inode_count (superblock fs)"
  shows "\<exists>r fs'. create_file Z D name fs = (Ret r, fs') \<and>
     (r, afs_of Z (superblock fs') (blocks (device fs'))) =
       afs_create name (afs_of Z (superblock fs) (blocks (device fs))) \<and>
     sfs_inv Z (superblock fs') (blocks (device fs')) \<and> superblock fs' = superblock fs \<and>
     root_block Z (superblock fs') (blocks (device fs')) = root_block Z (superblock fs) (blocks (device fs)) \<and>
     dev_ok (device fs') \<and> capacity D (device fs') = capacity D (device fs)"
proof -
  have len: "\<forall>b. length (blocks (device fs) b) = 512" using dev by (simp add: blocks_length)
  note spec = afs_create_of [OF inv len]
  show ?thesis
  proof (cases rule: create_file_in_root_cases [OF dev inv, of name])
    case 1
    then show ?thesis using create_file_eq(2) [OF 1(1)] dev inv by (auto simp: spec create_file_err_def)
  next
    case (2 fs')
    then show ?thesis using create_file_eq(2) [OF 2(1)] unchangedD [OF 2(2)] inv
      by (auto simp: spec create_file_err_def)
  next
    case (3 fs')
    then show ?thesis using create_file_eq(2) [OF 3(1)] unchangedD [OF 3(2)] inv
      by (auto simp: spec create_file_err_def split: option.split)
  next
    case (4 fs')
    then show ?thesis using create_no_fault [OF inv cap room] by simp
  next
    case (5 i slot fs')
    have i: "of_nat i < inode_count (superblock fs)" using room 5(2) by simp
    show ?thesis
      using create_file_eq(1) [OF 5(1)] afs_of_create_blocks [OF inv len 5(2) i 5(3,4,6,5)]
        create_blocks_inv(1,2) [OF inv len 5(2) i 5(3,4,6)] 5(7-10)
      by auto
  qed
qed

lemma format_init_root_run:
  assumes dev: "dev_ok d"
    and cap: "10 \<le> unat (capacity D d)"
  shows "\<exists>fs d' fs'. format Z D d = (Ret (Ok fs), d') \<and> device fs = d' \<and>
     init_root_directory Z D fs = (Ret (Ok ()), fs') \<and> superblock fs' = superblock fs \<and>
     dev_ok (device fs') \<and> sfs_inv Z (superblock fs') (blocks (device fs')) \<and>
     afs_dir (afs_of Z (superblock fs') (blocks (device fs'))) = [dot_name \<mapsto> 0, dotdot_name \<mapsto> 0] \<and>
     afs_used (afs_of Z (superblock fs') (blocks (device fs'))) = {0} \<and>
     root_block Z (superblock fs') (blocks (device fs')) < capacity D (device fs') \<and>
     blocks (device fs') 0 = superblock_image Z (layout_of (capacity D d))"
proof -
  let ?cap = "capacity D d"
  have cap3: "3 \<le> unat ?cap" using cap by simp
  have low: "b < ?cap" if "b \<in> {0, 1, 2}" for b using that cap3 by (auto simp: word_less_nat_alt)
  have start: "unat (3 + ?cap div 10) < unat ?cap" "unat (3 + ?cap div 10) = 3 + unat ?cap div 10"
    using cap by (simp_all add: cap_div_bounds)
  show ?thesis
  proof (cases rule: format_cases [OF dev cap3])
    case (1 d')
    let ?fs = "\<lparr>device = d', superblock = layout_of ?cap\<rparr>"
    have sb: "valid_sb (superblock ?fs)" using layout_of_valid [OF cap] by simp
    then have std: "std_layout (superblock ?fs)" by (simp add: valid_sb_def)
    have B: "blocks (device ?fs) 1 = zero_block" "blocks (device ?fs) 2 = zero_block"
      using 1(4) by simp_all
    have len: "\<forall>b. length (blocks (device ?fs) b) = 512"
      using 1(2) by (simp add: blocks_length)
    have ib: "inode_block (superblock ?fs) 0 < ?cap"
      using inode_block_below_data [OF sb inode_zero_in_table [OF sb]] start
      by (simp add: layout_of_def word_less_nat_alt)
    have rb: "3 + ?cap div 10 < ?cap" using start by (simp add: word_less_nat_alt)
    have dev': "dev_ok (device ?fs)" using 1(2) by simp
    note formatted = 1
    show ?thesis
    proof (cases rule: init_root_cases [OF dev' std])
      case (1 i fs')
      then have i: "i = 0" using B first_free_zero by simp
      have "root_block Z (superblock ?fs) (root_blocks Z (superblock ?fs) (blocks (device ?fs)) 0) < ?cap"
        using root_blocks_inv(2) [OF sb len, of 0] rb by (simp add: layout_of_def)
      moreover have "0 \<noteq> inode_block (superblock ?fs) 0" "0 \<noteq> data_block_start (superblock ?fs)"
        using inode_block_not_bitmap(3) [OF std, of 0] start by (auto simp: layout_of_def)
      then have "root_blocks Z (superblock ?fs) (blocks (device ?fs)) 0 0 = superblock_image Z (layout_of ?cap)"
        using formatted(4) by (simp add: root_blocks_def Let_def)
      ultimately show ?thesis using 1 i
          formatted(1,3) root_blocks_inv(1) [OF sb len, of 0]
          afs_of_root_blocks [OF sb len B(1)]
        by simp
    next
      case (3 fs')
      have "\<not> io_fault D dev_ok ?cap {1, 2, inode_block (superblock ?fs) 0, 3 + ?cap div 10}"
        by (rule no_io_fault) (use low ib rb in auto)
      with 3(2) show ?thesis using B first_free_zero formatted(3) by (auto simp: layout_of_def)
    qed (use B first_free_zero in auto)
  next
    case (2 d')
    then show ?thesis using no_io_fault [OF low, of "{0, 1, 2}"] by simp
  qed
qed

end

subsection \<open>A formatted disk\<close>

text \<open>The disk of zeros after \<open>format\<close> and \<open>init_root_directory\<close>.\<close>

definition formatted_fs :: "u64 \<Rightarrow> sector_disk SFS" where
  "formatted_fs n =
     \<lparr> device = (blank_disk n)\<lparr> sectors := root_blocks le_zerocopy (layout_of n)
          ((\<lambda>_. zero_block)(0 := superblock_image le_zerocopy (layout_of n))) 0 \<rparr>,
       superblock = layout_of n \<rparr>"

lemma formatted_fs_facts:
  assumes "10 \<le> unat n"
  defines "fs \<equiv> formatted_fs n"
  defines "B \<equiv> sectors (device fs)"
  shows "good_disk_ok (device fs)" "disk_ok (device fs)" "sector_count (device fs) = n"
    "superblock fs = layout_of n" "sfs_inv le_zerocopy (layout_of n) B"
    "root_block le_zerocopy (layout_of n) B = 3 + n div 10"
    "B (3 + n div 10) = root_dir_block le_zerocopy" "B 1 = bitmap_mark zero_block 0"
    "disk_inode le_zerocopy (layout_of n) B 0 = Ok (root_inode (3 + n div 10))"
proof -
  define A :: "u64 \<Rightarrow> u8 list" where "A = (\<lambda>_. zero_block)(0 := superblock_image le_zerocopy (layout_of n))"
  have len: "\<forall>b. length (A b) = 512" by (simp add: A_def)
  have "0 < (4096::nat)" by simp
  note facts = sfs_disk.root_blocks_inv [OF layout_of_valid [OF assms(1)] len this]
  have B: "B = root_blocks le_zerocopy (layout_of n) A 0"
    by (simp add: B_def fs_def formatted_fs_def A_def)
  have start: "data_block_start (layout_of n) + of_nat 0 = 3 + n div 10"
    by (simp add: layout_of_def)
  show "sfs_inv le_zerocopy (layout_of n) B" unfolding B by (rule facts(1))
  show "disk_inode le_zerocopy (layout_of n) B 0 = Ok (root_inode (3 + n div 10))"
    unfolding B using facts(4) start by simp
  show "root_block le_zerocopy (layout_of n) B = 3 + n div 10" unfolding B using facts(2) start by simp
  show "B (3 + n div 10) = root_dir_block le_zerocopy" unfolding B using facts(3) start by simp
  have "\<not> bitmap_bit zero_block 0" using first_free_zero by (simp add: first_free_Some_iff)
  moreover have "A 1 = zero_block" by (simp add: A_def)
  ultimately show "B 1 = bitmap_mark zero_block 0"
    unfolding B using facts(5) by (simp add: mark_root_def)
  have "length (B b) = 512" for b
    unfolding B using len by (simp add: root_blocks_def Let_def)
  then show "good_disk_ok (device fs)" and "disk_ok (device fs)"
    by (simp_all add: B_def fs_def formatted_fs_def good_disk_ok_def disk_ok_def blank_disk_def)
qed (simp_all add: fs_def formatted_fs_def blank_disk_def)

lemma first_free_after_root: "first_free (bitmap_mark zero_block 0) = Some 1"
proof -
  have "bitmap_bit zero_block j \<longleftrightarrow> False" if "j < 4096" for j
    using that by (simp add: bitmap_bit_def zero_block_def layout_sizes)
  then show ?thesis by (auto simp: first_free_Some_iff bitmap_bit_mark)
qed

subsection \<open>\<open>create_file\<close>\<close>





subsection \<open>\<open>format\<close>, \<open>mount\<close> and \<open>init_root_directory\<close>\<close>

text \<open>
  C23: Formatting a disk of at least ten blocks and initialising its root directory succeeds on
  a reliable device, and establishes the invariant: the directory holds exactly \<open>.\<close> and
  \<open>..\<close>, both inode 0, which is the only inode in use.
\<close>

theorem format_init_root:
  assumes env: "reliable_sfs_env Z D dev_ok blocks" and dev: "dev_ok d"
    and cap: "10 \<le> unat (capacity D d)"
  shows "\<exists>fs d' fs'. format Z D d = (Ret (Ok fs), d') \<and> device fs = d' \<and>
     init_root_directory Z D fs = (Ret (Ok ()), fs') \<and> superblock fs' = superblock fs \<and>
     dev_ok (device fs') \<and> sfs_inv Z (superblock fs') (blocks (device fs')) \<and>
     afs_dir (afs_of Z (superblock fs') (blocks (device fs'))) = [dot_name \<mapsto> 0, dotdot_name \<mapsto> 0] \<and>
     afs_used (afs_of Z (superblock fs') (blocks (device fs'))) = {0} \<and>
     root_block Z (superblock fs') (blocks (device fs')) < capacity D (device fs')"
  using reliable_sfs_env.format_init_root_run [OF assms] by blast

theorem format_init_root_witness:
  "\<exists>fs d' fs'. format le_zerocopy sector_device (blank_disk 10) = (Ret (Ok fs), d') \<and>
     init_root_directory le_zerocopy sector_device fs = (Ret (Ok ()), fs') \<and>
     sfs_inv le_zerocopy (superblock fs') (sectors (device fs'))"
  using format_init_root [OF sfs_good_disk.reliable_sfs_env_axioms good_disk_ok_blank [of 10]]
  by auto

text \<open>
  \<open>format\<close> panics exactly on a disk of fewer than three blocks, where the size of the data
  region underflows.
\<close>

theorem format_panics_iff:
  assumes "sfs_env Z D dev_ok blocks" and "dev_ok d"
  shows "fst (format Z D d) = Panic \<longleftrightarrow> unat (capacity D d) < 3"
proof (cases "unat (capacity D d) < 3")
  case True
  then show ?thesis by (simp add: format_too_small)
next
  case False
  then have "3 \<le> unat (capacity D d)" by simp
  from sfs_env.format_cases [OF assms this] show ?thesis using False by (metis fst_conv outcome.distinct(1))
qed

theorem format_panics_iff_witness:
  "fst (format le_zerocopy sector_device (blank_disk 2)) = Panic \<and>
   fst (format le_zerocopy sector_device (blank_disk 3)) \<noteq> Panic"
  using format_panics_iff [OF sfs_good_disk.sfs_env_axioms good_disk_ok_blank [of 2]]
    format_panics_iff [OF sfs_good_disk.sfs_env_axioms good_disk_ok_blank [of 3]]
  by simp

text \<open>
  The regions of a formatted disk. The inode table lies after the bitmaps and before the
  data blocks, every inode of the table has a place of its own there, and the data blocks run
  to the end of the disk.
\<close>

theorem format_geometry:
  assumes env: "sfs_env Z D dev_ok blocks" and dev: "dev_ok d"
    and run: "format Z D d = (Ret (Ok fs), d')"
  shows "total_blocks (superblock fs) = capacity D d \<and>
    inode_table_start_block (superblock fs) = 3 \<and>
    unat (data_block_start (superblock fs)) + unat (data_block_count (superblock fs)) =
      unat (capacity D d) \<and>
    (i < inode_count (superblock fs) \<longrightarrow>
       inode_table_start_block (superblock fs) \<le> inode_block (superblock fs) i \<and>
       inode_block (superblock fs) i < data_block_start (superblock fs)) \<and>
    (inode_block (superblock fs) i = inode_block (superblock fs) j \<and>
       inode_offset i = inode_offset j \<longrightarrow> i = j)"
proof -
  note cap = sfs_env.format_layout(1) [OF env dev run]
    and sb = sfs_env.format_layout(2) [OF env dev run]
  let ?sb = "layout_of (capacity D d)"
  have i: "3 \<le> inode_block ?sb i \<and> inode_block ?sb i < data_block_start ?sb" if "i < inode_count ?sb"
  proof -
    have "10 \<le> unat (capacity D d)"
      using that by (cases "unat (capacity D d) < 10")
        (simp_all add: layout_of_def word_less_nat_alt cap_div_bounds)
    then have valid: "valid_sb ?sb" by (rule layout_of_valid)
    then show ?thesis
      using inode_block_below_data [OF valid that] unat_inode_block [of ?sb i]
      by (simp add: valid_sb_def word_le_nat_alt)
  qed
  have "unat (data_block_start ?sb) + unat (data_block_count ?sb) = unat (capacity D d)"
    using unat_sub [OF data_start_le_cap [OF cap]] cap
    by (simp add: layout_of_def cap_div_bounds)
  then show ?thesis
    using i inode_place_inj [of ?sb i j] by (simp add: sb) (simp add: layout_of_def)
qed

theorem format_geometry_witness:
  "\<exists>fs d'. format le_zerocopy sector_device (blank_disk 100) = (Ret (Ok fs), d') \<and>
     unat (data_block_start (superblock fs)) + unat (data_block_count (superblock fs)) = 100 \<and>
     inode_block (superblock fs) 39 < data_block_start (superblock fs)"
proof -
  have cap: "3 \<le> unat (capacity sector_device (blank_disk 100))" by simp
  show ?thesis
  proof (cases rule: sfs_good_disk.format_cases [OF good_disk_ok_blank cap])
    case (1 d')
    with format_geometry [OF sfs_good_disk.sfs_env_axioms good_disk_ok_blank 1(1), of 39]
    show ?thesis by (auto simp: layout_of_def)
  next
    case (2 d')
    have "\<not> io_fault sector_device good_disk_ok 100 {0, 1, 2}"
      by (rule sfs_good_disk.no_io_fault) auto
    with 2 show ?thesis by simp
  qed
qed

text \<open>
  A disk that \<open>format\<close> has formatted mounts, on a reliable device, with the same super
  block, and mounting leaves the blocks alone.
\<close>

theorem format_mount:
  assumes env: "reliable_sfs_env Z D dev_ok blocks" and dev: "dev_ok d"
    and cap: "3 \<le> unat (capacity D d)"
  shows "\<exists>fs d' fs' d''. format Z D d = (Ret (Ok fs), d') \<and> mount Z D d' = (Ret (Ok fs'), d'') \<and>
     superblock fs' = superblock fs \<and> device fs' = d'' \<and> blocks d'' = blocks d'"
proof -
  note sfs = reliable_sfs_env.axioms(1) [OF env]
  note zc = sfs_env.axioms(1) [OF sfs] and bd = sfs_env.axioms(2) [OF sfs]
  have low: "b < capacity D d" if "b \<in> {0, 1, 2}" for b using that cap by (auto simp: word_less_nat_alt)
  show ?thesis
  proof (cases rule: sfs_env.format_cases [OF sfs dev cap])
    case (1 d')
    have "0 < capacity D d'" using low 1(3) by simp
    from reliable_device.read_total [OF reliable_sfs_env.axioms(2) [OF env] 1(2) length_zero_block this]
    obtain buf d'' where read: "read_blocks D d' 0 zero_block = (Ok (), buf, d'')" by blast
    note facts = block_device_spec.read_ok [OF bd 1(2) length_zero_block read]
      block_device_spec.read_frame [OF bd 1(2) length_zero_block read]
    have "read_blocks D d' 0 zero_block = (Ok (), superblock_image Z (layout_of (capacity D d)), d'')"
      using read facts 1(4) by simp
    from zerocopy_spec.mount_image [OF zc this] 1(1) facts show ?thesis
      by (simp add: layout_of_def)
  next
    case (2 d')
    then show ?thesis using reliable_sfs_env.no_io_fault [OF env low, of "{0, 1, 2}"] by simp
  qed
qed

theorem format_mount_witness:
  "\<exists>fs d' fs' d''. format le_zerocopy sector_device (blank_disk 64) = (Ret (Ok fs), d') \<and>
     mount le_zerocopy sector_device d' = (Ret (Ok fs'), d'') \<and> superblock fs' = superblock fs"
  using format_mount [OF sfs_good_disk.reliable_sfs_env_axioms good_disk_ok_blank [of 64]] by auto

text \<open>
  \<open>mount\<close> drops the error of its read: when the request fails after the device has filled
  the buffer with a super block, the mount succeeds.
\<close>

theorem mount_ignores_read_error:
  assumes "zerocopy_spec Z" and "magic_number sb = MAGIC_NUMBER"
    and "read_blocks D d SUPERBLOCK_BLOCK zero_block = (Err e, superblock_image Z sb, d')"
  shows "mount Z D d = (Ret (Ok \<lparr> device = d', superblock = sb \<rparr>), d')"
  using zerocopy_spec.mount_image [of Z D d "Err e" sb d'] assms by (simp add: layout_blocks)

theorem mount_ignores_read_error_witness:
  "mount le_zerocopy
     \<lparr> read_blocks = (\<lambda>d b buf. (Err BlockError, superblock_image le_zerocopy (layout_of 64), d)),
       write_blocks = (\<lambda>d b buf. (Err BlockError, d)), capacity = (\<lambda>d. 64) \<rparr> () =
   (Ret (Ok \<lparr> device = (), superblock = layout_of 64 \<rparr>), ())"
  by (rule mount_ignores_read_error [OF le.zerocopy_spec_axioms]) (simp_all add: layout_of_def)

subsection \<open>Inodes and allocation\<close>

text \<open>
  C31: On a reliable device \<open>write_inode\<close> succeeds for every inode whose block is on the disk,
  \<open>read_inode\<close> then returns what was written, and every other inode and every other block is as
  before.
\<close>

theorem write_read_inode:
  assumes env: "reliable_sfs_env Z D dev_ok blocks" and dev: "dev_ok (device fs)"
    and std: "std_layout (superblock fs)" and wf: "wf_inode ino"
    and cap: "inode_block (superblock fs) i < capacity D (device fs)"
  shows "\<exists>fs' fs''. write_inode Z D ino i fs = (Ret (Ok ()), fs') \<and>
     read_inode Z D i fs' = (Ret (Ok ino), fs'') \<and> blocks (device fs'') = blocks (device fs') \<and>
     (j \<noteq> i \<longrightarrow> disk_inode Z (superblock fs') (blocks (device fs')) j =
                 disk_inode Z (superblock fs) (blocks (device fs)) j) \<and>
     (b \<noteq> inode_block (superblock fs) i \<longrightarrow> blocks (device fs') b = blocks (device fs) b)"
proof -
  note sfs = reliable_sfs_env.axioms(1) [OF env]
  note bd = sfs_env.axioms(2) [OF sfs]
  note no_fault = reliable_sfs_env.no_io_fault [OF env,
      of "{inode_block (superblock fs) i}" "capacity D (device fs)"]
  show ?thesis
  proof (cases rule: sfs_env.write_inode_cases [OF sfs dev std wf, of i])
    case (1 fs')
    note w = block_device_spec.rewroteD [OF bd 1(2)]
    let ?B = "blocks (device fs)"
    have "length (?B (inode_block (superblock fs) i)) = 512"
      by (rule block_device_spec.blocks_length [OF bd dev])
    from sfs_env.disk_inode_overwrite [where B = ?B, OF sfs this wf]
    have inodes: "disk_inode Z (superblock fs') (blocks (device fs')) k =
        (if k = i then Ok ino else disk_inode Z (superblock fs) ?B k)" for k
      by (simp add: w)
    have std': "std_layout (superblock fs')" using std w by simp
    show ?thesis
    proof (cases rule: block_device_spec.read_inode_cases [OF bd w(1) std', of Z i])
      case (1 ino' fs'')
      have "blocks (device fs'') = blocks (device fs')"
        using block_device_spec.unchangedD [OF bd 1(3)] by simp
      then show ?thesis using 1 \<open>write_inode Z D ino i fs = _\<close> inodes w by auto
    next
      case (2 fs'')
      then show ?thesis using no_fault cap inodes w by auto
    qed
  next
    case (2 fs')
    then show ?thesis using no_fault cap by simp
  qed
qed

theorem write_read_inode_witness:
  "\<exists>fs' fs''. write_inode le_zerocopy sector_device (zero_inode Directory 7) 5 (formatted_fs 64) =
       (Ret (Ok ()), fs') \<and>
     read_inode le_zerocopy sector_device 5 fs' = (Ret (Ok (zero_inode Directory 7)), fs'') \<and>
     disk_inode le_zerocopy (superblock fs') (sectors (device fs')) 0 = Ok (root_inode 9)"
proof -
  note f = formatted_fs_facts [of 64, simplified]
  have std: "std_layout (superblock (formatted_fs 64))"
    and cap: "inode_block (superblock (formatted_fs 64)) 5 < capacity sector_device (device (formatted_fs 64))"
    using f by (simp_all add: sfs_inv_def valid_sb_def inode_block_def layout_of_def layout_sizes)
  have "disk_inode le_zerocopy (superblock (formatted_fs 64)) (sectors (device (formatted_fs 64))) 0 = Ok (root_inode 9)"
    using f by simp
  then show ?thesis
    using write_read_inode [OF sfs_good_disk.reliable_sfs_env_axioms f(1) std wf_zero_inode cap, of Directory 7 0 1] by auto
qed

text \<open>
  C32: \<open>allocate_inode\<close> takes the first inode that is free in the inode bitmap, marks it and
  nothing else, and fails with \<open>NoSpace\<close> only when all 4096 bits are set; no inode is handed
  out twice.
\<close>

theorem allocate_inode_spec:
  assumes env: "block_device_spec D dev_ok blocks" and dev: "dev_ok (device fs)"
    and std: "std_layout (superblock fs)"
  shows "\<exists>r fs'. allocate_inode D fs = (Ret r, fs') \<and> superblock fs' = superblock fs \<and>
    (b \<noteq> INODE_BITMAP_BLOCK \<longrightarrow> blocks (device fs') b = blocks (device fs) b) \<and>
    (case r of
       Ok i \<Rightarrow> unat i < 4096 \<and> \<not> bitmap_bit (blocks (device fs) 1) (unat i) \<and>
         (\<forall>j < unat i. bitmap_bit (blocks (device fs) 1) j) \<and>
         (\<forall>j. bitmap_bit (blocks (device fs') 1) j \<longleftrightarrow> j = unat i \<or> bitmap_bit (blocks (device fs) 1) j)
     | Err e \<Rightarrow> e = BlockError \<or>
         e = FileSystemError.NoSpace \<and> blocks (device fs') = blocks (device fs) \<and>
         (\<forall>j<4096. bitmap_bit (blocks (device fs) 1) j))"
proof -
  have len: "length (blocks (device fs) 1) = 512"
    by (rule block_device_spec.blocks_length [OF env dev])
  have sb: "inode_bitmap_block (superblock fs) = INODE_BITMAP_BLOCK" using std by (simp add: std_layout_def)
  show ?thesis
  proof (cases rule: block_device_spec.allocate_inode_cases [OF env dev sb])
    case (1 i fs')
    then have "i < 4096" using len by (simp add: first_free_Some_iff)
    then have "unat (of_nat i :: u64) = i" by (simp add: unat_of_nat)
    then show ?thesis
      using 1 block_device_spec.rewroteD [OF env 1(3)] len
      by (simp add: first_free_Some_iff bitmap_bit_mark layout_blocks)
  next
    case (2 fs')
    then show ?thesis
      using block_device_spec.unchangedD [OF env 2(3)] len by (simp add: first_free_None_iff)
  next
    case (3 fs')
    then show ?thesis by (simp add: smeared_def layout_blocks)
  qed
qed

theorem allocate_inode_spec_witness:
  "\<exists>r fs'. allocate_inode sector_device (formatted_fs 64) = (Ret r, fs') \<and>
     sectors (device fs') 2 = sectors (device (formatted_fs 64)) 2"
  using allocate_inode_spec [OF good_disk.block_device_spec_axioms formatted_fs_facts(1), of 64 2]
    formatted_fs_facts(4,5) [of 64]
  by (auto simp: sfs_inv_def valid_sb_def layout_blocks)

text \<open>
  \<open>allocate_data_block\<close> is the same on the data bitmap; the block it returns is in the data
  region, and the number does not overflow.
\<close>

theorem allocate_data_block_spec:
  assumes env: "block_device_spec D dev_ok blocks" and dev: "dev_ok (device fs)"
    and std: "std_layout (superblock fs)"
  shows "\<exists>r fs'. allocate_data_block D fs = (Ret r, fs') \<and> superblock fs' = superblock fs \<and>
    (b \<noteq> DATA_BITMAP_BLOCK \<longrightarrow> blocks (device fs') b = blocks (device fs) b) \<and>
    (case r of
       Ok abs_block \<Rightarrow> (\<exists>i. unat abs_block = unat (data_block_start (superblock fs)) + i \<and> i < 4096 \<and>
         \<not> bitmap_bit (blocks (device fs) 2) i \<and>
         (\<forall>j. bitmap_bit (blocks (device fs') 2) j \<longleftrightarrow> j = i \<or> bitmap_bit (blocks (device fs) 2) j))
     | Err e \<Rightarrow> e = BlockError \<or>
         e = FileSystemError.NoSpace \<and> blocks (device fs') = blocks (device fs) \<and>
         (\<forall>j<4096. bitmap_bit (blocks (device fs) 2) j))"
proof -
  have len: "length (blocks (device fs) 2) = 512"
    by (rule block_device_spec.blocks_length [OF env dev])
  show ?thesis
  proof (cases rule: block_device_spec.allocate_data_block_cases [OF env dev std])
    case (1 i fs')
    then have i: "i < 4096" using len by (simp add: first_free_Some_iff)
    show ?thesis
      using 1 block_device_spec.rewroteD [OF env 1(3)] len i data_block_ge_start(2) [OF std i]
      by (auto simp: first_free_Some_iff bitmap_bit_mark layout_blocks)
  next
    case (2 fs')
    then show ?thesis
      using block_device_spec.unchangedD [OF env 2(3)] len by (simp add: first_free_None_iff)
  next
    case (3 fs')
    then show ?thesis by (simp add: smeared_def layout_blocks)
  qed
qed

theorem allocate_data_block_spec_witness:
  "\<exists>r fs'. allocate_data_block sector_device (formatted_fs 64) = (Ret r, fs') \<and>
     sectors (device fs') 1 = sectors (device (formatted_fs 64)) 1"
  using allocate_data_block_spec [OF good_disk.block_device_spec_axioms formatted_fs_facts(1), of 64 1]
    formatted_fs_facts(4,5) [of 64]
  by (auto simp: sfs_inv_def valid_sb_def layout_blocks)

end
