(* ===== verification/Simple_FS_Session.thy ===== *)
theory Simple_FS_Session
  imports Simple_FS_Correct
begin

unbundle bit_operations_syntax

section \<open>Sequences of creations, and the limits of the file system\<close>

text \<open>
  A client that formats a disk and creates files one after the other: the results of the whole
  session are those of the abstract file system. Then what the code does at its limits: a full
  inode table, a disk that is too small for an inode table, a name that exists, an entry added
  by \<open>add_root_dir_entry\<close>, a corrupt directory.
\<close>

subsection \<open>A session\<close>

fun create_all ::
    "zerocopy \<Rightarrow> 'd block_device \<Rightarrow> u8 list list \<Rightarrow> 'd SFS
       \<Rightarrow> (FileHandler, FileError) result list outcome \<times> 'd SFS" where
  "create_all Z D [] fs = (Ret [], fs)"
| "create_all Z D (name # names) fs =
     (case create_file Z D name fs of
        (Panic, fs') \<Rightarrow> (Panic, fs')
      | (Ret r, fs') \<Rightarrow>
          (case create_all Z D names fs' of
             (Panic, fs'') \<Rightarrow> (Panic, fs'')
           | (Ret rs, fs'') \<Rightarrow> (Ret (r # rs), fs'')))"

fun afs_create_all ::
    "u8 list list \<Rightarrow> afs \<Rightarrow> (FileHandler, FileError) result list \<times> afs" where
  "afs_create_all [] a = ([], a)"
| "afs_create_all (name # names) a =
     (case afs_create name a of (r, a') \<Rightarrow>
      case afs_create_all names a' of (rs, a'') \<Rightarrow> (r # rs, a''))"

text \<open>
  Since the directory starts with \<open>.\<close> and \<open>..\<close> for inode 0 and every file takes the next inode,
  the inodes in use are an initial segment, one shorter than the directory.
\<close>

definition dense :: "afs \<Rightarrow> bool" where
  "dense a \<longleftrightarrow> finite (dom (afs_dir a)) \<and> 2 \<le> card (dom (afs_dir a)) \<and>
     card (dom (afs_dir a)) \<le> 8 \<and> afs_used a = {..<card (dom (afs_dir a)) - 1}"

lemma unat_of_nat_64: "k < 2 ^ 64 \<Longrightarrow> unat (of_nat k :: u64) = k"
  by (simp add: unat_of_nat)

lemma find_first_above:
  assumes "k < n"
  shows "find (\<lambda>i. i \<notin> {..<k}) [0..<n] = Some (k::nat)"
  unfolding find_Some_iff by (rule exI [of _ k]) (use assms in simp)

lemma dense_free:
  assumes "dense a"
  shows "find (\<lambda>i. i \<notin> afs_used a) [0..<4096] = Some (card (dom (afs_dir a)) - 1)"
proof -
  have "card (dom (afs_dir a)) - 1 < 4096" using assms unfolding dense_def by linarith
  from find_first_above [OF this] assms show ?thesis by (simp add: dense_def)
qed

lemma dense_create:
  assumes "dense a"
  shows "dense (snd (afs_create name a))"
proof -
  define c where "c = card (dom (afs_dir a))"
  have facts: "finite (dom (afs_dir a))" "2 \<le> c" "c \<le> 8" "afs_used a = {..<c - 1}"
    using assms by (simp_all add: dense_def c_def)
  have "insert (c - 1) {..<c - 1} = {..<c}" using facts(2) by auto
  then have "dense (a\<lparr>afs_dir := (afs_dir a)(name \<mapsto> v), afs_used := insert (c - 1) (afs_used a),
      afs_inodes := w\<rparr>)" if "name \<notin> dom (afs_dir a)" "c < 8" for v w
    using facts that by (simp add: dense_def flip: c_def)
  with assms dense_free [OF assms] show ?thesis
    by (simp add: afs_create_def flip: c_def)
qed

text \<open>The handles of the successful calls.\<close>

fun handles :: "(FileHandler, FileError) result list \<Rightarrow> FileHandler list" where
  "handles [] = []"
| "handles (Ok h # rs) = h # handles rs"
| "handles (Err e # rs) = handles rs"

lemma afs_create_cases:
  assumes "dense a"
  obtains (ok) a' where "afs_create name a = (Ok (FileHandler (of_nat (card (dom (afs_dir a)) - 1))), a')"
      "card (dom (afs_dir a')) = Suc (card (dom (afs_dir a)))" "card (dom (afs_dir a)) < 8"
  | (err) e where "afs_create name a = (Err e, a)"
proof (cases "name = [] \<or> 52 < length name \<or> name \<in> dom (afs_dir a) \<or> 8 \<le> card (dom (afs_dir a))")
  case True
  then have "\<exists>e. afs_create name a = (Err e, a)" 
    by (elim disjE) (simp_all add: afs_create_def)
  then show thesis using err by blast
next
  case False
  moreover have "finite (dom (afs_dir a))" using assms by (simp add: dense_def)
  ultimately show thesis
    using dense_free [OF assms] ok by (simp add: afs_create_def)
qed

lemma afs_create_all_handles:
  assumes "dense a" and "afs_create_all names a = (rs, a')"
  shows "\<exists>n. handles rs = map (\<lambda>i. FileHandler (of_nat i)) [card (dom (afs_dir a)) - 1..<card (dom (afs_dir a)) - 1 + n] \<and>
           card (dom (afs_dir a)) + n \<le> 8"
  using assms
proof (induction names arbitrary: a rs)
  case Nil
  then show ?case by (intro exI [of _ 0]) (simp add: dense_def)
next
  case (Cons name names)
  obtain r a1 where one: "afs_create name a = (r, a1)" by fastforce
  obtain rs1 where rs: "afs_create_all names a1 = (rs1, a')" "rs = r # rs1"
    using Cons.prems(2) one by (auto split: prod.splits)
  have d: "dense a1" using dense_create [OF Cons.prems(1), of name] one by simp
  obtain n where n: "handles rs1 = map (\<lambda>i. FileHandler (of_nat i))
      [card (dom (afs_dir a1)) - 1..<card (dom (afs_dir a1)) - 1 + n]" "card (dom (afs_dir a1)) + n \<le> 8"
    using Cons.IH [OF d rs(1)] by blast
  have c: "2 \<le> card (dom (afs_dir a))" using Cons.prems(1) by (simp add: dense_def)
  show ?case
  proof (cases rule: afs_create_cases [OF Cons.prems(1), of name])
    case (1 a2)
    then have "r = Ok (FileHandler (of_nat (card (dom (afs_dir a)) - 1)))" "a1 = a2" using one by simp_all
    with 1 n rs c show ?thesis
      by (intro exI [of _ "Suc n"]) (simp add: upt_conv_Cons del: upt_Suc)
  next
    case (2 e)
    with one n rs show ?thesis by auto
  qed
qed

text \<open>A mounted file system on which files can be created.\<close>

definition session_ok ::
    "zerocopy \<Rightarrow> 'd block_device \<Rightarrow> ('d \<Rightarrow> bool) \<Rightarrow> ('d \<Rightarrow> u64 \<Rightarrow> u8 list) \<Rightarrow> 'd SFS \<Rightarrow> bool" where
  "session_ok Z D dev_ok blocks fs \<longleftrightarrow>
     dev_ok (device fs) \<and> sfs_inv Z (superblock fs) (blocks (device fs)) \<and>
     data_block_start (superblock fs) \<le> capacity D (device fs) \<and>
     root_block Z (superblock fs) (blocks (device fs)) < capacity D (device fs) \<and>
     8 \<le> unat (inode_count (superblock fs)) \<and> dense (afs_of Z (superblock fs) (blocks (device fs)))"

context reliable_sfs_env
begin

lemma create_keeps_superblock:
  assumes dev: "dev_ok (device fs)" and inv: "sfs_inv Z (superblock fs) (blocks (device fs))"
    and run: "create_file Z D name fs = (Ret r, fs')"
  shows "blocks (device fs') 0 = blocks (device fs) 0"
proof -
  let ?rb = "root_block Z (superblock fs) (blocks (device fs))"
  have sb: "valid_sb (superblock fs)" "data_block_start (superblock fs) \<le> ?rb" using inv by (simp_all add: sfs_inv_def)
  then have apart: "inode_block (superblock fs) i \<noteq> 0" "?rb \<noteq> 0" for i
    using inode_block_not_bitmap(3) by (auto simp: valid_sb_def)
  show ?thesis
  proof (cases rule: create_file_in_root_cases [OF dev inv, of name])
    case 1
    then show ?thesis using run create_file_eq(2) [OF 1(1)] by simp
  next
    case (2 fs1)
    then show ?thesis using run create_file_eq(2) [OF 2(1)] unchangedD [OF 2(2)] by simp
  next
    case (3 fs1)
    then show ?thesis using run create_file_eq(2) [OF 3(1)] unchangedD [OF 3(2)] by simp
  next
    case (4 fs1)
    then show ?thesis using run create_file_eq(2) [OF 4(1)] apart by (auto simp: create_targets_def)
  next
    case (5 i slot fs1)
    have "0 \<noteq> inode_block (superblock fs) (of_nat i)" "0 \<noteq> ?rb" using apart by metis+
    then show ?thesis using run create_file_eq(1) [OF 5(1)] 5(10) by (simp add: create_blocks_def Let_def)
  qed
qed

lemma create_session:
  assumes ok: "session_ok Z D dev_ok blocks fs"
  shows "\<exists>r fs'. create_file Z D name fs = (Ret r, fs') \<and> session_ok Z D dev_ok blocks fs' \<and>
    (r, afs_of Z (superblock fs') (blocks (device fs'))) = afs_create name (afs_of Z (superblock fs) (blocks (device fs))) \<and>
    superblock fs' = superblock fs \<and> blocks (device fs') 0 = blocks (device fs) 0"
proof -
  let ?a = "afs_of Z (superblock fs) (blocks (device fs))"
  have fs: "dev_ok (device fs)" "sfs_inv Z (superblock fs) (blocks (device fs))"
    "data_block_start (superblock fs) \<le> capacity D (device fs)"
    "root_block Z (superblock fs) (blocks (device fs)) < capacity D (device fs)"
    "8 \<le> unat (inode_count (superblock fs))" "dense ?a" using ok by (simp_all add: session_ok_def)
  have len: "length (blocks (device fs) 1) = 512" using fs(1) by (simp add: blocks_length)
  have "first_free (blocks (device fs) 1) = Some (card (dom (afs_dir ?a)) - 1)"
    using dense_free [OF fs(6)] first_free_used [OF len] by (simp add: afs_of_def)
  moreover have "card (dom (afs_dir ?a)) - 1 < 8" using fs(6) unfolding dense_def by linarith
  then have "unat (of_nat (card (dom (afs_dir ?a)) - 1) :: u64) < 8"
    by (subst unat_of_nat_64) simp_all
  ultimately have "\<forall>i. first_free (blocks (device fs) 1) = Some i \<longrightarrow> of_nat i < inode_count (superblock fs)"
    using fs(5) by (simp add: word_less_nat_alt)
  from create_refines [OF fs(1-4) this, of name]
  obtain r fs' where one: "create_file Z D name fs = (Ret r, fs')"
      "(r, afs_of Z (superblock fs') (blocks (device fs'))) = afs_create name ?a"
      "sfs_inv Z (superblock fs') (blocks (device fs'))" "superblock fs' = superblock fs"
      "root_block Z (superblock fs') (blocks (device fs')) = root_block Z (superblock fs) (blocks (device fs))"
      "dev_ok (device fs')" "capacity D (device fs') = capacity D (device fs)"
    by blast
  have "dense (afs_of Z (superblock fs') (blocks (device fs')))"
    using dense_create [OF fs(6), of name] one(2) by (metis snd_conv)
  then have "session_ok Z D dev_ok blocks fs'" using one fs by (simp add: session_ok_def)
  with one create_keeps_superblock [OF fs(1,2) one(1)] show ?thesis by blast
qed

lemma create_all_session:
  assumes "session_ok Z D dev_ok blocks fs"
  shows "\<exists>rs fs'. create_all Z D names fs = (Ret rs, fs') \<and> session_ok Z D dev_ok blocks fs' \<and>
     (rs, afs_of Z (superblock fs') (blocks (device fs'))) =
       afs_create_all names (afs_of Z (superblock fs) (blocks (device fs))) \<and>
     superblock fs' = superblock fs \<and> blocks (device fs') 0 = blocks (device fs) 0"
  using assms
proof (induction names arbitrary: fs)
  case (Cons name names)
  obtain r fs1 where one: "create_file Z D name fs = (Ret r, fs1)" "session_ok Z D dev_ok blocks fs1"
    "(r, afs_of Z (superblock fs1) (blocks (device fs1))) = afs_create name (afs_of Z (superblock fs) (blocks (device fs)))"
    "superblock fs1 = superblock fs" "blocks (device fs1) 0 = blocks (device fs) 0"
    using create_session [OF Cons.prems] by blast
  obtain rs fs2 where rest: "create_all Z D names fs1 = (Ret rs, fs2)" "session_ok Z D dev_ok blocks fs2"
    "(rs, afs_of Z (superblock fs2) (blocks (device fs2))) =
       afs_create_all names (afs_of Z (superblock fs1) (blocks (device fs1)))"
    "superblock fs2 = superblock fs1" "blocks (device fs2) 0 = blocks (device fs1) 0"
    using Cons.IH [OF one(2)] by blast
  have "(r # rs, afs_of Z (superblock fs2) (blocks (device fs2))) =
      afs_create_all (name # names) (afs_of Z (superblock fs) (blocks (device fs)))"
    unfolding afs_create_all.simps one(3) [symmetric] prod.case rest(3) [symmetric] ..
  then show ?case using one rest by (intro exI [of _ "r # rs"] exI [of _ fs2]) simp
qed simp

end

lemma dense_fresh:
  assumes "afs_dir a = [dot_name \<mapsto> 0, dotdot_name \<mapsto> 0]" and "afs_used a = {0}"
  shows "dense a"
  using assms by (auto simp: dense_def dot_name_def dotdot_name_def)

context reliable_sfs_env
begin

lemma fresh_session:
  assumes dev: "dev_ok d"
    and cap: "20 \<le> unat (capacity D d)"
  obtains fs d' fs' where "format Z D d = (Ret (Ok fs), d')" "init_root_directory Z D fs = (Ret (Ok ()), fs')"
    "session_ok Z D dev_ok blocks fs'"
    "afs_dir (afs_of Z (superblock fs') (blocks (device fs'))) = [dot_name \<mapsto> 0, dotdot_name \<mapsto> 0]"
    "afs_used (afs_of Z (superblock fs') (blocks (device fs'))) = {0}"
    "superblock fs' = layout_of (capacity D d)" "blocks (device fs') 0 = superblock_image Z (superblock fs')"
proof -
  from format_init_root_run [OF dev] cap
  obtain fs d' fs' where run: "format Z D d = (Ret (Ok fs), d')" "device fs = d'"
     "init_root_directory Z D fs = (Ret (Ok ()), fs')" "superblock fs' = superblock fs"
     "dev_ok (device fs')" "sfs_inv Z (superblock fs') (blocks (device fs'))"
     "afs_dir (afs_of Z (superblock fs') (blocks (device fs'))) = [dot_name \<mapsto> 0, dotdot_name \<mapsto> 0]"
     "afs_used (afs_of Z (superblock fs') (blocks (device fs'))) = {0}"
     "root_block Z (superblock fs') (blocks (device fs')) < capacity D (device fs')"
     "blocks (device fs') 0 = superblock_image Z (layout_of (capacity D d))"
    by auto
  have sb: "superblock fs' = layout_of (capacity D d)"
    using format_layout(2) [OF dev run(1)] run(4) by simp
  have count: "8 \<le> unat (inode_count (superblock fs'))"
    using cap by (simp add: sb layout_of_def cap_div_bounds)
  have "data_block_start (superblock fs') \<le> root_block Z (superblock fs') (blocks (device fs'))"
    using run(6) by (simp add: sfs_inv_def)
  then have "data_block_start (superblock fs') \<le> capacity D (device fs')" using run(9) by simp
  then have "session_ok Z D dev_ok blocks fs'"
    using run count dense_fresh [OF run(7,8)] by (simp add: session_ok_def)
  from that [OF run(1,3) this run(7,8) sb] run(10) show thesis by (simp add: sb)
qed

lemma session:
  assumes dev: "dev_ok d"
    and cap: "20 \<le> unat (capacity D d)"
  shows "\<exists>fs d' fs' rs fs''. format Z D d = (Ret (Ok fs), d') \<and>
     init_root_directory Z D fs = (Ret (Ok ()), fs') \<and>
     create_all Z D names fs' = (Ret rs, fs'') \<and>
     afs_dir (afs_of Z (superblock fs') (blocks (device fs'))) = [dot_name \<mapsto> 0, dotdot_name \<mapsto> 0] \<and>
     afs_used (afs_of Z (superblock fs') (blocks (device fs'))) = {0} \<and>
     (rs, afs_of Z (superblock fs'') (blocks (device fs''))) =
       afs_create_all names (afs_of Z (superblock fs') (blocks (device fs'))) \<and>
     sfs_inv Z (superblock fs'') (blocks (device fs''))"
proof -
  obtain fs d' fs' where run: "format Z D d = (Ret (Ok fs), d')" "init_root_directory Z D fs = (Ret (Ok ()), fs')"
    "session_ok Z D dev_ok blocks fs'"
    "afs_dir (afs_of Z (superblock fs') (blocks (device fs'))) = [dot_name \<mapsto> 0, dotdot_name \<mapsto> 0]"
    "afs_used (afs_of Z (superblock fs') (blocks (device fs'))) = {0}"
    by (rule fresh_session [OF assms])
  from create_all_session [OF run(3), of names] run show ?thesis by (auto simp: session_ok_def)
qed

end

text \<open>
  C1: A whole session. On a reliable disk of at least twenty blocks, format, root directory and
  any sequence of \<open>create_file\<close> calls all return, and the results and the final state are those
  of the abstract file system that starts with \<open>.\<close> and \<open>..\<close> alone.
\<close>

theorem session_refines:
  assumes env: "reliable_sfs_env Z D dev_ok blocks" and dev: "dev_ok d"
    and cap: "20 \<le> unat (capacity D d)"
  shows "\<exists>fs d' fs' rs fs''. format Z D d = (Ret (Ok fs), d') \<and>
     init_root_directory Z D fs = (Ret (Ok ()), fs') \<and>
     create_all Z D names fs' = (Ret rs, fs'') \<and>
     afs_dir (afs_of Z (superblock fs') (blocks (device fs'))) = [dot_name \<mapsto> 0, dotdot_name \<mapsto> 0] \<and>
     afs_used (afs_of Z (superblock fs') (blocks (device fs'))) = {0} \<and>
     (rs, afs_of Z (superblock fs'') (blocks (device fs''))) =
       afs_create_all names (afs_of Z (superblock fs') (blocks (device fs'))) \<and>
     sfs_inv Z (superblock fs'') (blocks (device fs''))"
  by (rule reliable_sfs_env.session [OF assms])

theorem session_refines_witness:
  "\<exists>fs d' fs' rs fs''. format le_zerocopy sector_device (blank_disk 64) = (Ret (Ok fs), d') \<and>
     init_root_directory le_zerocopy sector_device fs = (Ret (Ok ()), fs') \<and>
     create_all le_zerocopy sector_device [[0x61], [0x62], [0x61]] fs' = (Ret rs, fs'') \<and>
     sfs_inv le_zerocopy (superblock fs'') (sectors (device fs''))"
  using session_refines [OF sfs_good_disk.reliable_sfs_env_axioms good_disk_ok_blank [of 64],
      of "[[0x61], [0x62], [0x61]]"]
  by auto

text \<open>
  In such a session the successful calls return the handles 1, 2, 3 and so on in order, no
  inode twice, and at most six calls succeed: the one block of the root directory holds eight
  entries.
\<close>

theorem session_handles:
  assumes env: "reliable_sfs_env Z D dev_ok blocks" and dev: "dev_ok d"
    and cap: "20 \<le> unat (capacity D d)"
    and run: "format Z D d = (Ret (Ok fs), d')" "init_root_directory Z D fs = (Ret (Ok ()), fs')"
      "create_all Z D names fs' = (Ret rs, fs'')"
  shows "\<exists>n\<le>6. handles rs = map (\<lambda>i. FileHandler (of_nat i)) [1..<n + 1]"
proof -
  from reliable_sfs_env.session [OF env dev cap, of names] run
  have a: "afs_dir (afs_of Z (superblock fs') (blocks (device fs'))) = [dot_name \<mapsto> 0, dotdot_name \<mapsto> 0]"
    "afs_used (afs_of Z (superblock fs') (blocks (device fs'))) = {0}"
    "afs_create_all names (afs_of Z (superblock fs') (blocks (device fs'))) =
       (rs, afs_of Z (superblock fs'') (blocks (device fs'')))"
    by auto
  have "card (dom (afs_dir (afs_of Z (superblock fs') (blocks (device fs'))))) = 2"
    unfolding a by (simp add: dot_name_def dotdot_name_def)
  with afs_create_all_handles [OF dense_fresh [OF a(1,2)] a(3)] show ?thesis by auto
qed

theorem session_handles_witness:
  "\<exists>rs fs'' fs. (\<exists>n\<le>6. handles rs = map (\<lambda>i. FileHandler (of_nat i)) [1..<n + 1]) \<and>
     create_all le_zerocopy sector_device [[0x61], [0x62]] fs = (Ret rs, fs'')"
proof -
  have cap: "20 \<le> unat (capacity sector_device (blank_disk 64))" by simp
  from sfs_good_disk.session [OF good_disk_ok_blank cap, of "[[0x61], [0x62]]"]
  obtain fs d' fs' rs fs'' where run: "format le_zerocopy sector_device (blank_disk 64) = (Ret (Ok fs), d')"
    "init_root_directory le_zerocopy sector_device fs = (Ret (Ok ()), fs')"
    "create_all le_zerocopy sector_device [[0x61], [0x62]] fs' = (Ret rs, fs'')"
    by blast
  from session_handles [OF sfs_good_disk.reliable_sfs_env_axioms good_disk_ok_blank cap run] run(3)
  show ?thesis by blast
qed

subsection \<open>Creating a file twice\<close>

lemma bitmap_bit_zero: "j < 4096 \<Longrightarrow> \<not> bitmap_bit zero_block j"
  by (simp add: bitmap_bit_def zero_block_def layout_sizes)

lemma formatted_create:
  assumes n: "10 \<le> unat n"
    and name: "name \<notin> {dot_name, dotdot_name}" "name \<noteq> []" "length name \<le> 52"
  shows "\<exists>fs'. create_file le_zerocopy sector_device name (formatted_fs n) = (Ret (Ok (FileHandler 1)), fs')"
proof -
  note f = formatted_fs_facts [OF n]
  have slot: "free_slot le_zerocopy (root_dir_block le_zerocopy) = Some 2"
    using le.root_dir_facts(5) by (simp add: free_slot_def upt_rec)
  have dom: "dom (dir_map le_zerocopy (root_dir_block le_zerocopy)) = {dot_name, dotdot_name}"
    by (auto simp: le.root_dir_facts(2))
  have len: "\<forall>b. length (sectors (device (formatted_fs n)) b) = 512"
    using f(2) by (simp add: disk_ok_def)
  have "unat (3 + n div 10) < unat n" "unat (1::u64) < unat (inode_count (layout_of n))"
    using n div_le_mono [OF n, of 10] by (simp_all add: cap_div_bounds layout_of_def)
  then have room: "3 + n div 10 < n" "1 < inode_count (layout_of n)"
    by (simp_all add: word_less_nat_alt)
  have cap: "data_block_start (superblock (formatted_fs n)) \<le> capacity sector_device (device (formatted_fs n))"
    "root_block le_zerocopy (superblock (formatted_fs n)) (sectors (device (formatted_fs n)))
       < capacity sector_device (device (formatted_fs n))"
    using f room by (simp_all add: layout_of_def)
  have inv: "sfs_inv le_zerocopy (superblock (formatted_fs n)) (sectors (device (formatted_fs n)))"
    using f by simp
  have "afs_create name (afs_of le_zerocopy (superblock (formatted_fs n)) (sectors (device (formatted_fs n)))) =
      (Ok (FileHandler 1), a) \<Longrightarrow> ?thesis" for a
    using sfs_good_disk.create_refines [OF f(1) inv cap, of name] f(8) room f(4)
    by (auto simp: first_free_after_root)
  then show ?thesis
    using sfs_disk.afs_create_of [OF inv len, of name] slot name dom f(4,6,7,8)
    by (simp add: first_free_after_root)
qed



subsection \<open>The inode table is not checked\<close>

lemma sfs_inv_bitmap:
  assumes "sfs_inv Z sb B" and "\<And>j. bitmap_bit (B 1) j \<Longrightarrow> bitmap_bit m j"
  shows "sfs_inv Z sb (B(1 := m))" and "root_block Z sb (B(1 := m)) = root_block Z sb B"
proof -
  have sb: "valid_sb sb" and ge: "data_block_start sb \<le> root_block Z sb B"
    using assms(1) by (simp_all add: sfs_inv_def)
  then have std: "std_layout sb" by (simp add: valid_sb_def)
  have ino: "disk_inode Z sb (B(1 := m)) 0 = disk_inode Z sb B 0"
    using inode_block_not_bitmap [OF std] by (intro disk_inode_cong) simp
  then show root: "root_block Z sb (B(1 := m)) = root_block Z sb B" by (simp add: root_block_def)
  then show "sfs_inv Z sb (B(1 := m))"
    using assms ino root_block_not_meta [OF sb ge] by (auto simp: sfs_inv_def)
qed



subsection \<open>\<open>add_root_dir_entry\<close>\<close>

definition slot_is_free :: "zerocopy \<Rightarrow> u8 list \<Rightarrow> nat \<Rightarrow> bool" where
  "slot_is_free Z block j \<longleftrightarrow>
     \<not> entry_used Z (dirent_at block j) \<or> entry_inode Z (dirent_at block j) = 0"

lemma find_free_dir_slot_eq:
  assumes "length block = 512"
  shows "find_free_dir_slot Z block = Ret (find (slot_is_free Z block) [0..<8])"
proof -
  have "find_free_dir_slot_loop Z block is = Ret (find (slot_is_free Z block) is)"
    if "\<forall>i\<in>set is. i < 8" for "is"
    using that assms
  proof (induction "is")
    case (Cons i "is")
    then have "slice_ck (i * 64) (i * 64 + 64) block = Ret (field (i * 64) 64 block)" by simp
    with Cons show ?case
      by (simp add: DiskDirEntry_ref_from_field layout_sizes Let_def slot_is_free_def
          entry_used_def entry_inode_def)
  qed simp
  then show ?thesis by (simp add: find_free_dir_slot_def layout_sizes del: upt_Suc)
qed

context sfs_env
begin

lemma root_dir_alist_put:
  assumes "length name \<le> 52"
  shows "dir_map Z (put_dirent Z (root_dir_block Z) 0 ino name) = [dotdot_name \<mapsto> 0, name \<mapsto> ino]"
proof -
  let ?b = "put_dirent Z (root_dir_block Z) 0 ino name"
  have len: "length (root_dir_block Z) = 512" by simp
  have at: "dirent_at ?b i = (if i = 0 then new_dirent Z ino name else dirent_at (root_dir_block Z) i)"
    if "i < 8" for i using dirent_at_put [OF len _ assms that] by simp
  have one: "dirent_at (root_dir_block Z) 1 = new_dirent Z 0 dotdot_name"
    using dirent_at_put [OF root_dir_facts(1), of 1 dotdot_name 1 0]
    by (simp add: root_dir_block_def dotdot_name_def)
  have "filter (entry_used Z) (map (dirent_at ?b) [2..<8]) = []"
    using at root_dir_facts(5) by (auto simp: filter_empty_conv)
  moreover have "dir_entries ?b = [new_dirent Z ino name, new_dirent Z 0 dotdot_name] @ map (dirent_at ?b) [2..<8]"
    using at [of 0] at [of 1] one by (simp add: dir_entries_def upt_rec [of 0] upt_rec [of "Suc 0"] numeral_2_eq_2)
  ultimately have "dir_alist Z (dir_entries ?b) = [(name, ino), (dotdot_name, 0)]"
    using assms by (simp add: dir_alist_def dotdot_name_def)
  then show ?thesis by (simp add: dir_map_def)
qed

lemma add_root_cases:
  fixes fs
  defines "B \<equiv> blocks (device fs)" and "sb \<equiv> superblock fs"
  defines "rb \<equiv> root_block Z sb B"
  assumes dev: "dev_ok (device fs)" and inv: "sfs_inv Z sb B" and name: "length name \<le> 52"
  obtains (ok) slot fs' where "add_root_dir_entry Z D ino name fs = (Ret (Ok ()), fs')"
      "find (slot_is_free Z (B rb)) [0..<8] = Some slot" "superblock fs' = sb"
      "blocks (device fs') = B(rb := put_dirent Z (B rb) slot ino name)"
  | (full) fs' where "add_root_dir_entry Z D ino name fs = (Ret (Err FileSystemError.NoSpace), fs')"
      "find (slot_is_free Z (B rb)) [0..<8] = None"
  | (err) fs' where "add_root_dir_entry Z D ino name fs = (Ret (Err BlockError), fs')"
      "io_fault D dev_ok (capacity D (device fs)) {inode_block sb 0, rb}"
proof (cases rule: read_root_cases [OF dev inv [unfolded B_def sb_def]])
  case (1 root fs1)
  note fs1 = unchangedD [OF 1(2)] and root = 1
  have rb: "direct_pointers root ! 0 = rb" "rb \<noteq> 0" using 1 by (simp_all add: rb_def sb_def B_def)
  have len: "length (B rb) = 512" unfolding B_def by (rule blocks_length [OF dev])
  show thesis
  proof (cases rule: sfs_read_cases [OF fs1(1), of rb])
    case (1 fs2)
    note fs2 = unchangedD [OF 1(3)]
    have run: "add_root_dir_entry Z D ino name fs =
        io_bind (io_ok_or (find (slot_is_free Z (B rb)) [0..<8]) FileSystemError.NoSpace) (\<lambda>slot.
        io_bind (io_res (write_dirent_into_block Z (B rb) slot ino name)) (\<lambda>dir_block.
        on_device (dev_write D rb dir_block))) fs2"
      using root(1) 1 fs1 name rb
      by (simp add: add_root_dir_entry_def layout_sizes io_bind_step Let_def io_simps B_def
          find_free_dir_slot_eq [OF len, unfolded B_def] del: upt_Suc)
    show thesis
    proof (cases "find (slot_is_free Z (B rb)) [0..<8]")
      case None
      then show thesis using full [of fs2] run by (simp add: io_simps)
    next
      case (Some slot)
      then have slot: "slot < 8" by (auto simp: find_Some_iff)
      have lput: "length (put_dirent Z (B rb) slot ino name) = 512" using len name slot by simp
      have run': "add_root_dir_entry Z D ino name fs =
          on_device (dev_write D rb (put_dirent Z (B rb) slot ino name)) fs2"
        using run Some write_dirent_ok [OF len slot name] by (simp add: io_simps)
      show thesis
      proof (cases rule: sfs_write_cases [OF fs2(1) lput, of rb])
        case (1 fs3)
        then show thesis using ok [of fs3 slot] run' Some rewroteD [OF 1(3)] fs1 fs2
          by (simp add: B_def sb_def)
      next
        case (2 fs3)
        then show thesis
          using err [of fs3] run' fs1 fs2 by (auto intro: io_fault_mono)
      qed
    qed
  next
    case (2 fs2)
    then show thesis
      using err [of fs2] root(1) fs1 name rb
      by (auto simp: add_root_dir_entry_def layout_sizes io_bind_step Let_def intro: io_fault_mono)
  qed
next
  case (2 fs1)
  then show thesis
    using err [of fs1] name
    by (auto simp: add_root_dir_entry_def layout_sizes io_bind_step sb_def intro: io_fault_mono)
qed

end

text \<open>
  On a fresh root directory \<open>add_root_dir_entry\<close> does not add an entry but replaces \<open>.\<close>: it
  takes a used entry for inode 0 for a free slot.
\<close>

theorem add_root_dir_entry_replaces_dot:
  assumes env: "sfs_env Z D dev_ok blocks" and dev: "dev_ok (device fs)"
    and inv: "sfs_inv Z (superblock fs) (blocks (device fs))"
    and fresh: "blocks (device fs) (root_block Z (superblock fs) (blocks (device fs))) = root_dir_block Z"
    and name: "length name \<le> 52"
    and run: "add_root_dir_entry Z D ino name fs = (Ret (Ok ()), fs')"
  shows "afs_dir (afs_of Z (superblock fs) (blocks (device fs))) = [dot_name \<mapsto> 0, dotdot_name \<mapsto> 0] \<and>
     afs_dir (afs_of Z (superblock fs') (blocks (device fs'))) = [dotdot_name \<mapsto> 0, name \<mapsto> ino]"
proof -
  note zc = sfs_env.axioms(1) [OF env]
  let ?sb = "superblock fs" and ?B = "blocks (device fs)"
  have sb: "valid_sb ?sb" and ge: "data_block_start ?sb \<le> root_block Z ?sb ?B"
    using inv by (simp_all add: sfs_inv_def)
  obtain slot where slot: "find (slot_is_free Z (root_dir_block Z)) [0..<8] = Some slot"
    and fs': "superblock fs' = ?sb" "blocks (device fs') =
      ?B(root_block Z ?sb ?B := put_dirent Z (root_dir_block Z) slot ino name)"
    by (cases rule: sfs_env.add_root_cases [OF env dev inv name, of ino]) (use run fresh in auto)
  have "dirent_at (root_dir_block Z) 0 = new_dirent Z 0 dot_name"
    using zerocopy_spec.dirent_at_put [OF zc] zerocopy_spec.root_dir_facts(1) [OF zc]
    by (simp add: root_dir_block_def dot_name_def dotdot_name_def)
  then have "slot_is_free Z (root_dir_block Z) 0"
    using zerocopy_spec.new_dirent_view(4) [OF zc, of dot_name 0]
    by (simp add: slot_is_free_def dot_name_def)
  then have s0: "slot = 0" using slot by (simp add: upt_rec)
  have "inode_block ?sb 0 \<noteq> root_block Z ?sb ?B"
    using root_block_not_meta(4) [OF sb ge] inode_zero_in_table [OF sb] by simp
  then have "disk_inode Z ?sb (blocks (device fs')) 0 = disk_inode Z ?sb ?B 0"
    by (intro disk_inode_cong) (simp add: fs')
  then have "root_block Z ?sb (blocks (device fs')) = root_block Z ?sb ?B"
    by (simp add: root_block_def)
  then show ?thesis
    using sfs_env.root_dir_alist_put [OF env name] zerocopy_spec.root_dir_facts(2) [OF zc] fresh fs' s0
    by (simp add: afs_of_def)
qed

theorem add_root_dir_entry_replaces_dot_witness:
  "\<exists>fs'. add_root_dir_entry le_zerocopy sector_device 5 [0x61] (formatted_fs 64) = (Ret (Ok ()), fs') \<and>
     afs_dir (afs_of le_zerocopy (superblock fs') (sectors (device fs'))) =
       [dotdot_name \<mapsto> 0, [0x61] \<mapsto> 5]"
proof -
  note f = formatted_fs_facts [of 64, simplified]
  let ?fs = "formatted_fs 64"
  have inv: "sfs_inv le_zerocopy (superblock ?fs) (sectors (device ?fs))" using f by simp
  have fresh: "sectors (device ?fs) (root_block le_zerocopy (superblock ?fs) (sectors (device ?fs))) =
      root_dir_block le_zerocopy" using f by simp
  have "\<not> io_fault sector_device good_disk_ok 64 {3, 9}"
    by (rule sfs_good_disk.no_io_fault) auto
  moreover have "inode_block (layout_of 64) 0 = 3" by (simp add: inode_block_def layout_of_def)
  moreover have "slot_is_free le_zerocopy (root_dir_block le_zerocopy) 7"
    using le.root_dir_facts(5) [of 7] by (simp add: slot_is_free_def)
  ultimately obtain fs' where run: "add_root_dir_entry le_zerocopy sector_device 5 [0x61] ?fs = (Ret (Ok ()), fs')"
    by (cases rule: sfs_good_disk.add_root_cases [OF f(1) inv, of "[0x61]" 5])
      (use f fresh in \<open>auto simp: find_None_iff\<close>)
  show ?thesis
    using add_root_dir_entry_replaces_dot [OF sfs_good_disk.sfs_env_axioms f(1) inv fresh _ run] run
    by auto
qed

subsection \<open>Disks without an inode table\<close>

lemma root_dir_not_inode:
  assumes "B (inode_block sb 0) = root_dir_block le_zerocopy"
  shows "disk_inode le_zerocopy sb B 0 = Err ()"
proof -
  have dots: "length dot_name \<le> 52" "length dotdot_name \<le> 52"
    by (simp_all add: dot_name_def dotdot_name_def)
  note len = le.length_new_dirent_bytes [OF dots(2), of 0]
  have "field 120 2 (root_dir_block le_zerocopy) =
      field 56 2 (field 64 64 (root_dir_block le_zerocopy))"
    by (simp add: field_field)
  also have "field 64 64 (root_dir_block le_zerocopy) =
      DiskDirEntry_as_bytes (new_dirent le_zerocopy 0 dotdot_name)"
    using len le.root_dir_facts(1) by (simp add: root_dir_block_def put_dirent_def)
  also have "field 56 2 \<dots> = [8, 8]"
  proof -
    have "overwrite 0 dotdot_name (replicate 52 8) = dotdot_name @ replicate 50 8"
      and dd: "length dotdot_name = 2"
      by (simp_all add: overwrite_def dotdot_name_def)
    moreover have "replicate 2 (8::u8) = [8, 8]" by (simp add: numeral_2_eq_2)
    ultimately show ?thesis by (simp add: DiskDirEntry_as_bytes_def new_dirent_def)
  qed
  finally have "U16_get le_zerocopy (field 120 2 (root_dir_block le_zerocopy)) = 0x0808"
    by (simp add: le_zerocopy_def)
  moreover have "length (root_dir_block le_zerocopy) = 512" using sfs_disk.length_root_dir_block .
  moreover have "inode_offset 0 = 0" by (simp add: inode_offset_def)
  ultimately show ?thesis
    using assms
    by (simp add: disk_inode_def DiskInode_ref_from_bytes_def sizeof_DiskInode_def field_field
        Inode_try_from_def FileType_try_from_def)
qed

text \<open>
  On a disk of four to nine blocks \<open>format\<close> gives the inode table no block, so the root
  directory takes the place of the root inode: formatting and initialisation report success, and
  then no file can ever be created.
\<close>

theorem small_disk_unusable:
  assumes env: "reliable_sfs_env le_zerocopy D dev_ok blocks" and dev: "dev_ok d"
    and cap: "3 < unat (capacity D d)" "unat (capacity D d) < 10"
    and name: "name \<noteq> []" "length name \<le> 52"
  shows "\<exists>fs d' fs' fs''. format le_zerocopy D d = (Ret (Ok fs), d') \<and>
     inode_count (superblock fs) = 0 \<and>
     init_root_directory le_zerocopy D fs = (Ret (Ok ()), fs') \<and>
     create_file le_zerocopy D name fs' = (Ret (Err CreationFailed), fs'')"
proof -
  note sfs = reliable_sfs_env.axioms(1) [OF env]
  note bd = sfs_env.axioms(2) [OF sfs]
  let ?cap = "capacity D d"
  have cap3: "3 \<le> unat ?cap" using cap by simp
  have low: "b < ?cap" if "b \<in> {0, 1, 2, 3}" for b using that cap by (auto simp: word_less_nat_alt)
  have "unat (?cap div 10) = 0" using cap by (simp add: unat_div)
  then have zero: "?cap div 10 = 0" by (simp add: unat_eq_zero)
  have std: "std_layout (layout_of ?cap)" and ib: "inode_block (layout_of ?cap) 0 = 3"
    and start: "data_block_start (layout_of ?cap) = 3" "inode_count (layout_of ?cap) = 0"
    by (simp_all add: layout_of_def std_layout_def layout_blocks inode_block_def zero)
  show ?thesis
  proof (cases rule: sfs_env.format_cases [OF sfs dev cap3])
    case (1 d')
    let ?fs = "\<lparr>device = d', superblock = layout_of ?cap\<rparr>"
    note formatted = 1
    have dev': "dev_ok (device ?fs)" and std': "std_layout (superblock ?fs)" using 1 std by simp_all
    have B: "blocks (device ?fs) 2 = zero_block" using 1(4) by simp
    show ?thesis
    proof (cases rule: sfs_env.init_root_cases [OF sfs dev' std'])
      case (1 i fs')
      then have "blocks (device fs') (inode_block (superblock fs') 0) = root_dir_block le_zerocopy"
        using B first_free_zero ib start by (simp add: root_blocks_def Let_def)
      from root_dir_not_inode [where B = "blocks (device fs')", OF this]
      have "disk_inode le_zerocopy (superblock fs') (blocks (device fs')) 0 = Err ()" .
      moreover have "std_layout (superblock fs')" using 1(4) std by simp
      ultimately obtain fs'' where "read_inode le_zerocopy D 0 fs' = (Ret (Err BlockError), fs'')"
        by (cases rule: block_device_spec.read_inode_cases [OF bd 1(3), of le_zerocopy 0]) auto
      then have "create_file_in_root le_zerocopy D name fs' = (Ret (Err BlockError), fs'')"
        using name by (simp add: create_file_in_root_def layout_sizes ROOT_DIRECTORY_INODE_def io_bind_step)
      from sfs_env.create_file_eq(2) [OF sfs this] 1 formatted(1) start show ?thesis
        by (simp add: create_file_err_def)
    next
      case (3 fs')
      have "\<not> io_fault D dev_ok ?cap {1, 2, 3}"
        by (rule reliable_sfs_env.no_io_fault [OF env]) (use low in auto)
      with 3(2) show ?thesis using B first_free_zero formatted(3) ib start by auto
    qed (use B first_free_zero in auto)
  next
    case (2 d')
    have "\<not> io_fault D dev_ok ?cap {0, 1, 2}"
      by (rule reliable_sfs_env.no_io_fault [OF env]) (use low in auto)
    with 2 show ?thesis by simp
  qed
qed

theorem small_disk_unusable_witness:
  "\<exists>fs d' fs' fs''. format le_zerocopy sector_device (blank_disk 9) = (Ret (Ok fs), d') \<and>
     init_root_directory le_zerocopy sector_device fs = (Ret (Ok ()), fs') \<and>
     create_file le_zerocopy sector_device [0x61] fs' = (Ret (Err CreationFailed), fs'')"
  using small_disk_unusable [OF sfs_good_disk.reliable_sfs_env_axioms good_disk_ok_blank [of 9], of "[0x61]"]
  by auto

subsection \<open>A corrupt directory\<close>

text \<open>
  A used entry whose stored length exceeds the 52 bytes of the name field makes
  \<open>create_file\<close> panic, whatever the name.
\<close>

theorem create_file_long_entry_panics:
  assumes env: "reliable_sfs_env Z D dev_ok blocks" and dev: "dev_ok (device fs)"
    and std: "std_layout (superblock fs)"
    and root: "disk_inode Z (superblock fs) (blocks (device fs)) 0 = Ok root" "mode root = Directory"
      "direct_pointers root ! 0 \<noteq> 0"
    and cap: "inode_block (superblock fs) 0 < capacity D (device fs)"
      "direct_pointers root ! 0 < capacity D (device fs)"
    and bad: "entry_used Z (dirent_at (blocks (device fs) (direct_pointers root ! 0)) 0)"
      "52 < entry_len Z (dirent_at (blocks (device fs) (direct_pointers root ! 0)) 0)"
    and name: "name \<noteq> []" "length name \<le> 52"
  shows "fst (create_file Z D name fs) = Panic"
proof -
  note sfs = reliable_sfs_env.axioms(1) [OF env]
  note bd = sfs_env.axioms(2) [OF sfs]
  let ?rb = "direct_pointers root ! 0"
  have len: "length (blocks (device fs) ?rb) = 512" by (rule block_device_spec.blocks_length [OF bd dev])
  have scan: "create_scan Z name 0 None (DirEntryBlock_new (blocks (device fs) ?rb)) = Panic"
    using create_scan_new [OF len] bad by (simp add: dir_entries_def upt_rec)
  have fault: "\<not> io_fault D dev_ok (capacity D (device fs)) {inode_block (superblock fs) 0}"
    "\<not> io_fault D dev_ok (capacity D (device fs)) {?rb}"
    by (rule reliable_sfs_env.no_io_fault [OF env]; use cap in simp)+
  obtain fs1 where r1: "read_inode Z D 0 fs = (Ret (Ok root), fs1)"
    and fs1: "kept D dev_ok blocks fs fs1"
    by (cases rule: block_device_spec.read_inode_cases [OF bd dev std, of Z 0])
      (use root(1) fault(1) in auto)
  note k = block_device_spec.unchangedD [OF bd fs1]
  obtain fs2 where r2: "on_device (dev_read D ?rb) fs1 = (Ret (Ok (blocks (device fs) ?rb)), fs2)"
    by (cases rule: block_device_spec.sfs_read_cases [OF bd k(1), of ?rb]) (use k fault(2) in auto)
  have "create_file_in_root Z D name fs = (Panic, fs2)"
    using name root r1 r2 scan
    by (simp add: create_file_in_root_def layout_sizes ROOT_DIRECTORY_INODE_def io_bind_step Let_def io_simps)
  then show ?thesis by (simp add: create_file_def io_map_err_def io_bind_def)
qed

theorem create_file_long_entry_panics_witness:
  "fst (create_file le_zerocopy sector_device [0x61]
     (formatted_fs 64\<lparr>device := (device (formatted_fs 64))\<lparr>sectors := (sectors (device (formatted_fs 64)))
        (9 := replicate 8 0 @ [0xFF, 0xFF] @ [1, 0] @ replicate 500 0)\<rparr>\<rparr>)) = Panic"
proof -
  note f = formatted_fs_facts [of 64, simplified]
  define bad :: "u8 list" where "bad = replicate 8 0 @ [0xFF, 0xFF] @ [1, 0] @ replicate 500 0"
  define fs where "fs = formatted_fs 64\<lparr>device := (device (formatted_fs 64))
    \<lparr>sectors := (sectors (device (formatted_fs 64)))(9 := bad)\<rparr>\<rparr>"
  have fs: "sectors (device fs) = (sectors (device (formatted_fs 64)))(9 := bad)"
    "superblock fs = layout_of 64" "sector_count (device fs) = 64"
    using f by (simp_all add: fs_def)
  have good: "good_disk_ok (device fs)"
    using f(1) by (simp add: fs_def good_disk_ok_def disk_ok_def bad_def)
  have std: "std_layout (superblock fs)" using f(5) by (simp add: fs sfs_inv_def valid_sb_def)
  have ib: "inode_block (superblock fs) 0 = 3" by (simp add: fs inode_block_def layout_of_def)
  have "disk_inode le_zerocopy (superblock fs) (sectors (device fs)) 0 =
      disk_inode le_zerocopy (layout_of 64) (sectors (device (formatted_fs 64))) 0"
    unfolding fs(2) by (rule disk_inode_cong) (use ib in \<open>simp add: fs\<close>)
  then have root: "disk_inode le_zerocopy (superblock fs) (sectors (device fs)) 0 = Ok (root_inode 9)"
    using f(9) by simp
  have ptr: "direct_pointers (root_inode 9) ! 0 = 9" "mode (root_inode 9) = Directory"
    by (simp_all add: root_inode_def zero_inode_def)
  have "U16_get le_zerocopy [1, 0] = 1" "U16_get le_zerocopy [0xFF, 0xFF] = 0xFFFF"
    by (simp_all add: le_zerocopy_def)
  moreover have "field 8 2 bad = [0xFF, 0xFF]" "field 10 2 bad = [1, 0]"
    by (simp_all add: bad_def field_def)
  ultimately have "entry_used le_zerocopy (dirent_at bad 0)" "52 < entry_len le_zerocopy (dirent_at bad 0)"
    by (simp_all add: entry_used_def entry_len_def dirent_at_def DIRENT_USED_def)
  then have "fst (create_file le_zerocopy sector_device [0x61] fs) = Panic"
    by (intro create_file_long_entry_panics [OF sfs_good_disk.reliable_sfs_env_axioms good std root])
      (simp_all add: ptr ib fs(1,3))
  then show ?thesis by (simp add: fs_def bad_def)
qed

end
