(* ===== verification/Boot.thy ===== *)
theory Boot
  imports Simple_FS_Session
begin

section \<open>Storage at boot (\<open>src/src/main.rs\<close>)\<close>

text \<open>
  What \<open>kernel_main\<close> does with the disk: a read and write test on block 0, then mounting or
  formatting the file system, then creating a file twice; and the stack walk of the panic handler.
  The driver is the record \<open>virtio_blk\<close>; creating it anew for the format is the parameter
  \<open>reopen\<close>. Printing has no effect on the state modelled here.
\<close>

definition test_data :: "u8 list" where
  "test_data = map (\<lambda>c. of_char c) ''hello world! this is a test message from blog_os kernel!''"

definition hello_txt :: "u8 list" where
  "hello_txt = map (\<lambda>c. of_char c) ''hello.txt''"

definition write_buffer :: "u8 list outcome" where
  "write_buffer = copy_ck 0 (length test_data) test_data zero_block"

text \<open>The driver's own methods, with \<open>expect\<close>.\<close>

definition drv_read_expect :: "('d, 'e) virtio_blk \<Rightarrow> u64 \<Rightarrow> 'd \<Rightarrow> (u8 list \<times> 'd) outcome" where
  "drv_read_expect V b d =
     (case drv_read_blocks V d b zero_block of (Ok _, buf, d') \<Rightarrow> Ret (buf, d') | (Err _, _, _) \<Rightarrow> Panic)"

definition drv_write_expect :: "('d, 'e) virtio_blk \<Rightarrow> u64 \<Rightarrow> u8 list \<Rightarrow> 'd \<Rightarrow> 'd outcome" where
  "drv_write_expect V b buf d =
     (case drv_write_blocks V d b buf of (Ok _, d') \<Rightarrow> Ret d' | (Err _, _) \<Rightarrow> Panic)"

text \<open>The result is whether the block read back is the one written.\<close>

definition disk_test :: "('d, 'e) virtio_blk \<Rightarrow> 'd \<Rightarrow> (bool \<times> 'd) outcome" where
  "disk_test V d =
     bind_out (drv_read_expect V 0 d) (\<lambda>(_, d1).
     bind_out write_buffer (\<lambda>wbuf.
     bind_out (drv_write_expect V 0 wbuf d1) (\<lambda>d2.
     bind_out (drv_read_expect V 0 d2) (\<lambda>(rbuf, d3).
     Ret (field 0 (length test_data) rbuf = field 0 (length test_data) wbuf, d3)))))"

definition mount_or_format ::
    "zerocopy \<Rightarrow> ('d, 'e) virtio_blk \<Rightarrow> ('d \<Rightarrow> 'd outcome) \<Rightarrow> 'd \<Rightarrow> 'd SFS outcome" where
  "mount_or_format Z V reopen d =
     (let D = VirtIOBlk_device V in
      case mount Z D d of
        (Panic, _) \<Rightarrow> Panic
      | (Ret (Ok fs), _) \<Rightarrow> Ret fs
      | (Ret (Err _), d1) \<Rightarrow>
          bind_out (reopen d1) (\<lambda>d2.
          case format Z D d2 of
            (Ret (Ok fs), _) \<Rightarrow>
              (case init_root_directory Z D fs of
                 (Ret (Ok _), fs') \<Rightarrow> Ret fs'
               | _ \<Rightarrow> Panic)
          | _ \<Rightarrow> Panic))"

definition boot_storage ::
    "zerocopy \<Rightarrow> ('d, 'e) virtio_blk \<Rightarrow> ('d \<Rightarrow> 'd outcome) \<Rightarrow> 'd
       \<Rightarrow> (bool \<times> (FileHandler, FileError) result list \<times> 'd SFS) outcome" where
  "boot_storage Z V reopen d =
     bind_out (disk_test V d) (\<lambda>(passed, d1).
     bind_out (mount_or_format Z V reopen d1) (\<lambda>fs.
     case create_all Z (VirtIOBlk_device V) [hello_txt, hello_txt] fs of
       (Panic, _) \<Rightarrow> Panic
     | (Ret rs, fs') \<Rightarrow> Ret (passed, rs, fs')))"

text \<open>The stack walk of the panic handler: at most twenty frames, over the memory.\<close>

function backtrace :: "nat \<Rightarrow> (u64 \<Rightarrow> u64) \<Rightarrow> u64 \<Rightarrow> u64 list outcome" where
  "backtrace count mem rbp =
     (if rbp \<noteq> 0 \<and> count < 20 then
        bind_out (add_ck rbp 8) (\<lambda>a.
        bind_out (backtrace (count + 1) mem (mem rbp)) (\<lambda>rest.
        Ret (mem a # rest)))
      else Ret [])"
  by pat_completeness auto
termination by (relation "measure (\<lambda>(count, _, _). 20 - count)") auto

declare backtrace.simps [simp del]

subsection \<open>Every boot formats the disk\<close>

lemma length_test_data [simp]: "length test_data = 56"
  by (simp add: test_data_def)

lemma write_buffer_run:
  obtains wbuf where "write_buffer = Ret wbuf" "length wbuf = 512" "field 56 4 wbuf = replicate 4 0"
proof -
  let ?w = "overwrite 0 test_data zero_block"
  have "write_buffer = Ret ?w" by (simp add: write_buffer_def zero_block_def layout_sizes)
  moreover have "length ?w = 512" by (simp add: zero_block_def layout_sizes)
  moreover have "field 56 4 ?w = field 56 4 zero_block"
    by (rule field_overwrite_disjoint) (simp_all add: zero_block_def layout_sizes)
  then have "field 56 4 ?w = replicate 4 0" by (simp add: zero_block_def layout_sizes)
  ultimately show thesis by (rule that)
qed

context zerocopy_spec
begin

lemma mount_no_magic:
  assumes "read_blocks D d 0 zero_block = (r, buf, d')" "length buf = 512" "field 56 4 buf = replicate 4 0"
  shows "mount Z D d = (Ret (Err InvalidSuperBlock), d')"
proof -
  have "field 56 4 (field 0 64 buf) = replicate 4 0" using assms(2,3) by (simp add: field_field)
  then show ?thesis
    using assms zero32
    by (simp add: mount_def layout_blocks sizeof_DiskSuperBlock_def io_simps
        DiskSuperBlock_ref_from_bytes_def SuperBlock_try_from_def MAGIC_NUMBER_def)
qed

end

lemma drv_read_run:
  assumes "reliable_device (VirtIOBlk_device V) dev_ok blocks" "dev_ok d" "b < capacity (VirtIOBlk_device V) d"
  obtains d' where "drv_read_expect V b d = Ret (blocks d b, d')"
    "read_blocks (VirtIOBlk_device V) d b zero_block = (Ok (), blocks d b, d')" "dev_ok d'"
    "blocks d' = blocks d" "capacity (VirtIOBlk_device V) d' = capacity (VirtIOBlk_device V) d"
proof -
  note bd = reliable_device.axioms(1) [OF assms(1)]
  have z: "length zero_block = 512" by (simp add: zero_block_def layout_sizes)
  obtain buf d' where rd: "read_blocks (VirtIOBlk_device V) d b zero_block = (Ok (), buf, d')"
    using reliable_device.read_total [OF assms(1,2) z assms(3)] by blast
  moreover have "buf = blocks d b" using block_device_spec.read_ok [OF bd assms(2) z rd] by simp
  moreover have "drv_read_blocks V d b zero_block = (Ok (), buf, d')"
    using rd by (simp add: VirtIOBlk_device_def virtio_read_blocks_iff)
  ultimately show thesis
    using block_device_spec.read_frame [OF bd assms(2) z rd] by (intro that [of d']) (simp_all add: drv_read_expect_def)
qed

lemma drv_write_run:
  assumes "reliable_device (VirtIOBlk_device V) dev_ok blocks" "dev_ok d" "b < capacity (VirtIOBlk_device V) d"
    "length buf = 512"
  obtains d' where "drv_write_expect V b buf d = Ret d'" "dev_ok d'" "blocks d' b = buf"
    "capacity (VirtIOBlk_device V) d' = capacity (VirtIOBlk_device V) d"
proof -
  note bd = reliable_device.axioms(1) [OF assms(1)]
  obtain d' where wr: "write_blocks (VirtIOBlk_device V) d b buf = (Ok (), d')"
    using reliable_device.write_total [OF assms(1,2,4,3)] by blast
  moreover have "drv_write_blocks V d b buf = (Ok (), d')"
    using wr by (simp add: VirtIOBlk_device_def virtio_write_blocks_iff)
  ultimately show thesis
    using block_device_spec.write_frame [OF bd assms(2,4) wr] block_device_spec.write_ok [OF bd assms(2,4) wr]
    by (intro that [of d']) (simp_all add: drv_write_expect_def)
qed

lemma disk_test_run:
  assumes "reliable_device (VirtIOBlk_device V) dev_ok blocks" "dev_ok d" "0 < capacity (VirtIOBlk_device V) d"
  obtains d' where "disk_test V d = Ret (True, d')" "dev_ok d'" "field 56 4 (blocks d' 0) = replicate 4 0"
    "capacity (VirtIOBlk_device V) d' = capacity (VirtIOBlk_device V) d"
proof -
  obtain wbuf where w: "write_buffer = Ret wbuf" "length wbuf = 512" "field 56 4 wbuf = replicate 4 0"
    by (rule write_buffer_run)
  obtain d1 where d1: "drv_read_expect V 0 d = Ret (blocks d 0, d1)" "dev_ok d1"
    "capacity (VirtIOBlk_device V) d1 = capacity (VirtIOBlk_device V) d"
    using drv_read_run [OF assms] by metis
  obtain d2 where d2: "drv_write_expect V 0 wbuf d1 = Ret d2" "dev_ok d2" "blocks d2 0 = wbuf"
    "capacity (VirtIOBlk_device V) d2 = capacity (VirtIOBlk_device V) d"
    using drv_write_run [OF assms(1) d1(2) _ w(2)] assms(3) d1(3) by metis
  obtain d3 where d3: "drv_read_expect V 0 d2 = Ret (blocks d2 0, d3)" "dev_ok d3" "blocks d3 = blocks d2"
    "capacity (VirtIOBlk_device V) d3 = capacity (VirtIOBlk_device V) d2"
    using drv_read_run [OF assms(1) d2(2), of 0] assms(3) d2(4) by metis
  have "disk_test V d = Ret (True, d3)" by (simp add: disk_test_def d1(1) w(1) d2(1,3) d3(1))
  then show thesis using w(3) d2 d3 by (intro that [of d3]) simp_all
qed

lemma find_second: "1 < n \<Longrightarrow> find (\<lambda>i. i \<noteq> 0) [0..<n] = Some (1::nat)"
  by (simp add: upt_conv_Cons)

lemma afs_hello:
  assumes "afs_dir a = [dot_name \<mapsto> 0, dotdot_name \<mapsto> 0]" "afs_used a = {0}"
    and "afs_create_all [hello_txt, hello_txt] a = (rs, a')"
  shows "rs = [Ok (FileHandler 1), Err Corrupt]" "afs_dir a' = [dot_name \<mapsto> 0, dotdot_name \<mapsto> 0, hello_txt \<mapsto> 1]"
proof -
  have names: "hello_txt \<noteq> []" "length hello_txt = 9" "hello_txt \<noteq> dot_name" "hello_txt \<noteq> dotdot_name"
    "dot_name \<noteq> dotdot_name"
    by (simp_all add: hello_txt_def dot_name_def dotdot_name_def)
  have dom: "dom (afs_dir a) = {dotdot_name, dot_name}" by (simp add: assms(1))
  have free: "find (\<lambda>i. i \<notin> afs_used a) [0..<4096] = Some 1"
    unfolding assms(2) using find_second [of 4096] by (simp del: upt_rec_numeral)
  define a1 where "a1 = a\<lparr>afs_dir := (afs_dir a)(hello_txt \<mapsto> 1), afs_used := insert 1 (afs_used a),
    afs_inodes := (afs_inodes a)(1 \<mapsto> Ok (zero_inode File 1))\<rparr>"
  have "card {dotdot_name, dot_name} \<le> 2" by (simp add: card_insert_if)
  then have "afs_create hello_txt a = (Ok (FileHandler 1), a1)"
    using names unfolding afs_create_def dom free by (simp add: a1_def)
  moreover have "hello_txt \<in> dom (afs_dir a1)" by (simp add: a1_def)
  then have "afs_create hello_txt a1 = (Err Corrupt, a1)" using names by (simp add: afs_create_def)
  ultimately have "rs = [Ok (FileHandler 1), Err Corrupt]" "a' = a1" using assms(3) by simp_all
  then show "rs = [Ok (FileHandler 1), Err Corrupt]"
    "afs_dir a' = [dot_name \<mapsto> 0, dotdot_name \<mapsto> 0, hello_txt \<mapsto> 1]"
    by (simp_all add: a1_def assms(1))
qed

lemma boot_storage_run:
  assumes env: "reliable_sfs_env Z (VirtIOBlk_device V) dev_ok blocks" and dev: "dev_ok d"
    and cap: "20 \<le> unat (capacity (VirtIOBlk_device V) d)"
    and reopen: "\<And>d. dev_ok d \<Longrightarrow> \<exists>d'. reopen d = Ret d' \<and> dev_ok d' \<and> blocks d' = blocks d \<and>
      capacity (VirtIOBlk_device V) d' = capacity (VirtIOBlk_device V) d"
  shows "\<exists>fs. boot_storage Z V reopen d = Ret (True, [Ok (FileHandler 1), Err Corrupt], fs) \<and>
    sfs_inv Z (superblock fs) (blocks (device fs)) \<and>
    afs_dir (afs_of Z (superblock fs) (blocks (device fs))) = [dot_name \<mapsto> 0, dotdot_name \<mapsto> 0, hello_txt \<mapsto> 1]"
proof -
  let ?D = "VirtIOBlk_device V"
  note rd = reliable_sfs_env.axioms(2) [OF env]
  note zc = sfs_env.axioms(1) [OF reliable_sfs_env.axioms(1) [OF env]]
  have pos: "0 < capacity ?D d" using cap by (simp add: word_less_nat_alt)
  obtain d1 where d1: "disk_test V d = Ret (True, d1)" "dev_ok d1" "field 56 4 (blocks d1 0) = replicate 4 0"
    "capacity ?D d1 = capacity ?D d"
    by (rule disk_test_run [OF rd dev pos])
  obtain d2 where d2: "read_blocks ?D d1 0 zero_block = (Ok (), blocks d1 0, d2)" "dev_ok d2"
    "capacity ?D d2 = capacity ?D d1"
    using drv_read_run [OF rd d1(2), of 0] pos d1(4) by metis
  have "length (blocks d1 0) = 512"
    using block_device_spec.blocks_length [OF reliable_device.axioms(1) [OF rd] d1(2)] .
  then have mnt: "mount Z ?D d1 = (Ret (Err InvalidSuperBlock), d2)"
    using zerocopy_spec.mount_no_magic [OF zc d2(1) _ d1(3)] by simp
  obtain d3 where d3: "reopen d2 = Ret d3" "dev_ok d3" "capacity ?D d3 = capacity ?D d"
    using reopen [OF d2(2)] d2(3) d1(4) by auto
  from reliable_sfs_env.session [OF env d3(2), of "[hello_txt, hello_txt]"] cap d3(3)
  obtain fs d' fs' rs fs'' where run: "format Z ?D d3 = (Ret (Ok fs), d')"
    "init_root_directory Z ?D fs = (Ret (Ok ()), fs')"
    "create_all Z ?D [hello_txt, hello_txt] fs' = (Ret rs, fs'')"
    "afs_dir (afs_of Z (superblock fs') (blocks (device fs'))) = [dot_name \<mapsto> 0, dotdot_name \<mapsto> 0]"
    "afs_used (afs_of Z (superblock fs') (blocks (device fs'))) = {0}"
    "(rs, afs_of Z (superblock fs'') (blocks (device fs''))) =
       afs_create_all [hello_txt, hello_txt] (afs_of Z (superblock fs') (blocks (device fs')))"
    "sfs_inv Z (superblock fs'') (blocks (device fs''))"
    by auto
  note fin = afs_hello [OF run(4,5) run(6) [symmetric]]
  have "boot_storage Z V reopen d = Ret (True, rs, fs'')"
    by (simp add: boot_storage_def mount_or_format_def Let_def d1(1) mnt d3(1) run(1,2,3) del: create_all.simps)
  then show ?thesis using fin run(7) by simp
qed

text \<open>
  C12: Every boot formats the disk. Whatever a disk of at least twenty blocks holds, be it a file
  system with files, the test of block 0 succeeds and overwrites the superblock, so mounting
  fails, the disk is formatted, and afterwards the root directory has \<open>hello.txt\<close> and nothing
  else; the second creation reports \<open>Corrupt\<close>. \<open>reopen\<close> finds the disk as it was left.
\<close>

theorem boot_formats:
  assumes env: "reliable_sfs_env Z (VirtIOBlk_device V) dev_ok blocks" and dev: "dev_ok d"
    and cap: "20 \<le> unat (capacity (VirtIOBlk_device V) d)"
    and reopen: "\<And>d. dev_ok d \<Longrightarrow> \<exists>d'. reopen d = Ret d' \<and> dev_ok d' \<and> blocks d' = blocks d \<and>
      capacity (VirtIOBlk_device V) d' = capacity (VirtIOBlk_device V) d"
  shows "\<exists>fs. boot_storage Z V reopen d = Ret (True, [Ok (FileHandler 1), Err Corrupt], fs) \<and>
    sfs_inv Z (superblock fs) (blocks (device fs)) \<and>
    afs_dir (afs_of Z (superblock fs) (blocks (device fs))) = [dot_name \<mapsto> 0, dotdot_name \<mapsto> 0, hello_txt \<mapsto> 1]"
  by (rule boot_storage_run [OF assms])

theorem boot_formats_witness:
  "\<exists>fs. boot_storage le_zerocopy sector_driver Ret (blank_disk 64) =
      Ret (True, [Ok (FileHandler 1), Err Corrupt], fs) \<and>
    sfs_inv le_zerocopy (superblock fs) (sectors (device fs))"
  using boot_formats [OF sfs_good_disk.reliable_sfs_env_axioms good_disk_ok_blank [of 64], of Ret] by auto

text \<open>The stack walk ends: it prints at most twenty return addresses, even on a cyclic stack.\<close>

lemma backtrace_bounded: "backtrace count mem rbp = Ret rets \<Longrightarrow> length rets \<le> 20 - count"
proof (induction count mem rbp arbitrary: rets rule: backtrace.induct)
  case (1 count mem rbp)
  show ?case
  proof (cases "rbp \<noteq> 0 \<and> count < 20")
    case True
    then obtain a rest where "add_ck rbp 8 = Ret a" "backtrace (count + 1) mem (mem rbp) = Ret rest"
      "rets = mem a # rest"
      using "1.prems" by (auto simp: backtrace.simps [of count] io_simps)
    then show ?thesis using "1.IH" [OF True] True by fastforce
  next
    case False
    then show ?thesis using "1.prems" by (auto simp: backtrace.simps [of count])
  qed
qed

end
