(* ===== verification/Memory.thy ===== *)
theory Memory
  imports Kernel_Prelude
begin

section \<open>Paging and physical frames (\<open>src/src/memory.rs\<close>)\<close>

text \<open>
  The page-table walk of \<open>translate_addr\<close> and the frame allocator over the boot loader's memory
  map. The address types and page-table entries are those of the package \<open>x86_64\<close>, the memory map
  that of \<open>bootloader\<close>: both are outside the repository and are the records \<open>paging\<close> and
  \<open>boot_map\<close>. The locale \<open>paging_spec\<close> states what their documentation promises.
\<close>

unbundle bit_operations_syntax

datatype FrameError = FrameNotPresent | HugeFrame

record ('f, 'e) paging =
  p4_index :: "u64 \<Rightarrow> nat"
  p3_index :: "u64 \<Rightarrow> nat"
  p2_index :: "u64 \<Rightarrow> nat"
  p1_index :: "u64 \<Rightarrow> nat"
  page_offset :: "u64 \<Rightarrow> u64"
  virt_add :: "u64 \<Rightarrow> u64 \<Rightarrow> u64 outcome"
  phys_new :: "u64 \<Rightarrow> u64 outcome"
  phys_add :: "u64 \<Rightarrow> u64 \<Rightarrow> u64 outcome"
  containing_address :: "u64 \<Rightarrow> 'f"
  start_address :: "'f \<Rightarrow> u64"
  entry_frame :: "'e \<Rightarrow> ('f, FrameError) result"

subsection \<open>Address translation\<close>

text \<open>\<open>mem virt index\<close> is the entry \<open>index\<close> of the page table that lies at \<open>virt\<close>.\<close>

definition active_level_4_table :: "('f, 'e, 'z) paging_scheme \<Rightarrow> 'f \<Rightarrow> u64 \<Rightarrow> u64 outcome" where
  "active_level_4_table X cr3 physical_memory_offset =
     virt_add X physical_memory_offset (start_address X cr3)"

text \<open>\<open>new_table\<close> is \<open>OffsetPageTable::new\<close>.\<close>

definition memory_init :: "('f, 'e, 'z) paging_scheme \<Rightarrow> (u64 \<Rightarrow> u64 \<Rightarrow> 'm) \<Rightarrow> 'f \<Rightarrow> u64 \<Rightarrow> 'm outcome" where
  "memory_init X new_table cr3 physical_memory_offset =
     bind_out (active_level_4_table X cr3 physical_memory_offset) (\<lambda>level_4_table.
     Ret (new_table level_4_table physical_memory_offset))"

fun walk_tables ::
    "('f, 'e, 'z) paging_scheme \<Rightarrow> (u64 \<Rightarrow> nat \<Rightarrow> 'e) \<Rightarrow> u64 \<Rightarrow> nat list \<Rightarrow> 'f \<Rightarrow> 'f option outcome" where
  "walk_tables X mem off [] frame = Ret (Some frame)"
| "walk_tables X mem off (index # ixs) frame =
     bind_out (virt_add X off (start_address X frame)) (\<lambda>virt.
     case entry_frame X (mem virt index) of
       Ok frame' \<Rightarrow> walk_tables X mem off ixs frame'
     | Err FrameNotPresent \<Rightarrow> Ret None
     | Err HugeFrame \<Rightarrow> Panic)"

definition translate_addr_inner ::
    "('f, 'e, 'z) paging_scheme \<Rightarrow> (u64 \<Rightarrow> nat \<Rightarrow> 'e) \<Rightarrow> 'f \<Rightarrow> u64 \<Rightarrow> u64 \<Rightarrow> u64 option outcome" where
  "translate_addr_inner X mem cr3 addr physical_memory_offset =
     (let table_indexes = [p4_index X addr, p3_index X addr, p2_index X addr, p1_index X addr] in
      bind_out (walk_tables X mem physical_memory_offset table_indexes cr3) (\<lambda>res.
      case res of
        None \<Rightarrow> Ret None
      | Some frame \<Rightarrow>
          bind_out (phys_add X (start_address X frame) (page_offset X addr)) (\<lambda>p. Ret (Some p))))"

definition translate_addr ::
    "('f, 'e, 'z) paging_scheme \<Rightarrow> (u64 \<Rightarrow> nat \<Rightarrow> 'e) \<Rightarrow> 'f \<Rightarrow> u64 \<Rightarrow> u64 \<Rightarrow> u64 option outcome" where
  "translate_addr X mem cr3 addr physical_memory_offset =
     translate_addr_inner X mem cr3 addr physical_memory_offset"

subsection \<open>Frame allocators\<close>

record 'r boot_map =
  is_usable :: "'r \<Rightarrow> bool"
  region_start :: "'r \<Rightarrow> u64"
  region_end :: "'r \<Rightarrow> u64"

definition empty_allocate_frame :: "'s \<Rightarrow> ('f option \<times> 's) outcome" where
  "empty_allocate_frame s = Ret (None, s)"

record 'r BootInfoFrameAllocator =
  memory_map :: "'r list"
  next_frame :: usize

definition frame_allocator_init :: "'r list \<Rightarrow> 'r BootInfoFrameAllocator" where
  "frame_allocator_init mm = \<lparr> memory_map = mm, next_frame = 0 \<rparr>"

text \<open>\<open>(lo..hi).step_by(4096)\<close>.\<close>

definition step_by_4096 :: "u64 \<Rightarrow> u64 \<Rightarrow> u64 list" where
  "step_by_4096 lo hi = map (\<lambda>k. lo + of_nat k * 4096) [0..<(unat hi - unat lo + 4095) div 4096]"

definition frame_addresses :: "('r, 'y) boot_map_scheme \<Rightarrow> 'r list \<Rightarrow> u64 list" where
  "frame_addresses B mm =
     concat (map (\<lambda>r. step_by_4096 (region_start B r) (region_end B r)) (filter (is_usable B) mm))"

text \<open>The iterator is lazy: its elements are computations, run as \<open>nth\<close> passes them.\<close>

definition usable_frames ::
    "('f, 'e, 'z) paging_scheme \<Rightarrow> ('r, 'y) boot_map_scheme \<Rightarrow> 'r BootInfoFrameAllocator
       \<Rightarrow> 'f outcome list" where
  "usable_frames X B s =
     map (\<lambda>addr. bind_out (phys_new X addr) (\<lambda>p. Ret (containing_address X p)))
       (frame_addresses B (memory_map s))"

fun iter_nth :: "'a outcome list \<Rightarrow> nat \<Rightarrow> 'a option outcome" where
  "iter_nth [] n = Ret None"
| "iter_nth (x # xs) n =
     bind_out x (\<lambda>v. case n of 0 \<Rightarrow> Ret (Some v) | Suc m \<Rightarrow> iter_nth xs m)"

definition allocate_frame ::
    "('f, 'e, 'z) paging_scheme \<Rightarrow> ('r, 'y) boot_map_scheme \<Rightarrow> 'r BootInfoFrameAllocator
       \<Rightarrow> ('f option \<times> 'r BootInfoFrameAllocator) outcome" where
  "allocate_frame X B s =
     bind_out (iter_nth (usable_frames X B s) (unat (next_frame s))) (\<lambda>frame.
     bind_out (add_ck (next_frame s) 1) (\<lambda>n.
     Ret (frame, s\<lparr> next_frame := n \<rparr>)))"

text \<open>\<open>n\<close> calls in a row.\<close>

fun allocate_frames ::
    "('f, 'e, 'z) paging_scheme \<Rightarrow> ('r, 'y) boot_map_scheme \<Rightarrow> nat \<Rightarrow> 'r BootInfoFrameAllocator
       \<Rightarrow> 'f option list outcome" where
  "allocate_frames X B 0 s = Ret []"
| "allocate_frames X B (Suc n) s =
     bind_out (allocate_frame X B s) (\<lambda>(fr, s'). bind_out (allocate_frames X B n s') (\<lambda>frs. Ret (fr # frs)))"

text \<open>The bytes of a frame and of a region, and what the caller of \<open>init\<close> guarantees of the map.\<close>

definition frame_range :: "('f, 'e, 'z) paging_scheme \<Rightarrow> 'f \<Rightarrow> nat set" where
  "frame_range X f = {unat (start_address X f)..<unat (start_address X f) + 4096}"

definition region_range :: "('r, 'y) boot_map_scheme \<Rightarrow> 'r \<Rightarrow> nat set" where
  "region_range B r = {unat (region_start B r)..<unat (region_end B r)}"

definition valid_memory_map :: "('r, 'y) boot_map_scheme \<Rightarrow> 'r list \<Rightarrow> bool" where
  "valid_memory_map B mm \<longleftrightarrow>
     (\<forall>r\<in>set (filter (is_usable B) mm).
        4096 dvd unat (region_start B r) \<and> 4096 dvd unat (region_end B r) \<and> unat (region_end B r) \<le> 2 ^ 52) \<and>
     sorted_wrt (\<lambda>r q. region_range B r \<inter> region_range B q = {}) (filter (is_usable B) mm)"

subsection \<open>What the packages promise\<close>

locale paging_spec =
  fixes X :: "('f, 'e, 'z) paging_scheme"
  assumes index_law: "p4_index X v = unat v div 2 ^ 39 mod 512" "p3_index X v = unat v div 2 ^ 30 mod 512"
      "p2_index X v = unat v div 2 ^ 21 mod 512" "p1_index X v = unat v div 2 ^ 12 mod 512"
    and offset_law: "unat (page_offset X v) = unat v mod 4096"
    and phys_new_law: "phys_new X a = (if unat a < 2 ^ 52 then Ret a else Panic)"
    and phys_add_law: "phys_add X a b = (if unat a + unat b < 2 ^ 52 then Ret (a + b) else Panic)"
    and frame_law: "unat a < 2 ^ 52 \<Longrightarrow> unat (start_address X (containing_address X a)) = unat a - unat a mod 4096"
    and start_law: "4096 dvd unat (start_address X f)" "unat (start_address X f) < 2 ^ 52"

text \<open>The hardware format: a frame is its number, an entry a word with flag bits.\<close>

definition x86_paging :: "(40 word, u64) paging" where
  "x86_paging = \<lparr>
     p4_index = (\<lambda>v. unat v div 2 ^ 39 mod 512), p3_index = (\<lambda>v. unat v div 2 ^ 30 mod 512),
     p2_index = (\<lambda>v. unat v div 2 ^ 21 mod 512), p1_index = (\<lambda>v. unat v div 2 ^ 12 mod 512),
     page_offset = (\<lambda>v. v mod 4096), virt_add = add_ck,
     phys_new = (\<lambda>a. if unat a < 2 ^ 52 then Ret a else Panic),
     phys_add = (\<lambda>a b. if unat a + unat b < 2 ^ 52 then Ret (a + b) else Panic),
     containing_address = (\<lambda>a. of_nat (unat a div 4096)), start_address = (\<lambda>f. ucast f * 4096),
     entry_frame = (\<lambda>e. if \<not> bit e 0 then Err FrameNotPresent
        else if bit e 7 then Err HugeFrame else Ok (of_nat (unat e div 4096))) \<rparr>"

lemma unat_ucast_page:
  assumes "LENGTH('a) \<le> 52"
  shows "unat (ucast (f::'a::len word) * 4096 :: u64) = unat f * 4096"
proof -
  have "(2::nat) ^ LENGTH('a) \<le> 2 ^ 52" using assms by (intro power_increasing) simp_all
  then have lt: "unat f < 2 ^ 52" using unat_bound [of f] by (rule order.strict_trans2 [rotated])
  then have f: "unat (ucast f :: u64) = unat f" by (simp add: unsigned_ucast_eq take_bit_nat_eq_self_iff)
  show ?thesis using unat_mult_no_overflow [of "ucast f :: u64" 4096] lt f by simp
qed

lemma x86_frame_number: "n < 2 ^ 40 \<Longrightarrow> unat (of_nat n :: 40 word) = n"
  by (simp add: unat_of_nat)

lemmas x86_frame = unat_ucast_page x86_frame_number

interpretation x86: paging_spec x86_paging
proof
  fix a v :: u64 and f
  show "unat (start_address x86_paging (containing_address x86_paging a)) = unat a - unat a mod 4096"
    if "unat a < 2 ^ 52"
    using that by (simp add: x86_paging_def x86_frame less_mult_imp_div_less minus_mod_eq_div_mult)
  show "unat (start_address x86_paging f) < 2 ^ 52"
    using unat_bound [of f] by (simp add: x86_paging_def x86_frame)
qed (simp_all add: x86_paging_def unat_mod_distrib x86_frame)

subsection \<open>Translation is page-wise\<close>

context paging_spec
begin

lemma same_page_indices:
  assumes "unat a div 4096 = unat b div 4096"
  shows "[p4_index X a, p3_index X a, p2_index X a, p1_index X a] =
    [p4_index X b, p3_index X b, p2_index X b, p1_index X b]"
proof -
  have "unat v div 2 ^ 39 = unat v div 4096 div 2 ^ 27" "unat v div 2 ^ 30 = unat v div 4096 div 2 ^ 18"
    "unat v div 2 ^ 21 = unat v div 4096 div 2 ^ 9" for v :: u64
    by (simp_all add: div_mult2_eq [symmetric])
  then show ?thesis by (simp add: index_law assms)
qed

lemma frame_plus_offset:
  obtains p where "phys_add X (start_address X f) (page_offset X v) = Ret p"
    "unat p div 4096 = unat (start_address X f) div 4096" "unat p mod 4096 = unat v mod 4096"
proof -
  let ?s = "unat (start_address X f)" and ?o = "unat (page_offset X v)"
  obtain k where k: "?s = 4096 * k" using start_law(1) by (auto elim: dvdE)
  have o: "?o < 4096" by (simp add: offset_law)
  then have lt: "?s + ?o < 2 ^ 52" using start_law(2) [of f] k by simp
  then have "unat (start_address X f + page_offset X v) = ?s + ?o"
    by (intro unat_add_no_overflow) simp
  moreover have "(?s + ?o) div 4096 = ?s div 4096" "(?s + ?o) mod 4096 = ?o" using k o by simp_all
  ultimately show thesis using that [of "start_address X f + page_offset X v"] lt
    by (simp add: phys_add_law offset_law)
qed

lemma translate_page:
  assumes "unat a div 4096 = unat b div 4096"
  shows "case translate_addr X mem cr3 a off of
      Panic \<Rightarrow> translate_addr X mem cr3 b off = Panic
    | Ret None \<Rightarrow> translate_addr X mem cr3 b off = Ret None
    | Ret (Some p) \<Rightarrow> unat p mod 4096 = unat a mod 4096 \<and>
        (\<exists>q. translate_addr X mem cr3 b off = Ret (Some q) \<and>
           unat q div 4096 = unat p div 4096 \<and> unat q mod 4096 = unat b mod 4096)"
proof -
  let ?ixs = "[p4_index X a, p3_index X a, p2_index X a, p1_index X a]"
  consider "walk_tables X mem off ?ixs cr3 = Panic" | "walk_tables X mem off ?ixs cr3 = Ret None"
    | f where "walk_tables X mem off ?ixs cr3 = Ret (Some f)"
    by (metis outcome.exhaust option.exhaust)
  then show ?thesis
  proof cases
    case (3 f)
    obtain p q where "phys_add X (start_address X f) (page_offset X a) = Ret p"
      "unat p div 4096 = unat (start_address X f) div 4096" "unat p mod 4096 = unat a mod 4096"
      "phys_add X (start_address X f) (page_offset X b) = Ret q"
      "unat q div 4096 = unat (start_address X f) div 4096" "unat q mod 4096 = unat b mod 4096"
      using frame_plus_offset [of f a] frame_plus_offset [of f b] by metis
    then show ?thesis using 3
      by (simp only: translate_addr_def translate_addr_inner_def Let_def same_page_indices [OF assms]) simp
  qed (simp_all only: translate_addr_def translate_addr_inner_def Let_def same_page_indices [OF assms]
      bind_out_simps outcome.case option.case)
qed

end

subsection \<open>Every usable frame once\<close>

lemma iter_nth_Ret: "iter_nth (map Ret xs) n = Ret (if n < length xs then Some (xs ! n) else None)"
  by (induction xs arbitrary: n) (auto split: nat.split)

lemma step_by_facts:
  assumes lo: "4096 dvd unat lo" and hi: "4096 dvd unat hi" "unat hi \<le> 2 ^ 52"
  shows "distinct (step_by_4096 lo hi)"
    and "unat ` set (step_by_4096 lo hi) = {x. unat lo \<le> x \<and> x < unat hi \<and> 4096 dvd x}"
proof -
  obtain a b where ab: "unat lo = 4096 * a" "unat hi = 4096 * b" using lo hi by (auto elim!: dvdE)
  define n where "n = b - a"
  have n: "(unat hi - unat lo + 4095) div 4096 = n" using ab by (simp add: n_def flip: right_diff_distrib')
  have at: "unat (lo + of_nat k * 4096) = 4096 * (a + k)" if "k < n" for k
  proof -
    have k: "unat (of_nat k :: u64) = k" using that ab hi by (simp add: n_def unat_of_nat)
    have km: "unat (of_nat k * 4096 :: u64) = k * 4096"
      using unat_mult_no_overflow [of "of_nat k :: u64" 4096] k that ab hi by (simp add: n_def)
    show ?thesis
      using unat_add_no_overflow [of lo "of_nat k * 4096"] km that ab hi by (simp add: n_def)
  qed
  have eq: "map unat (step_by_4096 lo hi) = map (\<lambda>k. 4096 * (a + k)) [0..<n]"
    by (simp add: step_by_4096_def n at)
  have "distinct (map unat (step_by_4096 lo hi))" unfolding eq by (simp add: distinct_map inj_on_def)
  then show "distinct (step_by_4096 lo hi)" by (simp add: distinct_map)
  have "{x. unat lo \<le> x \<and> x < unat hi \<and> 4096 dvd x} = (\<lambda>k. 4096 * (a + k)) ` {0..<n}"
  proof (intro equalityI subsetI)
    fix x assume "x \<in> {x. unat lo \<le> x \<and> x < unat hi \<and> 4096 dvd x}"
    then obtain c where "x = 4096 * c" "a \<le> c" "c < b" using ab by (auto elim!: dvdE)
    then show "x \<in> (\<lambda>k. 4096 * (a + k)) ` {0..<n}" by (auto simp: n_def intro!: image_eqI [of _ _ "c - a"])
  qed (use ab in \<open>auto simp: n_def\<close>)
  moreover have "unat ` set (step_by_4096 lo hi) = set (map unat (step_by_4096 lo hi))" by simp
  ultimately show "unat ` set (step_by_4096 lo hi) = {x. unat lo \<le> x \<and> x < unat hi \<and> 4096 dvd x}"
    unfolding eq by simp
qed

lemma aligned_cover:
  assumes "4096 dvd l" "4096 dvd h"
  shows "(\<Union>x\<in>{x. l \<le> x \<and> x < h \<and> 4096 dvd x}. {x..<x + 4096}) = {l..<h :: nat}"
proof (intro equalityI subsetI)
  obtain a b where ab: "l = 4096 * a" "h = 4096 * b" using assms by (auto elim!: dvdE)
  {
    fix y assume "y \<in> (\<Union>x\<in>{x. l \<le> x \<and> x < h \<and> 4096 dvd x}. {x..<x + 4096})"
    then obtain c where "a \<le> c" "c < b" "4096 * c \<le> y" "y < 4096 * c + 4096"
      using ab by (auto elim!: dvdE)
    then show "y \<in> {l..<h}" using ab by auto
  next
    fix y assume y: "y \<in> {l..<h}"
    let ?x = "y div 4096 * 4096"
    have "?x \<le> y" "y < ?x + 4096" by simp_all
    moreover have "l \<le> ?x" using y ab by (simp add: div_le_mono less_eq_div_iff_mult_less_eq mult.commute)
    ultimately show "y \<in> (\<Union>x\<in>{x. l \<le> x \<and> x < h \<and> 4096 dvd x}. {x..<x + 4096})"
      using y by (intro UN_I [of ?x]) auto
  }
qed

lemma distinct_concat_map:
  assumes "\<And>r. r \<in> set rs \<Longrightarrow> distinct (f r)" "sorted_wrt (\<lambda>r q. set (f r) \<inter> set (f q) = {}) rs"
  shows "distinct (concat (map f rs))"
  using assms by (induction rs) (auto simp: disjoint_iff)

lemma frame_addresses_facts:
  assumes "valid_memory_map B mm"
  shows "distinct (frame_addresses B mm)"
    and "\<forall>a\<in>set (frame_addresses B mm). 4096 dvd unat a \<and> unat a < 2 ^ 52"
    and "(\<Union>a\<in>set (frame_addresses B mm). {unat a..<unat a + 4096}) =
      (\<Union>r\<in>set (filter (is_usable B) mm). region_range B r)"
proof -
  let ?f = "\<lambda>r. step_by_4096 (region_start B r) (region_end B r)"
  define rs where "rs = filter (is_usable B) mm"
  have rs: "\<forall>r\<in>set rs. 4096 dvd unat (region_start B r) \<and> 4096 dvd unat (region_end B r) \<and>
      unat (region_end B r) \<le> 2 ^ 52"
    and apart: "sorted_wrt (\<lambda>r q. region_range B r \<inter> region_range B q = {}) rs"
    using assms by (simp_all add: valid_memory_map_def rs_def)
  have mem: "unat a \<in> region_range B r \<and> 4096 dvd unat a \<and> unat a < 2 ^ 52"
    if "r \<in> set rs" "a \<in> set (?f r)" for r a
  proof -
    have "unat a \<in> unat ` set (?f r)" using that(2) by (rule imageI)
    moreover have "4096 dvd unat (region_start B r)" "4096 dvd unat (region_end B r)"
      "unat (region_end B r) \<le> 2 ^ 52"
      using rs that(1) by simp_all
    ultimately show ?thesis by (simp add: step_by_facts(2) region_range_def)
  qed
  have "sorted_wrt (\<lambda>r q. set (?f r) \<inter> set (?f q) = {}) rs"
    by (rule sorted_wrt_mono_rel [OF _ apart]) (use mem in blast)
  then have "distinct (concat (map ?f rs))" using rs by (intro distinct_concat_map) (simp_all add: step_by_facts(1))
  then show "distinct (frame_addresses B mm)" by (simp add: frame_addresses_def rs_def)
  show "\<forall>a\<in>set (frame_addresses B mm). 4096 dvd unat a \<and> unat a < 2 ^ 52"
    using mem unfolding frame_addresses_def rs_def [symmetric] by simp
  have each: "(\<Union>a\<in>set (?f r). {unat a..<unat a + 4096}) = region_range B r" if "r \<in> set rs" for r
  proof -
    have "(\<Union>a\<in>set (?f r). {unat a..<unat a + 4096}) = (\<Union>x\<in>unat ` set (?f r). {x..<x + 4096})" by simp
    also have "\<dots> = region_range B r"
      using rs that by (simp add: step_by_facts(2) aligned_cover region_range_def)
    finally show ?thesis .
  qed
  have "(\<Union>a\<in>set (frame_addresses B mm). {unat a..<unat a + 4096}) =
      (\<Union>r\<in>set rs. \<Union>a\<in>set (?f r). {unat a..<unat a + 4096})"
    by (auto simp: frame_addresses_def rs_def)
  also have "\<dots> = (\<Union>r\<in>set rs. region_range B r)" by (intro SUP_cong refl each)
  finally show "(\<Union>a\<in>set (frame_addresses B mm). {unat a..<unat a + 4096}) =
      (\<Union>r\<in>set (filter (is_usable B) mm). region_range B r)"
    by (simp add: rs_def)
qed

definition frame_list :: "('f, 'e, 'z) paging_scheme \<Rightarrow> ('r, 'y) boot_map_scheme \<Rightarrow> 'r list \<Rightarrow> 'f list" where
  "frame_list X B mm = map (containing_address X) (frame_addresses B mm)"

context paging_spec
begin

lemma frame_list_facts:
  assumes "valid_memory_map B mm"
  shows "distinct (frame_list X B mm)"
    and "pairwise (\<lambda>f g. frame_range X f \<inter> frame_range X g = {}) (set (frame_list X B mm))"
    and "(\<Union>f\<in>set (frame_list X B mm). frame_range X f) =
      (\<Union>r\<in>set (filter (is_usable B) mm). region_range B r)"
    and "memory_map s = mm \<Longrightarrow> usable_frames X B s = map Ret (frame_list X B mm)"
proof -
  note fa = frame_addresses_facts [OF assms]
  have inverse_at: "unat (start_address X (containing_address X a)) = unat a" if "a \<in> set (frame_addresses B mm)" for a
    using fa(2) that by (simp add: frame_law)
  have "inj_on (containing_address X) (set (frame_addresses B mm))"
    by (rule inj_onI) (metis inverse_at unsigned_word_eqI)
  then show "distinct (frame_list X B mm)" using fa(1) by (simp add: frame_list_def distinct_map)
  show "pairwise (\<lambda>f g. frame_range X f \<inter> frame_range X g = {}) (set (frame_list X B mm))"
  proof (rule pairwiseI)
    fix f g assume fg: "f \<in> set (frame_list X B mm)" "g \<in> set (frame_list X B mm)" "f \<noteq> g"
    then obtain a b where "f = containing_address X a" "g = containing_address X b"
      "a \<in> set (frame_addresses B mm)" "b \<in> set (frame_addresses B mm)" "a \<noteq> b"
      by (auto simp: frame_list_def)
    moreover have "4096 dvd unat a" "4096 dvd unat b" using fa(2) calculation(3,4) by simp_all
    then obtain k l where "unat a = 4096 * k" "unat b = 4096 * l" by (auto elim!: dvdE)
    moreover have "unat a \<noteq> unat b" using calculation(5) unsigned_word_eqI by blast
    ultimately show "frame_range X f \<inter> frame_range X g = {}"
      using inverse_at by (auto simp: frame_range_def)
  qed
  show "(\<Union>f\<in>set (frame_list X B mm). frame_range X f) =
      (\<Union>r\<in>set (filter (is_usable B) mm). region_range B r)"
    unfolding fa(3) [symmetric] by (auto simp: frame_list_def frame_range_def inverse_at)
  show "usable_frames X B s = map Ret (frame_list X B mm)" if "memory_map s = mm"
    using fa(2) that by (simp add: usable_frames_def frame_list_def phys_new_law)
qed

lemma allocate_frame_run:
  assumes "valid_memory_map B mm" "memory_map s = mm" "unat (next_frame s) + 1 < 2 ^ 64"
  shows "allocate_frame X B s =
    Ret (if unat (next_frame s) < length (frame_list X B mm)
         then Some (frame_list X B mm ! unat (next_frame s)) else None,
         s\<lparr>next_frame := next_frame s + 1\<rparr>)"
proof -
  have "add_ck (next_frame s) 1 = Ret (next_frame s + 1)" using assms(3) by (simp add: add_ck_def)
  then show ?thesis
    by (simp add: allocate_frame_def frame_list_facts(4) [OF assms(1,2)] iter_nth_Ret)
qed

lemma allocate_frames_run:
  assumes "valid_memory_map B mm" "memory_map s = mm" "unat (next_frame s) + n < 2 ^ 64"
  shows "allocate_frames X B n s =
    Ret (map (\<lambda>i. if i < length (frame_list X B mm) then Some (frame_list X B mm ! i) else None)
      [unat (next_frame s)..<unat (next_frame s) + n])"
  using assms(2,3)
proof (induction n arbitrary: s)
  case (Suc n)
  have "unat (next_frame s + 1) = unat (next_frame s) + 1"
    using unat_add_no_overflow [of "next_frame s" 1] Suc.prems by simp
  then show ?case
    using Suc.prems Suc.IH [of "s\<lparr>next_frame := next_frame s + 1\<rparr>"]
      allocate_frame_run [OF assms(1) Suc.prems(1)] by (simp add: upt_conv_Cons del: upt_Suc)
qed simp

end

subsection \<open>The contract of a frame allocator\<close>

text \<open>
  What \<open>unsafe impl FrameAllocator\<close> promises: a frame it returns has not been returned before.
  \<open>used\<close> are the frames handed out.
\<close>

locale frame_source =
  fixes fa_alloc :: "'s \<Rightarrow> ('f option \<times> 's) outcome"
    and fa_inv :: "'s \<Rightarrow> 'f set \<Rightarrow> bool"
  assumes fa_fresh: "\<lbrakk>fa_inv s used; fa_alloc s = Ret (Some f, s')\<rbrakk> \<Longrightarrow> f \<notin> used \<and> fa_inv s' (insert f used)"
    and fa_none: "\<lbrakk>fa_inv s used; fa_alloc s = Ret (None, s')\<rbrakk> \<Longrightarrow> fa_inv s' used"

interpretation empty_frames: frame_source empty_allocate_frame "\<lambda>_ used. used = {}"
  by unfold_locales (simp_all add: empty_allocate_frame_def)

definition boot_frames_inv ::
    "('f, 'e, 'z) paging_scheme \<Rightarrow> ('r, 'y) boot_map_scheme \<Rightarrow> 'r list \<Rightarrow> 'r BootInfoFrameAllocator \<Rightarrow> 'f set \<Rightarrow> bool" where
  "boot_frames_inv X B mm s used \<longleftrightarrow>
     valid_memory_map B mm \<and> memory_map s = mm \<and>
     used \<subseteq> set (take (unat (next_frame s)) (frame_list X B mm))"

context paging_spec
begin

lemma allocate_frame_step:
  assumes inv: "boot_frames_inv X B mm s used" and run: "allocate_frame X B s = Ret (r, s')"
  shows "memory_map s' = mm" "unat (next_frame s') = unat (next_frame s) + 1"
    "r = (if unat (next_frame s) < length (frame_list X B mm)
      then Some (frame_list X B mm ! unat (next_frame s)) else None)"
proof -
  have mm: "valid_memory_map B mm" "memory_map s = mm" using inv by (simp_all add: boot_frames_inv_def)
  obtain n where "add_ck (next_frame s) 1 = Ret n" using run by (auto simp: allocate_frame_def io_simps)
  then have "unat (next_frame s) + 1 < 2 ^ 64" using unat_bound [of n] by (simp add: ck_simps)
  then show "memory_map s' = mm" "unat (next_frame s') = unat (next_frame s) + 1"
    "r = (if unat (next_frame s) < length (frame_list X B mm)
      then Some (frame_list X B mm ! unat (next_frame s)) else None)"
    using allocate_frame_run [OF mm] run mm(2) unat_add_no_overflow [of "next_frame s" 1] by auto
qed

lemma boot_frames: "frame_source (allocate_frame X B) (boot_frames_inv X B mm)"
proof
  fix s used f s'
  assume inv: "boot_frames_inv X B mm s used" and run: "allocate_frame X B s = Ret (Some f, s')"
  let ?L = "frame_list X B mm" and ?n = "unat (next_frame s)"
  note st = allocate_frame_step [OF inv run]
  have n: "?n < length ?L" "f = ?L ! ?n" using st(3) by (simp_all split: if_splits)
  have "distinct ?L" "used \<subseteq> set (take ?n ?L)"
    using inv frame_list_facts(1) by (auto simp: boot_frames_inv_def)
  moreover have "?L ! ?n \<notin> set (take ?n ?L)"
    using \<open>distinct ?L\<close> n(1) by (auto simp: in_set_conv_nth nth_eq_iff_index_eq)
  ultimately show "f \<notin> used \<and> boot_frames_inv X B mm s' (insert f used)"
    using inv st(1,2) n by (auto simp: boot_frames_inv_def take_Suc_conv_app_nth)
next
  fix s used s'
  assume inv: "boot_frames_inv X B mm s used" and run: "allocate_frame X B s = Ret (None, s')"
  note st = allocate_frame_step [OF inv run]
  then show "boot_frames_inv X B mm s' used" using inv by (auto simp: boot_frames_inv_def split: if_splits)
qed

end

interpretation x86_frames: frame_source "allocate_frame x86_paging B" "boot_frames_inv x86_paging B mm"
  for B mm
  by (rule x86.boot_frames)

subsection \<open>Properties\<close>



text \<open>
  C13: The frame allocator hands out all usable memory and nothing else. On a valid memory map,
  \<open>n\<close> calls return the first \<open>n\<close> frames of one list, then \<open>None\<close>; the frames of that list are
  disjoint and together are exactly the usable regions.
\<close>

theorem allocate_frames_spec:
  assumes "paging_spec X" and "valid_memory_map B mm" and "n < 2 ^ 64"
  shows "\<exists>fs. allocate_frames X B n (frame_allocator_init mm) =
      Ret (map (\<lambda>i. if i < length fs then Some (fs ! i) else None) [0..<n]) \<and>
    distinct fs \<and> pairwise (\<lambda>f g. frame_range X f \<inter> frame_range X g = {}) (set fs) \<and>
    (\<Union>f\<in>set fs. frame_range X f) = (\<Union>r\<in>set (filter (is_usable B) mm). region_range B r)"
proof (rule exI [of _ "frame_list X B mm"])
  show "allocate_frames X B n (frame_allocator_init mm) =
      Ret (map (\<lambda>i. if i < length (frame_list X B mm) then Some (frame_list X B mm ! i) else None) [0..<n]) \<and>
    distinct (frame_list X B mm) \<and>
    pairwise (\<lambda>f g. frame_range X f \<inter> frame_range X g = {}) (set (frame_list X B mm)) \<and>
    (\<Union>f\<in>set (frame_list X B mm). frame_range X f) = (\<Union>r\<in>set (filter (is_usable B) mm). region_range B r)"
    using paging_spec.allocate_frames_run [OF assms(1,2), of "frame_allocator_init mm" n] assms(3)
      paging_spec.frame_list_facts(1-3) [OF assms(1,2)]
    by (simp add: frame_allocator_init_def)
qed

definition tuple_map :: "(bool \<times> u64 \<times> u64) boot_map" where
  "tuple_map = \<lparr> is_usable = fst, region_start = fst \<circ> snd, region_end = snd \<circ> snd \<rparr>"

theorem allocate_frames_spec_witness:
  "\<exists>fs. allocate_frames x86_paging tuple_map 3
      (frame_allocator_init [(True, 0x1000, 0x2000), (False, 0x2000, 0x8000), (True, 0x8000, 0x9000)]) =
      Ret (map (\<lambda>i. if i < length fs then Some (fs ! i) else None) [0..<3]) \<and>
    (\<Union>f\<in>set fs. frame_range x86_paging f) = {0x1000..<0x2000} \<union> {0x8000..<0x9000}"
proof -
  have "valid_memory_map tuple_map [(True, 0x1000, 0x2000), (False, 0x2000, 0x8000), (True, 0x8000, 0x9000)]"
    by (simp add: valid_memory_map_def tuple_map_def region_range_def)
  from allocate_frames_spec [OF x86.paging_spec_axioms this, of 3] show ?thesis
    by (auto simp: tuple_map_def region_range_def)
qed

end
