(* ===== verification/Allocator.thy ===== *)
theory Allocator
  imports Kernel_Prelude
begin

unbundle bit_operations_syntax

section \<open>Allocators: layouts, alignment and the interface (\<open>src/src/allocator.rs\<close>)\<close>

text \<open>
  \<open>Layout\<close> and its methods are the standard library's; \<open>align_up\<close>, the heap bounds and the
  \<open>Dummy\<close> allocator are the repository's. A pointer is its address, null is 0. The trait
  \<open>GlobalAlloc\<close> is the locale \<open>global_alloc\<close>: an invariant that relates the allocator's state to
  the blocks its client holds, and the laws of the two calls. What a client can rely on, however
  it interleaves its calls, is proved once in the locale.
\<close>

definition HEAP_START :: usize where "HEAP_START = 0x444444440000"
definition HEAP_SIZE :: usize where "HEAP_SIZE = 100 * 1024"

subsection \<open>\<open>core::alloc::Layout\<close>\<close>

datatype Layout = Layout (layout_size: usize) (layout_align: usize)

definition is_power_of_two :: "usize \<Rightarrow> bool" where
  "is_power_of_two w \<longleftrightarrow> (\<exists>k<64. w = 2 ^ k)"

definition ISIZE_MAX :: nat where "ISIZE_MAX = 2 ^ 63 - 1"

definition from_size_align :: "usize \<Rightarrow> usize \<Rightarrow> (Layout, unit) result" where
  "from_size_align sz align =
     (if is_power_of_two align \<and> unat sz + (unat align - 1) \<le> ISIZE_MAX
      then Ok (Layout sz align) else Err ())"

text \<open>The layouts a program can hold, and those it may ask memory for: not of size zero.\<close>

definition valid_layout :: "Layout \<Rightarrow> bool" where
  "valid_layout l \<longleftrightarrow> from_size_align (layout_size l) (layout_align l) = Ok l"

definition valid_request :: "Layout \<Rightarrow> bool" where
  "valid_request l \<longleftrightarrow> valid_layout l \<and> 0 < unat (layout_size l)"

definition align_to :: "Layout \<Rightarrow> usize \<Rightarrow> (Layout, unit) result" where
  "align_to l align = from_size_align (layout_size l) (max (layout_align l) align)"

definition round_up :: "nat \<Rightarrow> nat \<Rightarrow> nat" where
  "round_up n a = (n + a - 1) div a * a"

definition pad_to_align :: "Layout \<Rightarrow> Layout" where
  "pad_to_align l = Layout (of_nat (round_up (unat (layout_size l)) (unat (layout_align l)))) (layout_align l)"

subsection \<open>\<open>align_up\<close>\<close>

definition align_up :: "usize \<Rightarrow> usize \<Rightarrow> usize outcome" where
  "align_up addr align =
     bind_out (add_ck addr align) (\<lambda>sum.
     bind_out (sub_ck sum 1) (\<lambda>sum1.
     bind_out (sub_ck align 1) (\<lambda>align1.
     Ret (sum1 AND NOT align1))))"

lemma and_not_mask:
  fixes x :: "'a::len word"
  shows "x AND NOT (mask k) = push_bit k (drop_bit k x)"
  by (rule bit_word_eqI) (auto simp: bit_simps)

lemma unat_and_not_mask:
  fixes x :: "'a::len word"
  shows "unat (x AND NOT (mask k)) = unat x div 2 ^ k * 2 ^ k"
proof -
  have le: "unat x div 2 ^ k * 2 ^ k \<le> unat x" by simp
  have "unat (push_bit k (drop_bit k x)) = take_bit LENGTH('a) (push_bit k (drop_bit k (unat x)))"
    by (simp only: unsigned_push_bit_eq unat_drop_bit_eq)
  also have "\<dots> = take_bit LENGTH('a) (unat x div 2 ^ k * 2 ^ k)"
    by (simp only: push_bit_eq_mult drop_bit_eq_div)
  also have "\<dots> = unat x div 2 ^ k * 2 ^ k"
    by (rule take_bit_nat_eq_self) (use le unat_bound [of x] in linarith)
  finally show ?thesis by (simp add: and_not_mask)
qed

lemma unat_of_nat_eq: "n < 2 ^ 64 \<Longrightarrow> unat (of_nat n :: usize) = n"
  by (simp add: unat_of_nat)

lemma unat_pow2:
  assumes "k < 64"
  shows "unat (2 ^ k :: usize) = 2 ^ k"
proof -
  have "(2::nat) ^ k < 2 ^ 64" using assms by (intro power_strict_increasing) simp_all
  moreover have "(2 ^ k :: usize) = of_nat (2 ^ k)" by simp
  ultimately show ?thesis by (simp add: unat_of_nat del: of_nat_power)
qed

lemma is_power_of_twoE:
  assumes "is_power_of_two a"
  obtains k where "k < 64" "a = 2 ^ k" "unat a = 2 ^ k"
  using assms unat_pow2 unfolding is_power_of_two_def by blast

lemma round_up_bounds:
  assumes "0 < a"
  shows "a dvd round_up n a" "n \<le> round_up n a" "round_up n a < n + a"
proof -
  show "a dvd round_up n a" by (simp add: round_up_def)
  have "(n + a - 1) div a * a + (n + a - 1) mod a = n + a - 1" by simp
  moreover have "(n + a - 1) mod a < a" using assms by simp
  ultimately show "n \<le> round_up n a" "round_up n a < n + a"
    using assms unfolding round_up_def by linarith+
qed

lemma round_up_least:
  assumes "0 < a" "a dvd m" "n \<le> m"
  shows "round_up n a \<le> m"
proof -
  obtain c where c: "m = a * c" using assms(2) by (rule dvdE)
  have "(n + a - 1) div a \<le> c"
  proof -
    have "n + a - 1 < a * (c + 1)" using assms c by (simp add: algebra_simps)
    then have "(n + a - 1) div a < c + 1" using assms(1) by (simp add: less_mult_imp_div_less mult.commute)
    then show ?thesis by simp
  qed
  then show ?thesis by (simp add: round_up_def c mult.commute)
qed

lemma align_up_eq:
  assumes "is_power_of_two align"
  shows "align_up addr align =
    (if unat addr + unat align < 2 ^ 64 then Ret (of_nat (round_up (unat addr) (unat align))) else Panic)"
proof -
  obtain k where k: "k < 64" "align = 2 ^ k" "unat align = 2 ^ k" using assms by (rule is_power_of_twoE)
  have one: "1 \<le> align" using k by (simp add: word_le_nat_alt)
  have "align - 1 = mask k" using k(2) by (simp add: mask_eq_exp_minus_1)
  show ?thesis
  proof (cases "unat addr + unat align < 2 ^ 64")
    case True
    then have sum: "add_ck addr align = Ret (addr + align)" and us: "unat (addr + align) = unat addr + unat align"
      by (simp_all add: add_ck_def unat_add_no_overflow)
    have one': "1 \<le> addr + align" using us k(3) by (simp add: word_le_nat_alt Suc_le_eq)
    have "unat (addr + align - 1) = unat addr + unat align - 1" using unat_sub [OF one'] us by simp
    then have "unat ((addr + align - 1) AND NOT (mask k)) = round_up (unat addr) (unat align)"
      by (simp add: unat_and_not_mask round_up_def k(3))
    then have "(addr + align - 1) AND NOT (mask k) = of_nat (round_up (unat addr) (unat align))"
      by (simp flip: \<open>unat (_ AND _) = _\<close>)
    then show ?thesis
      using True sum one one' \<open>align - 1 = mask k\<close> by (simp add: align_up_def)
  next
    case False
    then show ?thesis by (simp add: align_up_def add_ck_def)
  qed
qed

text \<open>
  For a power of two, \<open>align_up\<close> returns the least multiple of the alignment that is not
  below the address, and it panics exactly when the sum of the two overflows.
\<close>

theorem align_up_spec:
  assumes "is_power_of_two align"
  shows "case align_up addr align of
      Ret r \<Rightarrow> unat addr + unat align < 2 ^ 64 \<and> unat align dvd unat r \<and> unat addr \<le> unat r \<and>
        (\<forall>m. unat align dvd m \<and> unat addr \<le> m \<longrightarrow> unat r \<le> m)
    | Panic \<Rightarrow> 2 ^ 64 \<le> unat addr + unat align"
proof -
  have pos: "0 < unat align" using assms by (auto elim!: is_power_of_twoE)
  note b = round_up_bounds [OF pos, of "unat addr"]
  have "unat (of_nat (round_up (unat addr) (unat align)) :: usize) = round_up (unat addr) (unat align)"
    if "unat addr + unat align < 2 ^ 64"
    using b(3) that by (intro unat_of_nat_eq) simp
  then show ?thesis
    using b round_up_least [OF pos] by (simp add: align_up_eq [OF assms])
qed

theorem align_up_spec_witness:
  "is_power_of_two 4096 \<and> align_up 0x1001 4096 = Ret 0x2000 \<and> align_up 0x1000 4096 = Ret 0x1000"
proof -
  have p: "is_power_of_two 4096"
    unfolding is_power_of_two_def by (rule exI [of _ 12]) simp
  from align_up_spec [of 4096 4097] show ?thesis
    using p by (simp add: align_up_eq round_up_def)
qed

subsection \<open>The \<open>Dummy\<close> allocator\<close>

definition dummy_alloc :: "Layout \<Rightarrow> 's \<Rightarrow> usize outcome \<times> 's" where
  "dummy_alloc layout s = (Ret 0, s)"

definition dummy_dealloc :: "usize \<Rightarrow> Layout \<Rightarrow> 's \<Rightarrow> unit outcome \<times> 's" where
  "dummy_dealloc ptr layout s = (Panic, s)"

subsection \<open>The interface \<open>GlobalAlloc\<close> and its clients\<close>

definition extent :: "usize \<times> Layout \<Rightarrow> nat set" where
  "extent b = {unat (fst b)..<unat (fst b) + unat (layout_size (snd b))}"

text \<open>
  The blocks a client holds: inside the heap, aligned as asked, none of them null and no two
  of them overlapping.
\<close>

definition live_ok :: "nat \<Rightarrow> nat \<Rightarrow> (usize \<times> Layout) set \<Rightarrow> bool" where
  "live_ok lo hi live \<longleftrightarrow>
     finite live \<and>
     (\<forall>b\<in>live. fst b \<noteq> 0 \<and> valid_request (snd b) \<and>
        unat (layout_align (snd b)) dvd unat (fst b) \<and> extent b \<subseteq> {lo..<hi}) \<and>
     pairwise (\<lambda>b c. extent b \<inter> extent c = {}) live"

text \<open>
  A client: it makes requests \<open>req\<close> allows, gives back blocks it holds, and writes into blocks it
  holds (\<open>writes live s s'\<close>: \<open>s'\<close> is \<open>s\<close> after such a write). A call that does not return is
  \<open>None\<close>.
\<close>

type_synonym 's alloc_fn = "Layout \<Rightarrow> 's \<Rightarrow> (usize outcome \<times> 's) option"
type_synonym 's dealloc_fn = "usize \<Rightarrow> Layout \<Rightarrow> 's \<Rightarrow> unit outcome \<times> 's"
type_synonym 's write_rel = "(usize \<times> Layout) set \<Rightarrow> 's \<Rightarrow> 's \<Rightarrow> bool"

inductive client_reach ::
    "(Layout \<Rightarrow> bool) \<Rightarrow> 's alloc_fn \<Rightarrow> 's dealloc_fn \<Rightarrow> 's write_rel
       \<Rightarrow> 's \<Rightarrow> 's \<Rightarrow> (usize \<times> Layout) set \<Rightarrow> bool"
  for req alloc dealloc writes s0 where
  start: "client_reach req alloc dealloc writes s0 s0 {}"
| taken: "\<lbrakk>client_reach req alloc dealloc writes s0 s live; req l; alloc l s = Some (Ret p, s'); p \<noteq> 0\<rbrakk>
     \<Longrightarrow> client_reach req alloc dealloc writes s0 s' (insert (p, l) live)"
| refused: "\<lbrakk>client_reach req alloc dealloc writes s0 s live; req l; alloc l s = Some (Ret 0, s')\<rbrakk>
     \<Longrightarrow> client_reach req alloc dealloc writes s0 s' live"
| given_back: "\<lbrakk>client_reach req alloc dealloc writes s0 s live; (p, l) \<in> live; dealloc p l s = (Ret (), s')\<rbrakk>
     \<Longrightarrow> client_reach req alloc dealloc writes s0 s' (live - {(p, l)})"
| written: "\<lbrakk>client_reach req alloc dealloc writes s0 s live; writes live s s'\<rbrakk>
     \<Longrightarrow> client_reach req alloc dealloc writes s0 s' live"

locale global_alloc =
  fixes req :: "Layout \<Rightarrow> bool"
    and alloc :: "'s alloc_fn" and dealloc :: "'s dealloc_fn" and writes :: "'s write_rel"
    and inv :: "'s \<Rightarrow> (usize \<times> Layout) set \<Rightarrow> bool"
    and lo hi :: nat
  assumes inv_live: "inv s live \<Longrightarrow> live_ok lo hi live"
    and alloc_law: "\<lbrakk>inv s live; req l\<rbrakk> \<Longrightarrow>
      \<exists>p s'. alloc l s = Some (Ret p, s') \<and>
        (if p = 0 then inv s' live else (p, l) \<notin> live \<and> inv s' (insert (p, l) live))"
    and dealloc_law: "\<lbrakk>inv s live; (p, l) \<in> live\<rbrakk> \<Longrightarrow>
      \<exists>s'. dealloc p l s = (Ret (), s') \<and> inv s' (live - {(p, l)})"
    and write_law: "\<lbrakk>inv s live; writes live s s'\<rbrakk> \<Longrightarrow> inv s' live"
begin

lemma client_inv:
  assumes "client_reach req alloc dealloc writes s0 s live" and "inv s0 {}"
  shows "inv s live"
  using assms
proof (induction rule: client_reach.induct)
  case (taken s live l p s')
  then show ?case using alloc_law [of s live l] by auto
next
  case (refused s live l s')
  then show ?case using alloc_law [of s live l] by auto
next
  case (given_back s live p l s')
  then show ?case using dealloc_law [of s live p l] by auto
next
  case (written s live s')
  then show ?case using write_law by blast
qed

text \<open>What every client can rely on.\<close>

lemma client_safe:
  assumes "client_reach req alloc dealloc writes s0 s live" and "inv s0 {}"
  shows "live_ok lo hi live \<and>
    (req l \<longrightarrow> (\<exists>p s'. alloc l s = Some (Ret p, s') \<and>
       (p \<noteq> 0 \<longrightarrow> (p, l) \<notin> live \<and> live_ok lo hi (insert (p, l) live)))) \<and>
    (b \<in> live \<longrightarrow> (\<exists>s'. dealloc (fst b) (snd b) s = (Ret (), s')))"
proof -
  note inv = client_inv [OF assms]
  have "live_ok lo hi live" by (rule inv_live [OF inv])
  moreover have "req l \<longrightarrow> (\<exists>p s'. alloc l s = Some (Ret p, s') \<and>
       (p \<noteq> 0 \<longrightarrow> (p, l) \<notin> live \<and> live_ok lo hi (insert (p, l) live)))"
    using alloc_law [OF inv, of l] inv_live by (auto split: if_splits)
  moreover have "b \<in> live \<longrightarrow> (\<exists>s'. dealloc (fst b) (snd b) s = (Ret (), s'))"
    using dealloc_law [OF inv, of "fst b" "snd b"] by auto
  ultimately show ?thesis by blast
qed

end

lemma valid_requestD:
  assumes "valid_request l"
  shows "is_power_of_two (layout_align l)" "0 < unat (layout_size l)"
    "unat (layout_size l) + (unat (layout_align l) - 1) < 2 ^ 63" "0 < unat (layout_align l)"
    "unat (layout_align l) \<le> 2 ^ 63"
proof -
  show p: "is_power_of_two (layout_align l)" and "0 < unat (layout_size l)"
    and "unat (layout_size l) + (unat (layout_align l) - 1) < 2 ^ 63"
    using assms
    by (auto simp: valid_request_def valid_layout_def from_size_align_def ISIZE_MAX_def split: if_splits)
  from p obtain k where "k < 64" "unat (layout_align l) = 2 ^ k" by (rule is_power_of_twoE)
  then show "0 < unat (layout_align l)" "unat (layout_align l) \<le> 2 ^ 63"
    using power_increasing [of k 63 "2::nat"] by simp_all
qed

lemma live_ok_insert:
  assumes "live_ok lo hi live" "p \<noteq> 0" "valid_request l" "unat (layout_align l) dvd unat p"
    and "extent (p, l) \<subseteq> {lo..<hi}" "\<forall>b\<in>live. extent b \<inter> extent (p, l) = {}"
  shows "live_ok lo hi (insert (p, l) live)" and "(p, l) \<notin> live"
proof -
  show "live_ok lo hi (insert (p, l) live)"
    using assms unfolding live_ok_def by (auto simp: pairwise_insert)
  show "(p, l) \<notin> live"
    using assms(3,6) valid_requestD(2) [of l] by (fastforce simp: extent_def)
qed

lemma live_ok_subset: "live_ok lo hi live \<Longrightarrow> live' \<subseteq> live \<Longrightarrow> live_ok lo hi live'"
  unfolding live_ok_def by (meson finite_subset pairwise_subset subsetD)

lemma live_ok_empty [simp]: "live_ok lo hi {}"
  by (simp add: live_ok_def)

end
