(* ===== verification/Linked_List_Alloc.thy ===== *)
theory Linked_List_Alloc
  imports Allocator
begin

section \<open>The linked-list allocator (\<open>src/src/allocator/linked_list.rs\<close>)\<close>

text \<open>
  The free regions are linked through nodes that the allocator writes into the regions
  themselves. The memory is a map from addresses to nodes, a node of 16 bytes at the start of
  its region; the references of the code are addresses. The loop of \<open>find_region\<close> follows the
  links and need not end on a cyclic list, so it is a partial function.
\<close>

record ListNode =
  ll_size :: usize
  ll_next :: "usize option"

definition ListNode_new :: "usize \<Rightarrow> ListNode" where
  "ListNode_new sz = \<lparr> ll_size = sz, ll_next = None \<rparr>"

definition size_of_ListNode :: usize where "size_of_ListNode = 16"
definition align_of_ListNode :: usize where "align_of_ListNode = 8"

record LinkedListAllocator =
  ll_head :: ListNode
  ll_mem :: "usize \<Rightarrow> ListNode"

definition end_addr :: "usize \<Rightarrow> ListNode \<Rightarrow> usize outcome" where
  "end_addr start_addr node = add_ck start_addr (ll_size node)"

definition ll_new :: "(usize \<Rightarrow> ListNode) \<Rightarrow> LinkedListAllocator" where
  "ll_new mem = \<lparr> ll_head = ListNode_new 0, ll_mem = mem \<rparr>"

definition add_free_region ::
    "usize \<Rightarrow> usize \<Rightarrow> LinkedListAllocator \<Rightarrow> unit outcome \<times> LinkedListAllocator" where
  "add_free_region addr sz s =
     (case align_up addr align_of_ListNode of
        Panic \<Rightarrow> (Panic, s)
      | Ret a \<Rightarrow>
          if a \<noteq> addr then (Panic, s)
          else if \<not> sz \<ge> size_of_ListNode then (Panic, s)
          else
            let node = (ListNode_new sz)\<lparr> ll_next := ll_next (ll_head s) \<rparr> in
            (Ret (), s\<lparr> ll_head := (ll_head s)\<lparr> ll_next := Some addr \<rparr>,
                        ll_mem := (ll_mem s)(addr := node) \<rparr>))"

definition ll_init :: "usize \<Rightarrow> usize \<Rightarrow> LinkedListAllocator \<Rightarrow> unit outcome \<times> LinkedListAllocator" where
  "ll_init heap_start heap_size s = add_free_region heap_start heap_size s"

definition alloc_from_region ::
    "usize \<Rightarrow> ListNode \<Rightarrow> usize \<Rightarrow> usize \<Rightarrow> (usize, unit) result outcome" where
  "alloc_from_region start_addr region sz align =
     bind_out (align_up start_addr align) (\<lambda>alloc_start.
     case checked_add alloc_start sz of
       None \<Rightarrow> Ret (Err ())
     | Some alloc_end \<Rightarrow>
         bind_out (end_addr start_addr region) (\<lambda>region_end.
         if alloc_end > region_end then Ret (Err ())
         else
           bind_out (sub_ck region_end alloc_end) (\<lambda>excess_size.
           if excess_size > 0 \<and> excess_size < size_of_ListNode then Ret (Err ())
           else Ret (Ok alloc_start))))"

text \<open>\<open>current\<close> is the head (\<open>None\<close>) or the node at an address.\<close>

definition next_of :: "LinkedListAllocator \<Rightarrow> usize option \<Rightarrow> usize option" where
  "next_of s cur = (case cur of None \<Rightarrow> ll_next (ll_head s) | Some a \<Rightarrow> ll_next (ll_mem s a))"

definition set_next :: "usize option \<Rightarrow> usize option \<Rightarrow> LinkedListAllocator \<Rightarrow> LinkedListAllocator" where
  "set_next cur v s =
     (case cur of
        None \<Rightarrow> s\<lparr> ll_head := (ll_head s)\<lparr> ll_next := v \<rparr> \<rparr>
      | Some a \<Rightarrow> s\<lparr> ll_mem := (ll_mem s)(a := (ll_mem s a)\<lparr> ll_next := v \<rparr>) \<rparr>)"

partial_function (option) find_loop ::
    "usize \<Rightarrow> usize \<Rightarrow> usize option \<Rightarrow> LinkedListAllocator
       \<Rightarrow> ((usize \<times> usize) option outcome \<times> LinkedListAllocator) option" where
  [code]: "find_loop sz align cur s =
     (case next_of s cur of
        None \<Rightarrow> Some (Ret None, s)
      | Some region \<Rightarrow>
          (case alloc_from_region region (ll_mem s region) sz align of
             Panic \<Rightarrow> Some (Panic, s)
           | Ret (Ok alloc_start) \<Rightarrow>
               let nxt = next_of s (Some region);
                   s1 = set_next (Some region) None s;
                   s2 = set_next cur nxt s1 in
               Some (Ret (Some (region, alloc_start)), s2)
           | Ret (Err _) \<Rightarrow> find_loop sz align (Some region) s))"

definition find_region ::
    "usize \<Rightarrow> usize \<Rightarrow> LinkedListAllocator
       \<Rightarrow> ((usize \<times> usize) option outcome \<times> LinkedListAllocator) option" where
  "find_region sz align s = find_loop sz align None s"

definition size_align :: "Layout \<Rightarrow> (usize \<times> usize) outcome" where
  "size_align layout =
     (case align_to layout align_of_ListNode of
        Err _ \<Rightarrow> Panic
      | Ok l \<Rightarrow>
          let l' = pad_to_align l in
          Ret (max (layout_size l') size_of_ListNode, layout_align l'))"

definition ll_alloc :: "LinkedListAllocator alloc_fn" where
  "ll_alloc layout s =
     (case size_align layout of
        Panic \<Rightarrow> Some (Panic, s)
      | Ret (sz, align) \<Rightarrow>
          (case find_region sz align s of
             None \<Rightarrow> None
           | Some (Panic, s1) \<Rightarrow> Some (Panic, s1)
           | Some (Ret None, s1) \<Rightarrow> Some (Ret 0, s1)
           | Some (Ret (Some (region, alloc_start)), s1) \<Rightarrow>
               Some (case checked_add alloc_start sz of
                 None \<Rightarrow> (Panic, s1)
               | Some alloc_end \<Rightarrow>
                   (case bind_out (end_addr region (ll_mem s1 region)) (\<lambda>e. sub_ck e alloc_end) of
                      Panic \<Rightarrow> (Panic, s1)
                    | Ret excess_size \<Rightarrow>
                        if excess_size > 0 then
                          (case add_free_region alloc_end excess_size s1 of
                             (Panic, s2) \<Rightarrow> (Panic, s2)
                           | (Ret _, s2) \<Rightarrow> (Ret alloc_start, s2))
                        else (Ret alloc_start, s1)))))"

definition ll_dealloc :: "LinkedListAllocator dealloc_fn" where
  "ll_dealloc ptr layout s =
     (case size_align layout of
        Panic \<Rightarrow> (Panic, s)
      | Ret (sz, _) \<Rightarrow> add_free_region ptr sz s)"

subsection \<open>The free list\<close>

text \<open>The regions, as address and size, that the links from a node lead through.\<close>

fun region_list :: "(usize \<Rightarrow> ListNode) \<Rightarrow> usize option \<Rightarrow> (usize \<times> usize) list \<Rightarrow> bool" where
  "region_list mem p [] \<longleftrightarrow> p = None"
| "region_list mem p (r # rs) \<longleftrightarrow>
     p = Some (fst r) \<and> ll_size (mem (fst r)) = snd r \<and> region_list mem (ll_next (mem (fst r))) rs"

lemma region_list_frame:
  assumes "region_list mem p rs" and "\<forall>a\<in>fst ` set rs. mem' a = mem a"
  shows "region_list mem' p rs"
  using assms by (induction rs arbitrary: p) auto

text \<open>First fit on the list of regions.\<close>

fun find_fit ::
    "usize \<Rightarrow> usize \<Rightarrow> (usize \<times> usize) list
       \<Rightarrow> ((usize \<times> usize) list \<times> (usize \<times> usize) \<times> usize \<times> (usize \<times> usize) list) option outcome" where
  "find_fit sz align [] = Ret None"
| "find_fit sz align (r # rs) =
     (case alloc_from_region (fst r) (ListNode_new (snd r)) sz align of
        Panic \<Rightarrow> Panic
      | Ret (Ok start) \<Rightarrow> Ret (Some ([], r, start, rs))
      | Ret (Err _) \<Rightarrow>
          bind_out (find_fit sz align rs) (\<lambda>res.
          Ret (map_option (\<lambda>(pre, q, start, post). (r # pre, q, start, post)) res)))"

lemma alloc_from_region_size:
  "alloc_from_region a (mem a) sz align = alloc_from_region a (ListNode_new (ll_size (mem a))) sz align"
  unfolding alloc_from_region_def end_addr_def ListNode_new_def ListNode.select_convs ..

text \<open>The loop of \<open>find_region\<close> ends on every list and is first fit on its regions.\<close>

lemma find_loop_fit:
  assumes "region_list (ll_mem s) (next_of s cur) rs" and "distinct (map fst rs)"
    and "\<forall>a. cur = Some a \<longrightarrow> a \<notin> fst ` set rs"
  shows "case find_fit sz align rs of
      Panic \<Rightarrow> find_loop sz align cur s = Some (Panic, s)
    | Ret None \<Rightarrow> find_loop sz align cur s = Some (Ret None, s)
    | Ret (Some (pre, r, start, post)) \<Rightarrow> rs = pre @ r # post \<and>
        alloc_from_region (fst r) (ListNode_new (snd r)) sz align = Ret (Ok start) \<and>
        (\<exists>s'. find_loop sz align cur s = Some (Ret (Some (fst r, start)), s') \<and>
           region_list (ll_mem s') (next_of s' cur) (pre @ post) \<and>
           ll_size (ll_mem s' (fst r)) = snd r \<and>
           (\<forall>a. a \<notin> fst ` set rs \<longrightarrow> cur \<noteq> Some a \<longrightarrow> ll_mem s' a = ll_mem s a) \<and>
           (cur \<noteq> None \<longrightarrow> ll_head s' = ll_head s) \<and>
           (\<forall>a. cur = Some a \<longrightarrow> ll_size (ll_mem s' a) = ll_size (ll_mem s a)))"
  using assms
proof (induction rs arbitrary: cur)
  case Nil
  then show ?case by (simp add: find_loop.simps)
next
  case (Cons r rs)
  let ?a = "fst r"
  have nx: "next_of s cur = Some ?a" and sz: "ll_size (ll_mem s ?a) = snd r"
    and tl: "region_list (ll_mem s) (next_of s (Some ?a)) rs"
    and fresh: "?a \<notin> fst ` set rs" "distinct (map fst rs)" "cur \<noteq> Some ?a"
    using Cons.prems by (auto simp: next_of_def)
  have step: "find_loop sz align cur s =
      (case alloc_from_region ?a (ListNode_new (snd r)) sz align of
         Panic \<Rightarrow> Some (Panic, s)
       | Ret (Ok start) \<Rightarrow>
           Some (Ret (Some (?a, start)), set_next cur (next_of s (Some ?a)) (set_next (Some ?a) None s))
       | Ret (Err _) \<Rightarrow> find_loop sz align (Some ?a) s)"
    using nx alloc_from_region_size [of ?a "ll_mem s" sz align] sz
    by (subst find_loop.simps) (simp add: Let_def split: outcome.split result.split)
  show ?case
  proof (cases "alloc_from_region ?a (ListNode_new (snd r)) sz align")
    case Panic
    then show ?thesis using step by simp
  next
    case (Ret res)
    show ?thesis
    proof (cases res)
      case (Ok start)
      let ?s' = "set_next cur (next_of s (Some ?a)) (set_next (Some ?a) None s)"
      have "next_of ?s' cur = next_of s (Some ?a)" using fresh(3) by (auto simp: next_of_def set_next_def split: option.splits)
      moreover have "region_list (ll_mem ?s') (next_of s (Some ?a)) rs"
      proof (rule region_list_frame [OF tl], rule ballI)
        fix a assume "a \<in> fst ` set rs"
        then have "a \<noteq> ?a" "cur \<noteq> Some a" using fresh(1) Cons.prems(3) by (metis, auto)
        then show "ll_mem ?s' a = ll_mem s a" by (auto simp: set_next_def split: option.splits)
      qed
      ultimately show ?thesis
        using Ret Ok step sz fresh(3) by (auto simp: set_next_def split: option.splits)
    next
      case (Err u)
      note IH = Cons.IH [OF tl fresh(2)]
      have run: "find_loop sz align cur s = find_loop sz align (Some ?a) s" using step Ret Err by simp
      show ?thesis
      proof (cases "find_fit sz align rs")
        case Panic
        then show ?thesis using IH fresh run Ret Err by simp
      next
        case (Ret res')
        show ?thesis
        proof (cases res')
          case None
          then show ?thesis using IH fresh run Ret Err \<open>alloc_from_region _ _ _ _ = _\<close> by simp
        next
          case (Some q)
          obtain pre r' start post where q: "q = (pre, r', start, post)" by (cases q) auto
          from IH Ret Some q fresh(1) obtain s' where
            "rs = pre @ r' # post"
            "alloc_from_region (fst r') (ListNode_new (snd r')) sz align = Ret (Ok start)"
            "find_loop sz align (Some ?a) s = Some (Ret (Some (fst r', start)), s')"
            "region_list (ll_mem s') (next_of s' (Some ?a)) (pre @ post)"
            "ll_size (ll_mem s' (fst r')) = snd r'"
            and frame: "\<forall>a. a \<notin> fst ` set rs \<longrightarrow> Some ?a \<noteq> Some a \<longrightarrow> ll_mem s' a = ll_mem s a"
            and hd: "ll_head s' = ll_head s" "ll_size (ll_mem s' ?a) = ll_size (ll_mem s ?a)"
            by auto
          moreover have "next_of s' cur = Some ?a"
            using nx frame hd Cons.prems(3) by (auto simp: next_of_def split: option.splits)
          ultimately show ?thesis
            using run sz Ret Some q Err \<open>alloc_from_region ?a _ _ _ = _\<close> Cons.prems(3)
            by (auto simp: next_of_def)
        qed
      qed
    qed
  qed
qed

subsection \<open>Sizes and fits\<close>

lemma power_of_two_dvd:
  assumes "is_power_of_two a" "is_power_of_two b" "unat a \<le> unat b"
  shows "unat a dvd unat b"
proof -
  obtain i j where "unat a = 2 ^ i" "unat b = 2 ^ j"
    using assms(1,2) by (auto elim!: is_power_of_twoE)
  with assms(3) show ?thesis by (simp add: le_imp_power_dvd)
qed

lemma is_power_of_two_8: "is_power_of_two 8"
  unfolding is_power_of_two_def by (rule exI [of _ 3]) simp

lemma unat_max: "unat (max a b :: usize) = max (unat a) (unat b)"
  by (simp add: max_def word_le_nat_alt)

lemma size_align_facts:
  assumes req: "valid_request l" and sa: "size_align l = Ret (sz, al)"
  shows "is_power_of_two al" "8 dvd unat al" "unat (layout_align l) dvd unat al"
    "unat (layout_size l) \<le> unat sz" "16 \<le> unat sz" "8 dvd unat sz" "unat sz < 2 ^ 63"
    "unat al \<le> 2 ^ 63"
proof -
  note v = valid_requestD [OF req]
  let ?m = "max (layout_align l) 8"
  have al: "al = ?m" "is_power_of_two ?m"
    and fit: "unat (layout_size l) + (unat ?m - 1) \<le> ISIZE_MAX"
    and sz: "sz = max (of_nat (round_up (unat (layout_size l)) (unat ?m))) 16"
    using sa
    by (auto simp: size_align_def align_to_def from_size_align_def align_of_ListNode_def
        size_of_ListNode_def pad_to_align_def Let_def split: if_splits)
  show p: "is_power_of_two al" using al by simp
  have le: "unat (layout_align l) \<le> unat al" "unat (8::usize) \<le> unat al" by (simp_all add: al unat_max)
  show d8: "8 dvd unat al" using power_of_two_dvd [OF is_power_of_two_8 p le(2)] by simp
  show "unat (layout_align l) dvd unat al" by (rule power_of_two_dvd [OF v(1) p le(1)])
  have pos: "0 < unat al" using le by simp
  note r = round_up_bounds [OF pos, of "unat (layout_size l)"]
  have small: "round_up (unat (layout_size l)) (unat al) < 2 ^ 63"
    using r(3) fit pos by (simp add: al ISIZE_MAX_def)
  from small have "unat sz = max (round_up (unat (layout_size l)) (unat al)) 16"
    by (simp add: sz unat_max al(1) unat_of_nat_eq)
  moreover have "8 dvd round_up (unat (layout_size l)) (unat al)" using d8 r(1) by (rule dvd_trans)
  ultimately show "unat (layout_size l) \<le> unat sz" "16 \<le> unat sz" "8 dvd unat sz" "unat sz < 2 ^ 63"
    using r(2) small by (auto simp: max_def)
  from p show "unat al \<le> 2 ^ 63"
    by (rule is_power_of_twoE) (simp add: power_increasing [of _ 63 "2::nat", simplified])
qed

definition fits :: "usize \<Rightarrow> usize \<Rightarrow> usize \<times> usize \<Rightarrow> bool" where
  "fits sz align r \<longleftrightarrow>
     (let start = round_up (unat (fst r)) (unat align); stop = unat (fst r) + unat (snd r) in
      start + unat sz \<le> stop \<and> (start + unat sz = stop \<or> start + unat sz + 16 \<le> stop))"

lemma alloc_from_region_eq:
  assumes al: "is_power_of_two align" and "unat (fst r) + unat align < 2 ^ 64"
    and "unat (fst r) + unat (snd r) < 2 ^ 64"
  shows "alloc_from_region (fst r) (ListNode_new (snd r)) sz align =
    Ret (if fits sz align r then Ok (of_nat (round_up (unat (fst r)) (unat align))) else Err ())"
proof -
  have pos: "0 < unat align" using al by (auto elim!: is_power_of_twoE)
  let ?st = "of_nat (round_up (unat (fst r)) (unat align)) :: usize" and ?e = "fst r + snd r"
  have st: "unat ?st = round_up (unat (fst r)) (unat align)"
    using round_up_bounds(3) [OF pos, of "unat (fst r)"] assms(2) by (intro unat_of_nat_eq) simp
  have up: "align_up (fst r) align = Ret ?st" using assms(2) by (simp add: align_up_eq [OF al])
  have e: "end_addr (fst r) (ListNode_new (snd r)) = Ret ?e" "unat ?e = unat (fst r) + unat (snd r)"
    using assms(3) by (simp_all add: end_addr_def ListNode_new_def add_ck_def unat_add_no_overflow)
  show ?thesis
  proof (cases "unat ?st + unat sz \<le> unat ?e")
    case False
    then have nofit: "\<not> fits sz align r" by (simp add: fits_def Let_def st e)
    have "checked_add ?st sz = Some a \<Longrightarrow> ?e < a" for a
      using False checked_add_Some_iff [of ?st sz a] by (simp add: word_less_nat_alt)
    with nofit show ?thesis
      by (cases "checked_add ?st sz") (simp_all add: alloc_from_region_def up e)
  next
    case True
    let ?a = "?st + sz"
    have lt: "unat ?st + unat sz < 2 ^ 64" using True unat_bound [of ?e] by simp
    then have a: "checked_add ?st sz = Some ?a" "unat ?a = unat ?st + unat sz"
      by (simp_all add: checked_add_def unat_add_no_overflow)
    have le: "?a \<le> ?e" using True a by (simp add: word_le_nat_alt)
    then have x: "unat (?e - ?a) = unat ?e - unat ?a" by (rule unat_sub)
    have "fits sz align r \<longleftrightarrow> \<not> (?e - ?a > 0 \<and> ?e - ?a < size_of_ListNode)"
      using True a e st
      by (auto simp: fits_def Let_def word_less_nat_alt x size_of_ListNode_def)
    with le a show ?thesis by (auto simp: alloc_from_region_def up e not_less)
  qed
qed

subsection \<open>The invariant\<close>

definition iv :: "usize \<times> usize \<Rightarrow> nat set" where
  "iv r = {unat (fst r)..<unat (fst r) + unat (snd r)}"

text \<open>The block that is really taken for a layout, and the layouts that can be served.\<close>

definition adj :: "usize \<times> Layout \<Rightarrow> usize \<times> usize" where
  "adj b = (fst b, case size_align (snd b) of Ret (sz, al) \<Rightarrow> sz | Panic \<Rightarrow> 0)"

definition ll_servable :: "Layout \<Rightarrow> bool" where
  "ll_servable l \<longleftrightarrow> valid_request l \<and> size_align l \<noteq> Panic"

definition regions_ok :: "nat \<Rightarrow> nat \<Rightarrow> (usize \<times> usize) list \<Rightarrow> bool" where
  "regions_ok lo hi rs \<longleftrightarrow>
     distinct rs \<and> (\<forall>r\<in>set rs. 8 dvd unat (fst r) \<and> 16 \<le> unat (snd r) \<and> iv r \<subseteq> {lo..<hi}) \<and>
     pairwise (\<lambda>r q. iv r \<inter> iv q = {}) (set rs)"

definition held_ok :: "nat \<Rightarrow> nat \<Rightarrow> (usize \<times> Layout) set \<Rightarrow> bool" where
  "held_ok lo hi live \<longleftrightarrow>
     live_ok lo hi live \<and>
     (\<forall>b\<in>live. ll_servable (snd b) \<and> 8 dvd unat (fst b) \<and> iv (adj b) \<subseteq> {lo..<hi}) \<and>
     pairwise (\<lambda>b c. iv (adj b) \<inter> iv (adj c) = {}) live"

definition ll_inv :: "nat \<Rightarrow> nat \<Rightarrow> LinkedListAllocator \<Rightarrow> (usize \<times> Layout) set \<Rightarrow> bool" where
  "ll_inv lo hi s live \<longleftrightarrow>
     0 < lo \<and> hi \<le> 2 ^ 63 \<and> held_ok lo hi live \<and>
     (\<exists>rs. region_list (ll_mem s) (ll_next (ll_head s)) rs \<and> regions_ok lo hi rs \<and>
        (\<forall>b\<in>live. \<forall>r\<in>set rs. iv (adj b) \<inter> iv r = {}))"

text \<open>The client writes bytes of its blocks: a node that meets none of them stays.\<close>

definition ll_writes :: "LinkedListAllocator write_rel" where
  "ll_writes live s s' \<longleftrightarrow>
     ll_head s' = ll_head s \<and>
     (\<forall>a. (\<forall>b\<in>live. {unat a..<unat a + 16} \<inter> extent b = {}) \<longrightarrow> ll_mem s' a = ll_mem s a)"

lemma adj_Ret: "size_align l = Ret (sz, al) \<Longrightarrow> adj (p, l) = (p, sz)"
  by (simp add: adj_def)

lemma ll_servableE:
  assumes "ll_servable l"
  obtains sz al where "size_align l = Ret (sz, al)" "valid_request l"
  using assms by (cases "size_align l") (auto simp: ll_servable_def)

lemma extent_adj: "ll_servable (snd b) \<Longrightarrow> extent b \<subseteq> iv (adj b)"
  by (cases b, erule ll_servableE) (use size_align_facts(4) in \<open>fastforce simp: extent_def iv_def adj_def\<close>)

lemma iv_nonempty: "16 \<le> unat (snd r) \<Longrightarrow> unat (fst r) \<in> iv r \<and> {unat (fst r)..<unat (fst r) + 16} \<subseteq> iv r"
  by (auto simp: iv_def)

lemma regions_ok_distinct_fst:
  assumes "regions_ok lo hi rs"
  shows "distinct (map fst rs)"
proof -
  have "inj_on fst (set rs)"
  proof (rule inj_onI)
    fix r q assume rq: "r \<in> set rs" "q \<in> set rs" "fst r = fst q"
    then have "unat (fst r) \<in> iv r \<inter> iv q" using assms iv_nonempty by (metis IntI regions_ok_def)
    moreover have "pairwise (\<lambda>r q. iv r \<inter> iv q = {}) (set rs)" using assms by (simp add: regions_ok_def)
    ultimately show "r = q" using pairwiseD [of _ "set rs" r q] rq(1,2) by blast
  qed
  with assms show ?thesis by (simp add: distinct_map regions_ok_def)
qed

lemma regions_ok_Cons:
  "regions_ok lo hi (r # rs) \<longleftrightarrow>
     regions_ok lo hi rs \<and> 8 dvd unat (fst r) \<and> 16 \<le> unat (snd r) \<and> iv r \<subseteq> {lo..<hi} \<and>
     (\<forall>q\<in>set rs. iv r \<inter> iv q = {})"
proof -
  have "r \<notin> set rs" if "16 \<le> unat (snd r)" "\<forall>q\<in>set rs. iv r \<inter> iv q = {}"
    using that iv_nonempty by blast
  moreover have "(\<forall>q\<in>set rs. iv r \<inter> iv q = {}) \<longleftrightarrow>
      (\<forall>q. q \<in> set rs \<and> q \<noteq> r \<longrightarrow> iv r \<inter> iv q = {} \<and> iv q \<inter> iv r = {})" if "r \<notin> set rs"
    using that by (metis Int_commute)
  ultimately show ?thesis unfolding regions_ok_def by (simp add: pairwise_insert) blast
qed

lemma regions_ok_middle:
  assumes "regions_ok lo hi (pre @ r # post)"
  shows "regions_ok lo hi (pre @ post)" "\<forall>q\<in>set (pre @ post). iv r \<inter> iv q = {}"
    "8 dvd unat (fst r)" "16 \<le> unat (snd r)" "iv r \<subseteq> {lo..<hi}"
proof -
  have "regions_ok lo hi (r # pre @ post)" using assms by (auto simp: regions_ok_def)
  then show "regions_ok lo hi (pre @ post)" "\<forall>q\<in>set (pre @ post). iv r \<inter> iv q = {}"
    "8 dvd unat (fst r)" "16 \<le> unat (snd r)" "iv r \<subseteq> {lo..<hi}"
    by (simp_all add: regions_ok_Cons)
qed

lemma add_free_region_ok:
  assumes "8 dvd unat addr" "16 \<le> unat sz" "unat addr + 8 < 2 ^ 64"
    and list: "region_list (ll_mem s) (ll_next (ll_head s)) rs" and fresh: "addr \<notin> fst ` set rs"
  shows "\<exists>s'. add_free_region addr sz s = (Ret (), s') \<and>
    region_list (ll_mem s') (ll_next (ll_head s')) ((addr, sz) # rs)"
proof -
  have "round_up (unat addr) 8 = unat addr" using assms(1) round_up_least [of 8 "unat addr" "unat addr"]
      round_up_bounds(2) [of 8 "unat addr"] by simp
  then have "align_up addr align_of_ListNode = Ret addr"
    using assms(3) by (simp add: align_up_eq is_power_of_two_8 align_of_ListNode_def)
  moreover have "size_of_ListNode \<le> sz" using assms(2) by (simp add: size_of_ListNode_def word_le_nat_alt)
  moreover have "region_list ((ll_mem s)(addr := n)) (ll_next (ll_head s)) rs" for n
    by (rule region_list_frame [OF list]) (use fresh in auto)
  ultimately show ?thesis by (simp add: add_free_region_def Let_def ListNode_new_def)
qed

subsection \<open>The laws of the interface\<close>

lemma find_fit_cases:
  assumes "is_power_of_two al" "unat al \<le> 2 ^ 63" "hi \<le> 2 ^ 63"
    and "\<forall>r\<in>set rs. 16 \<le> unat (snd r) \<and> iv r \<subseteq> {lo..<hi}"
  obtains (none) "find_fit sz al rs = Ret None" "\<forall>r\<in>set rs. \<not> fits sz al r"
  | (found) pre r post where "find_fit sz al rs =
        Ret (Some (pre, r, of_nat (round_up (unat (fst r)) (unat al)), post))"
      "rs = pre @ r # post" "fits sz al r" "\<forall>q\<in>set pre. \<not> fits sz al q"
  using assms(4)
proof (induction rs arbitrary: thesis)
  case Nil
  then show ?case by simp
next
  case (Cons r rs)
  have "unat (fst r) + unat (snd r) - 1 \<in> iv r" using Cons.prems(3) by (auto simp: iv_def)
  then have "unat (fst r) + unat (snd r) \<le> hi" using Cons.prems(3) by force
  moreover have "unat (fst r) < hi" using calculation Cons.prems(3) by simp
  ultimately have a: "alloc_from_region (fst r) (ListNode_new (snd r)) sz al =
      Ret (if fits sz al r then Ok (of_nat (round_up (unat (fst r)) (unat al))) else Err ())"
    using assms(2,3) by (intro alloc_from_region_eq [OF assms(1)]) simp_all
  show ?case
  proof (cases "fits sz al r")
    case True
    then show ?thesis using Cons.prems(2) [of "[]" r rs] a by simp
  next
    case False
    show ?thesis
    proof (rule Cons.IH)
      show "thesis" if "find_fit sz al rs = Ret None" "\<forall>r\<in>set rs. \<not> fits sz al r"
        using that Cons.prems(1) a False by simp
      show "thesis" if "find_fit sz al rs =
          Ret (Some (pre, q, of_nat (round_up (unat (fst q)) (unat al)), post))"
        "rs = pre @ q # post" "fits sz al q" "\<forall>q\<in>set pre. \<not> fits sz al q" for pre q post
        using that Cons.prems(2) [of "r # pre" q post] a False by simp
    qed (use Cons.prems(3) in simp)
  qed
qed

lemma held_ok_insert:
  assumes held: "held_ok lo hi live" and l: "ll_servable l" "size_align l = Ret (sz, al)"
    and p: "p \<noteq> 0" "unat al dvd unat p" "iv (p, sz) \<subseteq> {lo..<hi}"
    and apart: "\<forall>b\<in>live. iv (adj b) \<inter> iv (p, sz) = {}"
  shows "held_ok lo hi (insert (p, l) live)" and "(p, l) \<notin> live"
proof -
  have req: "valid_request l" using l(1) by (simp add: ll_servable_def)
  note f = size_align_facts [OF req l(2)]
  have ext: "extent (p, l) \<subseteq> iv (p, sz)" using extent_adj [of "(p, l)"] l by (simp add: adj_Ret)
  have "unat (layout_align l) dvd unat p" using f(3) p(2) by (rule dvd_trans)
  moreover have "\<forall>b\<in>live. extent b \<inter> extent (p, l) = {}"
    using apart ext extent_adj held by (fastforce simp: held_ok_def)
  ultimately have new: "live_ok lo hi (insert (p, l) live)" "(p, l) \<notin> live"
    using live_ok_insert [of lo hi live p l] held p ext req by (auto simp: held_ok_def)
  then show "(p, l) \<notin> live" by simp
  have "8 dvd unat p" using f(2) p(2) by (rule dvd_trans)
  then show "held_ok lo hi (insert (p, l) live)"
    using held new l p(3) apart
    by (auto simp: held_ok_def pairwise_insert adj_Ret Int_commute)
qed

lemma fits_split:
  assumes "fits sz al r" "is_power_of_two al" "unat al \<le> 2 ^ 63" "hi \<le> 2 ^ 63" "16 \<le> unat (snd r)"
    and "iv r \<subseteq> {lo..<hi}" "8 dvd unat al" "8 dvd unat sz"
  defines "start \<equiv> of_nat (round_up (unat (fst r)) (unat al)) :: usize"
  shows "unat al dvd unat start" "unat (fst r) \<le> unat start"
    "unat (start + sz) = unat start + unat sz" "checked_add start sz = Some (start + sz)"
    "add_ck (fst r) (snd r) = Ret (fst r + snd r)"
    "sub_ck (fst r + snd r) (start + sz) = Ret (fst r + snd r - (start + sz))"
    "unat start + unat sz + unat (fst r + snd r - (start + sz)) = unat (fst r) + unat (snd r)"
    "unat (fst r + snd r - (start + sz)) = 0 \<or> 16 \<le> unat (fst r + snd r - (start + sz))"
    "8 dvd unat (start + sz)" "unat (start + sz) + 8 < 2 ^ 64"
proof -
  have pos: "0 < unat al" using assms(2) by (auto elim!: is_power_of_twoE)
  note b = round_up_bounds [OF pos, of "unat (fst r)"]
  have "unat (fst r) + unat (snd r) - 1 \<in> iv r" using assms(5) by (auto simp: iv_def)
  then have top: "unat (fst r) + unat (snd r) \<le> hi" using assms(6) by force
  have st: "unat start = round_up (unat (fst r)) (unat al)"
    unfolding start_def using b(3) top assms(3-5) by (intro unat_of_nat_eq) simp
  show al: "unat al dvd unat start" and "unat (fst r) \<le> unat start" using b st by simp_all
  have fit: "unat start + unat sz \<le> unat (fst r) + unat (snd r)"
    "unat start + unat sz = unat (fst r) + unat (snd r) \<or> unat start + unat sz + 16 \<le> unat (fst r) + unat (snd r)"
    using assms(1) st by (simp_all add: fits_def Let_def)
  show e: "unat (start + sz) = unat start + unat sz" and "checked_add start sz = Some (start + sz)"
    using fit top assms(4) by (simp_all add: checked_add_def unat_add_no_overflow)
  show "add_ck (fst r) (snd r) = Ret (fst r + snd r)" using top assms(4) by (simp add: add_ck_def)
  have r: "unat (fst r + snd r) = unat (fst r) + unat (snd r)"
    using top assms(4) by (intro unat_add_no_overflow) simp
  have le: "start + sz \<le> fst r + snd r" using fit e r by (simp add: word_le_nat_alt)
  then show "sub_ck (fst r + snd r) (start + sz) = Ret (fst r + snd r - (start + sz))" by simp
  from unat_sub [OF le] fit e r
  show "unat start + unat sz + unat (fst r + snd r - (start + sz)) = unat (fst r) + unat (snd r)"
    "unat (fst r + snd r - (start + sz)) = 0 \<or> 16 \<le> unat (fst r + snd r - (start + sz))"
    by linarith+
  show "8 dvd unat (start + sz)" using e al assms(7,8) by (metis dvd_add dvd_trans)
  show "unat (start + sz) + 8 < 2 ^ 64" using e fit top assms(4) by simp
qed

lemma ll_invE:
  assumes "ll_inv lo hi s live"
  obtains rs where "0 < lo" "hi \<le> 2 ^ 63" "held_ok lo hi live"
    "region_list (ll_mem s) (next_of s None) rs" "regions_ok lo hi rs"
    "\<forall>b\<in>live. \<forall>r\<in>set rs. iv (adj b) \<inter> iv r = {}"
  using assms by (auto simp: ll_inv_def next_of_def)

lemma ll_invI:
  assumes "0 < lo" "hi \<le> 2 ^ 63" "held_ok lo hi live"
    "region_list (ll_mem s) (next_of s None) rs" "regions_ok lo hi rs"
    "\<forall>b\<in>live. \<forall>r\<in>set rs. iv (adj b) \<inter> iv r = {}"
  shows "ll_inv lo hi s live"
  using assms by (auto simp: ll_inv_def next_of_def)

lemma region_fst_notin:
  assumes "regions_ok lo hi rs" "\<forall>q\<in>set rs. iv r \<inter> iv q = {}" "unat a \<in> iv r"
  shows "a \<notin> fst ` set rs"
proof
  assume "a \<in> fst ` set rs"
  then obtain q where q: "q \<in> set rs" "a = fst q" by auto
  then have "unat a \<in> iv q" using assms(1) iv_nonempty [of q] by (simp add: regions_ok_def)
  with assms(2,3) q show False by blast
qed

lemma ll_alloc_law:
  assumes inv: "ll_inv lo hi s live" and l: "ll_servable l"
  shows "\<exists>p s'. ll_alloc l s = Some (Ret p, s') \<and>
    (if p = 0 then ll_inv lo hi s' live
     else (p, l) \<notin> live \<and> ll_inv lo hi s' (insert (p, l) live))"
proof -
  obtain rs where lo: "0 < lo" and hi: "hi \<le> 2 ^ 63" and held: "held_ok lo hi live"
    and list: "region_list (ll_mem s) (next_of s None) rs" and reg: "regions_ok lo hi rs"
    and apart: "\<forall>b\<in>live. \<forall>r\<in>set rs. iv (adj b) \<inter> iv r = {}"
    using inv by (rule ll_invE)
  obtain sz al where sa: "size_align l = Ret (sz, al)" and req: "valid_request l"
    using l by (rule ll_servableE)
  note f = size_align_facts [OF req sa]
  have rs: "\<forall>r\<in>set rs. 16 \<le> unat (snd r) \<and> iv r \<subseteq> {lo..<hi}" using reg by (simp add: regions_ok_def)
  note loop = find_loop_fit [OF list regions_ok_distinct_fst [OF reg], of sz al]
  show ?thesis
  proof (cases rule: find_fit_cases [OF f(1,8) hi rs, of sz])
    case 1
    then have "ll_alloc l s = Some (Ret 0, s)" using loop sa by (simp add: ll_alloc_def find_region_def)
    with inv show ?thesis by simp
  next
    case (2 pre r post)
    note found = 2
    define start :: usize where "start = of_nat (round_up (unat (fst r)) (unat al))"
    from loop found obtain s1 where
      run: "find_region sz al s = Some (Ret (Some (fst r, start)), s1)"
      and list1: "region_list (ll_mem s1) (next_of s1 None) (pre @ post)"
      and sz1: "ll_size (ll_mem s1 (fst r)) = snd r"
      by (auto simp: find_region_def start_def)
    note mid = regions_ok_middle [OF reg [unfolded found(2)]]
    note sp = fits_split [OF found(3) f(1,8) hi mid(4,5) f(2,6), folded start_def]
    let ?e = "start + sz" and ?x = "fst r + snd r - (start + sz)"
    have sub: "iv (start, sz) \<subseteq> iv r" using sp(2,7) by (auto simp: iv_def)
    have "unat start \<in> iv r" using sub f(5) iv_nonempty [of "(start, sz)"] by auto
    then have "lo \<le> unat start" using mid(5) by auto
    then have p0: "start \<noteq> 0" using lo by auto
    have inside: "iv (start, sz) \<subseteq> {lo..<hi}" using sub mid(5) by blast
    have "\<forall>b\<in>live. iv (adj b) \<inter> iv (start, sz) = {}" using apart sub found(2) by fastforce
    note new = held_ok_insert [OF held l sa p0 sp(1) inside this]
    have apart1: "\<forall>b\<in>insert (start, l) live. \<forall>q\<in>set (pre @ post). iv (adj b) \<inter> iv q = {}"
      using apart mid(2) sub found(2) by (fastforce simp: adj_Ret [OF sa])
    have call: "ll_alloc l s = Some (if ?x > 0 then
        (case add_free_region ?e ?x s1 of (Panic, s2) \<Rightarrow> (Panic, s2) | (Ret _, s2) \<Rightarrow> (Ret start, s2))
        else (Ret start, s1))"
      using sa run sz1 sp(4-6) by (simp add: ll_alloc_def end_addr_def)
    show ?thesis
    proof (cases "?x > 0")
      case False
      have "ll_inv lo hi s1 (insert (start, l) live)"
        by (rule ll_invI [OF lo hi new(1) list1 mid(1) apart1])
      with call False p0 new(2) show ?thesis by simp
    next
      case True
      then have x16: "16 \<le> unat ?x" using sp(8) by (auto simp: word_less_nat_alt)
      have sub2: "iv (?e, ?x) \<subseteq> iv r" "iv (?e, ?x) \<inter> iv (start, sz) = {}"
        using sp(2,3,7) by (auto simp: iv_def)
      have "unat ?e \<in> iv r" using sub2(1) iv_nonempty [of "(?e, ?x)"] x16 by auto
      from region_fst_notin [OF mid(1,2) this] have fresh: "?e \<notin> fst ` set (pre @ post)" .
      obtain s2 where add: "add_free_region ?e ?x s1 = (Ret (), s2)"
        and list2: "region_list (ll_mem s2) (next_of s2 None) ((?e, ?x) # pre @ post)"
        using add_free_region_ok [OF sp(9) x16 sp(10) list1 [unfolded next_of_def, simplified] fresh]
        by (auto simp: next_of_def)
      have "regions_ok lo hi ((?e, ?x) # pre @ post)"
        using mid(1,2,5) sub2(1) x16 sp(9) by (simp add: regions_ok_Cons) blast
      moreover have "\<forall>b\<in>insert (start, l) live. \<forall>q\<in>set ((?e, ?x) # pre @ post). iv (adj b) \<inter> iv q = {}"
        using apart1 apart sub2 found(2) by (fastforce simp: adj_Ret [OF sa])
      ultimately have "ll_inv lo hi s2 (insert (start, l) live)"
        by (rule ll_invI [OF lo hi new(1) list2])
      with call True add p0 new(2) show ?thesis by simp
    qed
  qed
qed

text \<open>Giving back a held block puts it at the front of the free list.\<close>

lemma ll_dealloc_run:
  assumes inv: "ll_inv lo hi s live" and mem: "(p, l) \<in> live"
  obtains rs sz al s' where "0 < lo" "hi \<le> 2 ^ 63" "held_ok lo hi live"
    "\<forall>b\<in>live. \<forall>r\<in>set rs. iv (adj b) \<inter> iv r = {}"
    "size_align l = Ret (sz, al)" "valid_request l" "adj (p, l) = (p, sz)"
    "ll_dealloc p l s = (Ret (), s')" "region_list (ll_mem s') (next_of s' None) ((p, sz) # rs)"
    "regions_ok lo hi ((p, sz) # rs)" "unat p + unat sz \<le> hi" "16 \<le> unat sz"
proof -
  obtain rs where lo: "0 < lo" and hi: "hi \<le> 2 ^ 63" and held: "held_ok lo hi live"
    and list: "region_list (ll_mem s) (next_of s None) rs" and reg: "regions_ok lo hi rs"
    and apart: "\<forall>b\<in>live. \<forall>r\<in>set rs. iv (adj b) \<inter> iv r = {}"
    using inv by (rule ll_invE)
  have l: "ll_servable l" and p8: "8 dvd unat p" and inside: "iv (adj (p, l)) \<subseteq> {lo..<hi}"
    using held mem by (auto simp: held_ok_def)
  obtain sz al where sa: "size_align l = Ret (sz, al)" and req: "valid_request l"
    using l by (rule ll_servableE)
  note f = size_align_facts [OF req sa] and a = adj_Ret [OF sa, of p]
  have pin: "unat p \<in> iv (p, sz)" using iv_nonempty [of "(p, sz)"] f(5) by simp
  have "unat p + unat sz - 1 \<in> iv (p, sz)" using f(5) by (auto simp: iv_def)
  then have top: "unat p + unat sz \<le> hi" using inside a by force
  then have small: "unat p + 8 < 2 ^ 64" using hi f(5) by simp
  have dis: "\<forall>q\<in>set rs. iv (p, sz) \<inter> iv q = {}" using apart mem a by fastforce
  from region_fst_notin [OF reg this pin] have fresh: "p \<notin> fst ` set rs" .
  obtain s' where run: "add_free_region p sz s = (Ret (), s')"
    and list': "region_list (ll_mem s') (next_of s' None) ((p, sz) # rs)"
    using add_free_region_ok [OF p8 f(5) small list [unfolded next_of_def, simplified] fresh]
    by (auto simp: next_of_def)
  have "regions_ok lo hi ((p, sz) # rs)" using reg p8 f(5) inside a dis by (simp add: regions_ok_Cons)
  moreover have "ll_dealloc p l s = (Ret (), s')" using run sa by (simp add: ll_dealloc_def)
  ultimately show thesis using that [OF lo hi held apart sa req a _ list'] top f(5) by simp
qed

lemma ll_dealloc_law:
  assumes inv: "ll_inv lo hi s live" and mem: "(p, l) \<in> live"
  shows "\<exists>s'. ll_dealloc p l s = (Ret (), s') \<and> ll_inv lo hi s' (live - {(p, l)})"
proof -
  obtain rs sz al s' where lo: "0 < lo" and hi: "hi \<le> 2 ^ 63" and held: "held_ok lo hi live"
    and apart: "\<forall>b\<in>live. \<forall>r\<in>set rs. iv (adj b) \<inter> iv r = {}" and a: "adj (p, l) = (p, sz)"
    and run: "ll_dealloc p l s = (Ret (), s')"
    and list': "region_list (ll_mem s') (next_of s' None) ((p, sz) # rs)"
    and reg: "regions_ok lo hi ((p, sz) # rs)"
    using inv mem by (rule ll_dealloc_run)
  have held': "held_ok lo hi (live - {(p, l)})"
    using held by (auto simp: held_ok_def intro: live_ok_subset pairwise_subset)
  have "\<forall>b\<in>live - {(p, l)}. iv (adj b) \<inter> iv (p, sz) = {}"
  proof
    fix b assume "b \<in> live - {(p, l)}"
    moreover have "pairwise (\<lambda>b c. iv (adj b) \<inter> iv (adj c) = {}) live" using held by (simp add: held_ok_def)
    ultimately show "iv (adj b) \<inter> iv (p, sz) = {}"
      using mem a pairwiseD [of _ live b "(p, l)"] by force
  qed
  then have "\<forall>b\<in>live - {(p, l)}. \<forall>r\<in>set ((p, sz) # rs). iv (adj b) \<inter> iv r = {}" using apart by auto
  from ll_invI [OF lo hi held' list' reg this] run show ?thesis by blast
qed

lemma ll_write_law:
  assumes inv: "ll_inv lo hi s live" and wr: "ll_writes live s s'"
  shows "ll_inv lo hi s' live"
proof -
  obtain rs where lo: "0 < lo" and hi: "hi \<le> 2 ^ 63" and held: "held_ok lo hi live"
    and list: "region_list (ll_mem s) (next_of s None) rs" and reg: "regions_ok lo hi rs"
    and apart: "\<forall>b\<in>live. \<forall>r\<in>set rs. iv (adj b) \<inter> iv r = {}"
    using inv by (rule ll_invE)
  have "ll_mem s' (fst r) = ll_mem s (fst r)" if "r \<in> set rs" for r
  proof -
    have "{unat (fst r)..<unat (fst r) + 16} \<subseteq> iv r"
      using iv_nonempty [of r] reg that by (simp add: regions_ok_def)
    moreover have "extent b \<subseteq> iv (adj b)" if "b \<in> live" for b
      using extent_adj that held by (simp add: held_ok_def)
    ultimately have "\<forall>b\<in>live. {unat (fst r)..<unat (fst r) + 16} \<inter> extent b = {}"
      using apart that by blast
    then show ?thesis using wr by (simp add: ll_writes_def)
  qed
  then have "region_list (ll_mem s') (next_of s None) rs" by (intro region_list_frame [OF list]) auto
  then have "region_list (ll_mem s') (next_of s' None) rs" using wr by (simp add: next_of_def ll_writes_def)
  then show ?thesis by (rule ll_invI [OF lo hi held _ reg apart])
qed

interpretation ll: global_alloc ll_servable ll_alloc ll_dealloc ll_writes "ll_inv lo hi" lo hi
  for lo hi :: nat
proof
  fix s live
  show "live_ok lo hi live" if "ll_inv lo hi s live" using that by (auto simp: ll_inv_def held_ok_def)
qed (use ll_alloc_law ll_dealloc_law ll_write_law in blast)+

lemma ll_init_inv:
  assumes "0 < unat start" "8 dvd unat start" "16 \<le> unat sz" "unat start + unat sz \<le> 2 ^ 63"
  shows "\<exists>s. ll_init start sz (ll_new mem) = (Ret (), s) \<and> ll_inv (unat start) (unat start + unat sz) s {}"
proof -
  have "region_list (ll_mem (ll_new mem)) (ll_next (ll_head (ll_new mem))) []"
    by (simp add: ll_new_def ListNode_new_def)
  from add_free_region_ok [OF assms(2,3) _ this] assms(3,4)
  obtain s where run: "add_free_region start sz (ll_new mem) = (Ret (), s)"
    and list: "region_list (ll_mem s) (next_of s None) [(start, sz)]"
    by (auto simp: next_of_def)
  have "ll_inv (unat start) (unat start + unat sz) s {}"
    by (rule ll_invI [OF assms(1,4) _ list])
      (use assms in \<open>auto simp: held_ok_def regions_ok_def iv_def\<close>)
  with run show ?thesis by (simp add: ll_init_def)
qed


lemma is_power_of_two_16: "is_power_of_two 16"
  unfolding is_power_of_two_def by (rule exI [of _ 4]) simp


subsection \<open>First fit, reuse and misuse\<close>

text \<open>
  C24: \<open>find_region\<close> is first fit: it takes the first region of the free list that can hold the
  request, and takes it out of the list without touching the order of the others; when it finds
  none, no region fits and nothing has changed.
\<close>

theorem find_region_first_fit:
  assumes list: "region_list (ll_mem s) (ll_next (ll_head s)) rs" and reg: "regions_ok lo hi rs"
    and hi: "hi \<le> 2 ^ 63" and al: "is_power_of_two al"
  shows "if \<forall>r\<in>set rs. \<not> fits sz al r then find_region sz al s = Some (Ret None, s)
    else \<exists>pre r post s'. rs = pre @ r # post \<and> fits sz al r \<and> (\<forall>q\<in>set pre. \<not> fits sz al q) \<and>
      find_region sz al s = Some (Ret (Some (fst r, of_nat (round_up (unat (fst r)) (unat al)))), s') \<and>
      region_list (ll_mem s') (ll_next (ll_head s')) (pre @ post)"
proof -
  have rs: "\<forall>r\<in>set rs. 16 \<le> unat (snd r) \<and> iv r \<subseteq> {lo..<hi}" using reg by (simp add: regions_ok_def)
  have "unat al \<le> 2 ^ 63"
    using al by (rule is_power_of_twoE) (simp add: power_increasing [of _ 63 "2::nat", simplified])
  note cases = find_fit_cases [OF al this hi rs, of sz]
  have list': "region_list (ll_mem s) (next_of s None) rs" using list by (simp add: next_of_def)
  note loop = find_loop_fit [OF list' regions_ok_distinct_fst [OF reg], of sz al]
  show ?thesis
  proof (cases rule: cases)
    case 1
    then show ?thesis using loop by (simp add: find_region_def)
  next
    case (2 pre r post)
    with loop obtain s' where "find_loop sz al None s =
        Some (Ret (Some (fst r, of_nat (round_up (unat (fst r)) (unat al)))), s')"
      "region_list (ll_mem s') (next_of s' None) (pre @ post)"
      by auto
    with 2 have "\<exists>pre r post s'. rs = pre @ r # post \<and> fits sz al r \<and> (\<forall>q\<in>set pre. \<not> fits sz al q) \<and>
        find_region sz al s = Some (Ret (Some (fst r, of_nat (round_up (unat (fst r)) (unat al)))), s') \<and>
        region_list (ll_mem s') (ll_next (ll_head s')) (pre @ post)"
      unfolding find_region_def next_of_def option.case by blast
    moreover have "\<not> (\<forall>r\<in>set rs. \<not> fits sz al r)" using 2(2,3) by auto
    ultimately show ?thesis by presburger
  qed
qed

theorem find_region_first_fit_witness:
  "\<exists>s'. find_region 32 8
     \<lparr> ll_head = \<lparr> ll_size = 0, ll_next = Some 64 \<rparr>,
       ll_mem = (\<lambda>_. ListNode_new 0)(64 := \<lparr> ll_size = 16, ll_next = Some 128 \<rparr>,
                                       128 := \<lparr> ll_size = 64, ll_next = None \<rparr>) \<rparr> =
     Some (Ret (Some (128, 128)), s')"
proof -
  let ?s = "\<lparr> ll_head = \<lparr> ll_size = 0, ll_next = Some 64 \<rparr>,
       ll_mem = (\<lambda>_. ListNode_new 0)(64 := \<lparr> ll_size = 16, ll_next = Some 128 \<rparr>,
                                       128 := \<lparr> ll_size = 64, ll_next = None \<rparr>) \<rparr>"
  have list: "region_list (ll_mem ?s) (ll_next (ll_head ?s)) [(64, 16), (128, 64)]" by simp
  have reg: "regions_ok 64 192 [(64, 16), (128, 64)]"
    by (auto simp: regions_ok_Cons iv_def) (simp add: regions_ok_def)
  have f: "\<not> fits 32 8 (64, 16)" "fits 32 8 (128, 64)" by (simp_all add: fits_def Let_def round_up_def)
  from find_region_first_fit [OF list reg _ is_power_of_two_8, of 32] f
  obtain pre r post s' where *: "[(64, 16), (128, 64)] = pre @ r # post" "fits 32 8 r"
      "find_region 32 8 ?s = Some (Ret (Some (fst r, of_nat (round_up (unat (fst r)) (unat (8::usize))))), s')"
    by auto
  from *(1,2) f(1) have "r = (128, 64)" by (auto simp: Cons_eq_append_conv)
  with *(3) show ?thesis by (simp add: round_up_def)
qed

text \<open>
  Freed memory is reused: a block that is given back satisfies the next request of the same
  layout, at the same address.
\<close>

theorem ll_reuse:
  assumes inv: "ll_inv lo hi s live" and mem: "(p, l) \<in> live"
  shows "\<exists>s' s''. ll_dealloc p l s = (Ret (), s') \<and> ll_alloc l s' = Some (Ret p, s'')"
proof -
  obtain rs sz al s' where hi: "hi \<le> 2 ^ 63" and held: "held_ok lo hi live"
    and sa: "size_align l = Ret (sz, al)" and req: "valid_request l"
    and run: "ll_dealloc p l s = (Ret (), s')"
    and list: "region_list (ll_mem s') (next_of s' None) ((p, sz) # rs)"
    and top: "unat p + unat sz \<le> hi" "16 \<le> unat sz"
    using inv mem by (rule ll_dealloc_run) blast
  note f = size_align_facts [OF req sa]
  have "al = layout_align l \<or> al = 8"
    using sa by (auto simp: size_align_def align_to_def from_size_align_def align_of_ListNode_def
        pad_to_align_def Let_def max_def split: if_splits)
  then have "unat al dvd unat p" using held mem by (auto simp: held_ok_def live_ok_def)
  then have up: "round_up (unat p) (unat al) = unat p"
    using round_up_least [of "unat al" "unat p" "unat p"] round_up_bounds(2) [of "unat al" "unat p"] f(1)
    by (auto elim!: is_power_of_twoE)
  then have "fits sz al (p, sz)" by (simp add: fits_def Let_def)
  then have "alloc_from_region p (ll_mem s' p) sz al = Ret (Ok p)"
    using alloc_from_region_eq [OF f(1), of "(p, sz)" sz] alloc_from_region_size [of p "ll_mem s'" sz al]
      list top hi f(8) up by simp
  then obtain s1 where "find_region sz al s' = Some (Ret (Some (p, p)), s1)" "ll_size (ll_mem s1 p) = sz"
    using list by (auto simp: find_region_def find_loop.simps Let_def set_next_def next_of_def)
  moreover have "checked_add p sz = Some (p + sz)" "add_ck p sz = Ret (p + sz)"
    using top hi by (simp_all add: checked_add_def add_ck_def)
  ultimately have "ll_alloc l s' = Some (Ret p, s1)"
    using sa by (simp add: ll_alloc_def end_addr_def)
  with run show ?thesis by blast
qed

theorem ll_reuse_witness:
  "\<exists>s' s''. ll_dealloc 64 (Layout 16 8) (ll_new (\<lambda>_. ListNode_new 0)) = (Ret (), s') \<and>
     ll_alloc (Layout 16 8) s' = Some (Ret 64, s'')"
proof -
  have sa: "size_align (Layout 16 8) = Ret (16, 8)"
    by (simp add: size_align_def align_to_def align_of_ListNode_def from_size_align_def
        is_power_of_two_8 ISIZE_MAX_def pad_to_align_def round_up_def size_of_ListNode_def)
  have req: "valid_request (Layout 16 8)"
    by (simp add: valid_request_def valid_layout_def from_size_align_def is_power_of_two_8 ISIZE_MAX_def)
  have l: "ll_servable (Layout 16 8)" using sa req by (simp add: ll_servable_def)
  have "held_ok 64 80 {(64, Layout 16 8)}"
    using l req adj_Ret [OF sa, of 64] by (simp add: held_ok_def live_ok_def extent_def iv_def)
  then have "ll_inv 64 80 (ll_new (\<lambda>_. ListNode_new 0)) {(64, Layout 16 8)}"
    by (intro ll_invI [where rs = "[]"])
      (simp_all add: ll_new_def ListNode_new_def next_of_def regions_ok_def)
  from ll_reuse [OF this, of 64 "Layout 16 8"] show ?thesis by simp
qed

text \<open>The loop never returns from a node that links to itself when its region does not fit.\<close>

lemma find_loop_cycle:
  assumes "find_loop sz al cur s = Some y"
  shows "\<not> (next_of s cur = Some a \<and> ll_next (ll_mem s a) = Some a \<and>
            alloc_from_region a (ll_mem s a) sz al = Ret (Err ()))"
  using assms
  by (rule find_loop.raw_induct [rotated]) (auto simp: next_of_def)

text \<open>
  C40: \<open>init\<close> must be called only once. After a second call the one free region links to itself,
  and a request it cannot hold, which one call to \<open>init\<close> would have refused, never returns.
\<close>

theorem ll_init_twice:
  assumes first: "ll_init start sz (ll_new mem) = (Ret (), s1)"
    and second: "ll_init start sz s1 = (Ret (), s2)"
    and l: "size_align l = Ret (n, al)"
    and big: "alloc_from_region start (ListNode_new sz) n al = Ret (Err ())"
  shows "ll_alloc l s1 = Some (Ret 0, s1) \<and> ll_alloc l s2 = None"
proof -
  have s1: "ll_next (ll_head s1) = Some start" "ll_mem s1 start = ListNode_new sz"
    using first
    by (auto simp: ll_init_def add_free_region_def ll_new_def ListNode_new_def Let_def
        split: outcome.splits if_splits)
  then have s2: "next_of s2 None = Some start" "ll_next (ll_mem s2 start) = Some start"
      "ll_size (ll_mem s2 start) = sz"
    using second
    by (auto simp: ll_init_def add_free_region_def ListNode_new_def Let_def next_of_def
        split: outcome.splits if_splits)
  have "find_region n al s1 = Some (Ret None, s1)"
    using s1 big by (simp add: find_region_def find_loop.simps next_of_def) (simp add: ListNode_new_def)
  moreover have "find_loop n al None s2 = None"
    using find_loop_cycle [of n al None s2 _ start] s2 big
      alloc_from_region_size [of start "ll_mem s2" n al]
    by (cases "find_loop n al None s2") auto
  ultimately show ?thesis using l by (simp add: ll_alloc_def find_region_def)
qed

theorem ll_init_twice_witness:
  "\<exists>s1 s2. ll_init 64 64 (ll_new (\<lambda>_. ListNode_new 0)) = (Ret (), s1) \<and>
     ll_init 64 64 s1 = (Ret (), s2) \<and>
     ll_alloc (Layout 128 8) s1 = Some (Ret 0, s1) \<and> ll_alloc (Layout 128 8) s2 = None"
proof -
  have up: "align_up 64 align_of_ListNode = Ret 64" "align_up 64 8 = Ret 64"
    by (simp_all add: align_of_ListNode_def align_up_eq is_power_of_two_8 round_up_def)
  have sa: "size_align (Layout 128 8) = Ret (128, 8)"
    by (simp add: size_align_def align_to_def align_of_ListNode_def from_size_align_def
        is_power_of_two_8 ISIZE_MAX_def pad_to_align_def round_up_def size_of_ListNode_def)
  have big: "alloc_from_region 64 (ListNode_new 64) 128 8 = Ret (Err ())"
    by (simp add: alloc_from_region_def up checked_add_def end_addr_def add_ck_def ListNode_new_def)
  obtain s1 where s1: "ll_init 64 64 (ll_new (\<lambda>_. ListNode_new 0)) = (Ret (), s1)"
    by (simp add: ll_init_def add_free_region_def up size_of_ListNode_def Let_def)
  moreover obtain s2 where s2: "ll_init 64 64 s1 = (Ret (), s2)"
    by (simp add: ll_init_def add_free_region_def up size_of_ListNode_def Let_def)
  ultimately show ?thesis using ll_init_twice [OF s1 s2 sa big] by blast
qed

end
