(* ===== verification/Fixed_Size_Block.thy ===== *)
theory Fixed_Size_Block
  imports Linked_List_Alloc
begin

section \<open>The fixed-size-block allocator (\<open>src/src/allocator/fixed_size_block.rs\<close>)\<close>

text \<open>
  The allocator the kernel uses: nine lists of free blocks, linked through the blocks
  themselves, and a fallback heap for new blocks and for large requests. The fallback is
  \<open>linked_list_allocator::Heap\<close>, a package outside the repository: it is the record
  \<open>fallback\<close> and its contract the locale \<open>fallback_heap\<close>. Over every such heap the allocator
  is a \<open>global_alloc\<close>. The repository's own linked-list allocator satisfies the contract.
\<close>

record 'h fallback =
  fb_empty :: 'h
  fb_init :: "usize \<Rightarrow> usize \<Rightarrow> 'h \<Rightarrow> 'h"
  fb_allocate_first_fit :: "Layout \<Rightarrow> 'h \<Rightarrow> (usize, unit) result \<times> 'h"
  fb_deallocate :: "usize \<Rightarrow> Layout \<Rightarrow> 'h \<Rightarrow> 'h"

definition BLOCK_SIZES :: "usize list" where
  "BLOCK_SIZES = [8, 16, 32, 64, 128, 256, 512, 1024, 2048]"

text \<open>\<open>fsb_mem\<close> is the memory, as far as the allocator writes it: the node at an address holds
  the link to the next free block.\<close>

record 'h FixedSizeBlockAllocator =
  list_heads :: "usize option list"
  fallback_allocator :: 'h
  fsb_mem :: "usize \<Rightarrow> usize option"

definition size_of_node :: usize where "size_of_node = 8"
definition align_of_node :: usize where "align_of_node = 8"

definition fsb_new :: "'h fallback \<Rightarrow> (usize \<Rightarrow> usize option) \<Rightarrow> 'h FixedSizeBlockAllocator" where
  "fsb_new F mem =
     \<lparr> list_heads = replicate (length BLOCK_SIZES) None, fallback_allocator = fb_empty F,
       fsb_mem = mem \<rparr>"

definition fsb_init ::
    "'h fallback \<Rightarrow> usize \<Rightarrow> usize \<Rightarrow> 'h FixedSizeBlockAllocator \<Rightarrow> 'h FixedSizeBlockAllocator" where
  "fsb_init F heap_start heap_size s =
     s\<lparr> fallback_allocator := fb_init F heap_start heap_size (fallback_allocator s) \<rparr>"

definition fallback_alloc ::
    "'h fallback \<Rightarrow> Layout \<Rightarrow> 'h FixedSizeBlockAllocator \<Rightarrow> usize outcome \<times> 'h FixedSizeBlockAllocator" where
  "fallback_alloc F layout s =
     (case fb_allocate_first_fit F layout (fallback_allocator s) of
        (Ok p, h) \<Rightarrow> (Ret p, s\<lparr> fallback_allocator := h \<rparr>)
      | (Err _, h) \<Rightarrow> (Ret 0, s\<lparr> fallback_allocator := h \<rparr>))"

fun position :: "('a \<Rightarrow> bool) \<Rightarrow> 'a list \<Rightarrow> nat option" where
  "position P [] = None"
| "position P (x # xs) = (if P x then Some 0 else map_option Suc (position P xs))"

definition list_index :: "Layout \<Rightarrow> nat option" where
  "list_index layout =
     (let required_block_size = max (layout_size layout) (layout_align layout) in
      position (\<lambda>s. s \<ge> required_block_size) BLOCK_SIZES)"

definition fsb_alloc ::
    "'h fallback \<Rightarrow> Layout \<Rightarrow> 'h FixedSizeBlockAllocator \<Rightarrow> usize outcome \<times> 'h FixedSizeBlockAllocator" where
  "fsb_alloc F layout s =
     (case list_index layout of
        Some index \<Rightarrow>
          (case list_heads s ! index of
             Some node \<Rightarrow>
               (Ret node, s\<lparr> list_heads := (list_heads s)[index := fsb_mem s node],
                             fsb_mem := (fsb_mem s)(node := None) \<rparr>)
           | None \<Rightarrow>
               let block_size = BLOCK_SIZES ! index;
                   block_align = block_size in
               (case from_size_align block_size block_align of
                  Err _ \<Rightarrow> (Panic, s)
                | Ok layout' \<Rightarrow> fallback_alloc F layout' s))
      | None \<Rightarrow> fallback_alloc F layout s)"

definition fsb_dealloc ::
    "'h fallback \<Rightarrow> usize \<Rightarrow> Layout \<Rightarrow> 'h FixedSizeBlockAllocator \<Rightarrow> unit outcome \<times> 'h FixedSizeBlockAllocator" where
  "fsb_dealloc F ptr layout s =
     (case list_index layout of
        Some index \<Rightarrow>
          let new_node = list_heads s ! index in
          if \<not> size_of_node \<le> BLOCK_SIZES ! index then (Panic, s)
          else if \<not> align_of_node \<le> BLOCK_SIZES ! index then (Panic, s)
          else
            (Ret (), s\<lparr> list_heads := (list_heads s)[index := Some ptr],
                        fsb_mem := (fsb_mem s)(ptr := new_node) \<rparr>)
      | None \<Rightarrow>
          if ptr = 0 then (Panic, s)
          else (Ret (), s\<lparr> fallback_allocator := fb_deallocate F ptr layout (fallback_allocator s) \<rparr>))"

subsection \<open>The size classes\<close>

lemma length_BLOCK_SIZES [simp]: "length BLOCK_SIZES = 9"
  by (simp add: BLOCK_SIZES_def)

lemma position_Some_iff:
  "position P xs = Some i \<longleftrightarrow> i < length xs \<and> P (xs ! i) \<and> (\<forall>j<i. \<not> P (xs ! j))"
proof (induction xs arbitrary: i)
  case (Cons x xs)
  show ?case by (cases i) (auto simp: Cons less_Suc_eq_0_disj)
qed simp

lemma position_None_iff: "position P xs = None \<longleftrightarrow> (\<forall>x\<in>set xs. \<not> P x)"
  by (induction xs) auto

lemma BLOCK_SIZES_nth:
  assumes "i < 9"
  shows "unat (BLOCK_SIZES ! i) = 2 ^ (i + 3)" "is_power_of_two (BLOCK_SIZES ! i)"
proof -
  have "i \<in> {0, 1, 2, 3, 4, 5, 6, 7, 8}" using assms by auto
  then have eq: "BLOCK_SIZES ! i = 2 ^ (i + 3)" unfolding BLOCK_SIZES_def by auto
  then show "is_power_of_two (BLOCK_SIZES ! i)"
    unfolding is_power_of_two_def using assms by (intro exI [of _ "i + 3"]) simp
  show "unat (BLOCK_SIZES ! i) = 2 ^ (i + 3)" using eq unat_pow2 [of "i + 3"] assms by simp
qed

lemma BLOCK_SIZES_ge: "i < 9 \<Longrightarrow> 8 \<le> BLOCK_SIZES ! i"
  using BLOCK_SIZES_nth(1) [of i] power_increasing [of 3 "i + 3" "2::nat"] by (simp add: word_le_nat_alt)

definition block_layout :: "nat \<Rightarrow> Layout" where
  "block_layout i = Layout (BLOCK_SIZES ! i) (BLOCK_SIZES ! i)"

lemma block_layout_ok:
  assumes "i < 9"
  shows "from_size_align (BLOCK_SIZES ! i) (BLOCK_SIZES ! i) = Ok (block_layout i)"
    and "valid_request (block_layout i)"
proof -
  note b = BLOCK_SIZES_nth [OF assms]
  have "(2::nat) ^ (i + 3) \<le> 2 ^ 11" using assms by (intro power_increasing) simp_all
  then show *: "from_size_align (BLOCK_SIZES ! i) (BLOCK_SIZES ! i) = Ok (block_layout i)"
    using b by (simp add: from_size_align_def block_layout_def ISIZE_MAX_def)
  then show "valid_request (block_layout i)"
    using b by (simp add: valid_request_def valid_layout_def block_layout_def)
qed

text \<open>What is really taken for a layout: a block of its class, or the layout itself.\<close>

definition class_layout :: "Layout \<Rightarrow> Layout" where
  "class_layout l = (case list_index l of Some i \<Rightarrow> block_layout i | None \<Rightarrow> l)"

lemma list_index_Some:
  assumes "list_index l = Some i" "valid_request l"
  shows "i < 9" "unat (layout_size l) \<le> unat (BLOCK_SIZES ! i)"
    "unat (layout_align l) dvd unat (BLOCK_SIZES ! i)"
proof -
  have i: "i < 9" and le: "max (layout_size l) (layout_align l) \<le> BLOCK_SIZES ! i"
    using assms(1) by (simp_all add: list_index_def Let_def position_Some_iff)
  then show "i < 9" "unat (layout_size l) \<le> unat (BLOCK_SIZES ! i)"
    by (simp_all add: word_le_nat_alt unat_max)
  show "unat (layout_align l) dvd unat (BLOCK_SIZES ! i)"
    using power_of_two_dvd [OF valid_requestD(1) [OF assms(2)] BLOCK_SIZES_nth(2) [OF i]] le
    by (simp add: word_le_nat_alt unat_max)
qed

lemma class_layout_facts:
  assumes "valid_request l"
  shows "valid_request (class_layout l)" "unat (layout_size l) \<le> unat (layout_size (class_layout l))"
    "unat (layout_align l) dvd unat (layout_align (class_layout l))"
    "extent (p, l) \<subseteq> extent (p, class_layout l)"
  using assms list_index_Some [OF _ assms] block_layout_ok(2)
  by (auto simp: class_layout_def block_layout_def extent_def split: option.split)

text \<open>
  The class of a request is the smallest of the nine that holds it: its blocks are large
  enough and aligned strictly enough, the next smaller class is too small, and a request has no
  class exactly when its size or alignment exceeds 2048.
\<close>

theorem list_index_spec:
  assumes "valid_request l"
  shows "case list_index l of
      Some i \<Rightarrow> i < length BLOCK_SIZES \<and> layout_size l \<le> BLOCK_SIZES ! i \<and>
        unat (layout_align l) dvd unat (BLOCK_SIZES ! i) \<and>
        (\<forall>j<i. BLOCK_SIZES ! j < max (layout_size l) (layout_align l))
    | None \<Rightarrow> 2048 < max (layout_size l) (layout_align l)"
proof (cases "list_index l")
  case None
  then have "\<not> 2048 \<ge> max (layout_size l) (layout_align l)"
    unfolding list_index_def Let_def position_None_iff by (simp add: BLOCK_SIZES_def)
  with None show ?thesis by (simp add: less_max_iff_disj not_le)
next
  case (Some i)
  then have "\<forall>j<i. BLOCK_SIZES ! j < max (layout_size l) (layout_align l)"
    unfolding list_index_def Let_def position_Some_iff by (simp add: not_le less_max_iff_disj)
  with Some list_index_Some [OF Some assms] show ?thesis by (simp add: word_le_nat_alt)
qed

theorem list_index_spec_witness:
  "list_index (Layout 24 8) = Some 2 \<and> list_index (Layout 2049 8) = None \<and>
   24 \<le> BLOCK_SIZES ! 2 \<and> unat (8::usize) dvd unat (BLOCK_SIZES ! 2)"
proof -
  have "valid_request (Layout 24 8)"
    by (simp add: valid_request_def valid_layout_def from_size_align_def is_power_of_two_8 ISIZE_MAX_def)
  moreover have "list_index (Layout 24 8) = Some 2" "list_index (Layout 2049 8) = None"
    by (simp_all add: list_index_def BLOCK_SIZES_def Let_def max_def)
  ultimately show ?thesis using list_index_spec [of "Layout 24 8"] by simp
qed

subsection \<open>The fallback heap\<close>

text \<open>
  The contract of the fallback, over its own bookkeeping \<open>'h\<close>: for the layouts it accepts, a successful call hands out a new
  block, a failed one leaves the blocks in use as they are, and a block in use can be given back.
\<close>

locale fallback_heap =
  fixes F :: "'h fallback"
    and fb_req :: "Layout \<Rightarrow> bool"
    and fb_inv :: "'h \<Rightarrow> (usize \<times> Layout) set \<Rightarrow> bool"
    and lo hi :: nat
  assumes fb_live: "fb_inv h live \<Longrightarrow> live_ok lo hi live"
    and fb_blocks: "i < 9 \<Longrightarrow> fb_req (block_layout i)"
    and fb_alloc_law: "\<lbrakk>fb_inv h live; valid_request l; fb_req l\<rbrakk> \<Longrightarrow>
      (\<exists>p h'. fb_allocate_first_fit F l h = (Ok p, h') \<and> (p, l) \<notin> live \<and> fb_inv h' (insert (p, l) live)) \<or>
      (\<exists>h'. fb_allocate_first_fit F l h = (Err (), h') \<and> fb_inv h' live)"
    and fb_dealloc_law: "\<lbrakk>fb_inv h live; (p, l) \<in> live\<rbrakk> \<Longrightarrow>
      fb_inv (fb_deallocate F p l h) (live - {(p, l)})"
    and fb_init_law: "\<lbrakk>unat start = lo; unat start + unat sz = hi\<rbrakk> \<Longrightarrow>
      fb_inv (fb_init F start sz (fb_empty F)) {}"

definition fsb_req :: "(Layout \<Rightarrow> bool) \<Rightarrow> Layout \<Rightarrow> bool" where
  "fsb_req fb_req l \<longleftrightarrow> valid_request l \<and> (list_index l = None \<longrightarrow> fb_req l)"

definition fsb_call :: "'h fallback \<Rightarrow> 'h FixedSizeBlockAllocator alloc_fn" where
  "fsb_call F layout s = Some (fsb_alloc F layout s)"

text \<open>A client writes into the blocks it holds; the bookkeeping of the fallback is never in a block
  it has handed out.\<close>

definition fsb_writes :: "'h FixedSizeBlockAllocator write_rel" where
  "fsb_writes live s s' \<longleftrightarrow>
     list_heads s' = list_heads s \<and> fallback_allocator s' = fallback_allocator s \<and>
     (\<forall>a. (\<forall>b\<in>live. {unat a..<unat a + 8} \<inter> extent b = {}) \<longrightarrow> fsb_mem s' a = fsb_mem s a)"

text \<open>The blocks on a free list.\<close>

fun node_list :: "(usize \<Rightarrow> usize option) \<Rightarrow> usize option \<Rightarrow> usize list \<Rightarrow> bool" where
  "node_list mem p [] \<longleftrightarrow> p = None"
| "node_list mem p (a # as) \<longleftrightarrow> p = Some a \<and> node_list mem (mem a) as"

lemma node_list_frame:
  assumes "node_list mem p as" and "\<forall>a\<in>set as. mem' a = mem a"
  shows "node_list mem' p as"
  using assms by (induction as arbitrary: p) auto

text \<open>What the fallback has handed out: a block for everything held, and the free blocks.\<close>

definition handed_out :: "(usize \<times> Layout) set \<Rightarrow> usize list list \<Rightarrow> (usize \<times> Layout) set" where
  "handed_out live Ls =
     (\<lambda>b. (fst b, class_layout (snd b))) ` live \<union> (\<Union>i<9. (\<lambda>p. (p, block_layout i)) ` set (Ls ! i))"

definition fsb_inv ::
    "(Layout \<Rightarrow> bool) \<Rightarrow> ('h \<Rightarrow> (usize \<times> Layout) set \<Rightarrow> bool)
       \<Rightarrow> 'h FixedSizeBlockAllocator \<Rightarrow> (usize \<times> Layout) set \<Rightarrow> bool" where
  "fsb_inv fb_req fb_inv s live \<longleftrightarrow>
     length (list_heads s) = 9 \<and> (\<forall>b\<in>live. fsb_req fb_req (snd b)) \<and> inj_on fst live \<and>
     (\<exists>Ls. length Ls = 9 \<and>
        (\<forall>i<9. node_list (fsb_mem s) (list_heads s ! i) (Ls ! i) \<and> distinct (Ls ! i) \<and>
           fst ` live \<inter> set (Ls ! i) = {}) \<and>
        fb_inv (fallback_allocator s) (handed_out live Ls))"

lemma live_ok_fst:
  assumes "live_ok lo hi L" "b \<in> L" "c \<in> L" "fst b = fst c"
  shows "b = c"
proof (rule ccontr)
  assume "b \<noteq> c"
  then have "extent b \<inter> extent c = {}" using assms pairwiseD [of _ L b c] by (auto simp: live_ok_def)
  moreover have "unat (fst b) \<in> extent b" "unat (fst b) \<in> extent c"
    using assms valid_requestD(2) by (auto simp: live_ok_def extent_def)
  ultimately show False by blast
qed

lemma live_ok_inj: "live_ok lo hi L \<Longrightarrow> inj_on fst L"
  by (rule inj_onI) (rule live_ok_fst)

lemma class_live_ok:
  assumes ok: "live_ok lo hi L" and inj: "inj_on fst live" and req: "\<forall>b\<in>live. valid_request (snd b)"
    and sub: "(\<lambda>b. (fst b, class_layout (snd b))) ` live \<subseteq> L"
  shows "live_ok lo hi live"
proof -
  let ?c = "\<lambda>b. (fst b, class_layout (snd b))"
  have ext: "extent b \<subseteq> extent (?c b)" if "b \<in> live" for b
    using class_layout_facts(4) [of "snd b" "fst b"] req that by simp
  have mem: "?c b \<in> L" if "b \<in> live" for b using sub that by blast
  have "fst ` live \<subseteq> fst ` L" using mem by force
  then have "finite (fst ` live)" using ok finite_subset by (auto simp: live_ok_def)
  then have fin: "finite live" using inj by (rule finite_imageD)
  have each: "fst b \<noteq> 0 \<and> unat (layout_align (snd b)) dvd unat (fst b) \<and> extent b \<subseteq> {lo..<hi}"
    if "b \<in> live" for b
  proof -
    have "fst b \<noteq> 0" "unat (layout_align (class_layout (snd b))) dvd unat (fst b)" "extent (?c b) \<subseteq> {lo..<hi}"
      using ok mem [OF that] by (auto simp: live_ok_def)
    then show ?thesis
      using ext [OF that] class_layout_facts(3) [of "snd b"] req that by (auto intro: dvd_trans)
  qed
  have "pairwise (\<lambda>b c. extent b \<inter> extent c = {}) live"
  proof (rule pairwiseI)
    fix b c assume bc: "b \<in> live" "c \<in> live" "b \<noteq> c"
    then have "fst b \<noteq> fst c" using inj by (auto dest: inj_onD)
    then have "?c b \<noteq> ?c c" by simp
    then have "extent (?c b) \<inter> extent (?c c) = {}"
      using ok mem bc pairwiseD [of _ L "?c b" "?c c"] by (auto simp: live_ok_def)
    then show "extent b \<inter> extent c = {}" using ext bc by blast
  qed
  with fin each req show ?thesis by (simp add: live_ok_def)
qed

lemma block_layout_inj:
  assumes "i < 9" "j < 9" "block_layout i = block_layout j"
  shows "i = j"
proof -
  have "BLOCK_SIZES ! i = BLOCK_SIZES ! j" using assms(3) by (simp add: block_layout_def)
  then have "(2::nat) ^ (i + 3) = 2 ^ (j + 3)" using BLOCK_SIZES_nth(1) assms(1,2) by metis
  then show ?thesis using power_inject_exp [of "2::nat" "i + 3" "j + 3"] by linarith
qed

lemma handed_out_free: "i < 9 \<Longrightarrow> p \<in> set (Ls ! i) \<Longrightarrow> (p, block_layout i) \<in> handed_out live Ls"
  by (auto simp: handed_out_def)

lemma handed_out_live: "b \<in> live \<Longrightarrow> (fst b, class_layout (snd b)) \<in> handed_out live Ls"
  by (auto simp: handed_out_def)

lemma one_class:
  assumes "live_ok lo hi (handed_out live Ls)" "i < 9" "j < 9" "p \<in> set (Ls ! i)" "p \<in> set (Ls ! j)"
  shows "i = j"
proof -
  have "(p, block_layout i) = (p, block_layout j)"
    by (rule live_ok_fst [OF assms(1) handed_out_free [OF assms(2,4)] handed_out_free [OF assms(3,5)]]) simp
  then show ?thesis using block_layout_inj [OF assms(2,3)] by simp
qed

text \<open>Taking a block from the front of its list and putting one there: the fallback sees no change.\<close>

lemma handed_out_take:
  assumes "length Ls = 9" "i < 9" "Ls ! i = p # as" "class_layout l = block_layout i"
  shows "handed_out (insert (p, l) live) (Ls[i := as]) = handed_out live Ls"
proof -
  obtain J where J: "{..<9} = insert i J" "i \<notin> J" using assms(2) by (metis lessThan_iff mk_disjoint_insert)
  then have same: "(\<Union>j\<in>J. (\<lambda>q. (q, block_layout j)) ` set (Ls[i := as] ! j)) =
      (\<Union>j\<in>J. (\<lambda>q. (q, block_layout j)) ` set (Ls ! j))"
    by (intro SUP_cong refl) (metis nth_list_update_neq)
  have "(\<Union>j<9. (\<lambda>q. (q, block_layout j)) ` set (Ls ! j)) =
      insert (p, block_layout i) (\<Union>j<9. (\<lambda>q. (q, block_layout j)) ` set (Ls[i := as] ! j))"
    unfolding J(1) using assms(1-3) by (simp add: same)
  then show ?thesis using assms(4) by (simp add: handed_out_def)
qed

lemma handed_out_put:
  assumes "length Ls = 9" "i < 9" "(p, l) \<in> live" "class_layout l = block_layout i" "inj_on fst live"
  shows "handed_out (live - {(p, l)}) (Ls[i := p # Ls ! i]) = handed_out live Ls"
proof -
  have "insert (p, l) (live - {(p, l)}) = live" using assms(3) by auto
  then show ?thesis
    using handed_out_take [of "Ls[i := p # Ls ! i]" i p "Ls ! i" l "live - {(p, l)}"] assms(1,2,4) by simp
qed

lemma handed_out_drop:
  assumes "(p, l) \<in> live" "class_layout l = l" "p \<notin> fst ` (live - {(p, l)})" "\<And>j. j < 9 \<Longrightarrow> p \<notin> set (Ls ! j)"
  shows "handed_out (live - {(p, l)}) Ls = handed_out live Ls - {(p, l)}"
proof -
  let ?c = "\<lambda>b. (fst b, class_layout (snd b))"
  let ?free = "\<Union>i<9. (\<lambda>q. (q, block_layout i)) ` set (Ls ! i)"
  have "?c ` live = ?c ` insert (p, l) (live - {(p, l)})" by (simp add: insert_absorb [OF assms(1)])
  then have "?c ` live = insert (p, l) (?c ` (live - {(p, l)}))"
    by (simp only: image_insert fst_conv snd_conv assms(2))
  moreover have "(p, l) \<notin> ?c ` (live - {(p, l)})" using assms(3) by force
  moreover have "(p, l) \<notin> ?free" using assms(4) by auto
  ultimately show ?thesis unfolding handed_out_def by (simp only: Un_insert_left Diff_insert0 Un_Diff insert_Diff_if) auto
qed

lemma fsb_invI:
  assumes "length (list_heads s) = 9" "\<forall>b\<in>live. fsb_req fb_req (snd b)" "inj_on fst live" "length Ls = 9"
    "\<forall>i<9. node_list (fsb_mem s) (list_heads s ! i) (Ls ! i) \<and> distinct (Ls ! i) \<and>
       fst ` live \<inter> set (Ls ! i) = {}"
    "fb_inv (fallback_allocator s) (handed_out live Ls)"
  shows "fsb_inv fb_req fb_inv s live"
  using assms unfolding fsb_inv_def by blast

lemma fsb_invE:
  assumes "fsb_inv fb_req fb_inv s live"
  obtains Ls where "length (list_heads s) = 9" "\<forall>b\<in>live. fsb_req fb_req (snd b)" "inj_on fst live"
    "length Ls = 9"
    "\<forall>i<9. node_list (fsb_mem s) (list_heads s ! i) (Ls ! i) \<and> distinct (Ls ! i) \<and>
       fst ` live \<inter> set (Ls ! i) = {}"
    "fb_inv (fallback_allocator s) (handed_out live Ls)"
  using assms unfolding fsb_inv_def by blast

context fallback_heap
begin

lemma fallback_alloc_law:
  assumes inv: "fsb_inv fb_req fb_inv s live" and l: "fsb_req fb_req l"
    and c: "class_layout l = l'" "fb_req l'"
  shows "\<exists>p s'. fallback_alloc F l' s = (Ret p, s') \<and>
    (if p = 0 then fsb_inv fb_req fb_inv s' live
     else (p, l) \<notin> live \<and> fsb_inv fb_req fb_inv s' (insert (p, l) live))"
proof -
  obtain Ls where heads: "length (list_heads s) = 9" and req: "\<forall>b\<in>live. fsb_req fb_req (snd b)"
    and inj: "inj_on fst live" and Ls: "length Ls = 9"
    and lists: "\<forall>i<9. node_list (fsb_mem s) (list_heads s ! i) (Ls ! i) \<and> distinct (Ls ! i) \<and>
      fst ` live \<inter> set (Ls ! i) = {}"
    and fb: "fb_inv (fallback_allocator s) (handed_out live Ls)"
    using inv by (rule fsb_invE)
  have v: "valid_request l'" using class_layout_facts(1) [of l] l c by (simp add: fsb_req_def)
  from fb_alloc_law [OF fb v c(2)] show ?thesis
  proof (elim disjE exE conjE)
    fix h' assume run: "fb_allocate_first_fit F l' (fallback_allocator s) = (Err (), h')"
      and fb': "fb_inv h' (handed_out live Ls)"
    have "fsb_inv fb_req fb_inv (s\<lparr>fallback_allocator := h'\<rparr>) live"
      by (rule fsb_invI [where Ls = Ls]) (use heads req inj Ls lists fb' in simp_all)
    then show ?thesis using run by (simp add: fallback_alloc_def)
  next
    fix p h' assume run: "fb_allocate_first_fit F l' (fallback_allocator s) = (Ok p, h')"
      and new: "(p, l') \<notin> handed_out live Ls" and fb': "fb_inv h' (insert (p, l') (handed_out live Ls))"
    note ok = fb_live [OF fb']
    have p0: "p \<noteq> 0" using ok by (simp add: live_ok_def)
    have only: "q \<noteq> p" if "(q, k) \<in> handed_out live Ls" for q k
      using live_ok_fst [OF ok, of "(q, k)" "(p, l')"] that new by auto
    have pl: "p \<notin> fst ` live" using only handed_out_live by (metis imageE)
    have pf: "p \<notin> set (Ls ! i)" if "i < 9" for i using only handed_out_free that by blast
    have "handed_out (insert (p, l) live) Ls = insert (p, l') (handed_out live Ls)"
      using c(1) by (simp add: handed_out_def)
    then have "fsb_inv fb_req fb_inv (s\<lparr>fallback_allocator := h'\<rparr>) (insert (p, l) live)"
      by (intro fsb_invI [where Ls = Ls]) (use heads req l inj pl pf Ls lists fb' in \<open>auto simp: image_iff\<close>)
    moreover have "(p, l) \<notin> live" using pl by force
    ultimately show ?thesis using run p0 by (simp add: fallback_alloc_def)
  qed
qed

lemma list_take_law:
  assumes inv: "fsb_inv fb_req fb_inv s live" and l: "fsb_req fb_req l"
    and i: "list_index l = Some i" and hit: "list_heads s ! i = Some p"
    and s': "s' = s\<lparr>list_heads := (list_heads s)[i := fsb_mem s p], fsb_mem := (fsb_mem s)(p := None)\<rparr>"
  shows "p \<noteq> 0 \<and> (p, l) \<notin> live \<and> fsb_inv fb_req fb_inv s' (insert (p, l) live)"
proof -
  obtain Ls where heads: "length (list_heads s) = 9" and req: "\<forall>b\<in>live. fsb_req fb_req (snd b)"
    and inj: "inj_on fst live" and Ls: "length Ls = 9"
    and lists: "\<forall>i<9. node_list (fsb_mem s) (list_heads s ! i) (Ls ! i) \<and> distinct (Ls ! i) \<and>
      fst ` live \<inter> set (Ls ! i) = {}"
    and fb: "fb_inv (fallback_allocator s) (handed_out live Ls)"
    using inv by (rule fsb_invE)
  have i9: "i < 9" using list_index_Some(1) [OF i] l by (simp add: fsb_req_def)
  then obtain as where as: "Ls ! i = p # as" and tl: "node_list (fsb_mem s) (fsb_mem s p) as"
    using lists hit by (cases "Ls ! i") auto
  have "p \<notin> fst ` (live - {(p, l)})" if "p \<notin> fst ` live" using that by blast
  moreover have "distinct (p # as)" "fst ` live \<inter> set (p # as) = {}" using lists i9 as by metis+
  ultimately have pl: "p \<notin> fst ` live" "p \<notin> fst ` (live - {(p, l)})" and das: "p \<notin> set as" "distinct as" "fst ` live \<inter> set as = {}"
    by simp_all
  note ok = fb_live [OF fb]
  have other: "p \<notin> set (Ls ! j)" if "j < 9" "j \<noteq> i" for j
    using one_class [OF ok i9 that(1), of p] that(2) as by auto
  have out: "handed_out (insert (p, l) live) (Ls[i := as]) = handed_out live Ls"
    by (rule handed_out_take [OF Ls i9 as]) (simp add: class_layout_def i)
  have each: "node_list (fsb_mem s') (list_heads s' ! j) (Ls[i := as] ! j) \<and> distinct (Ls[i := as] ! j) \<and>
      fst ` insert (p, l) live \<inter> set (Ls[i := as] ! j) = {}" if j: "j < 9" for j
  proof (cases "j = i")
    case True
    then show ?thesis
      using node_list_frame [OF tl, of "fsb_mem s'"] das heads Ls i9 by (auto simp: s')
  next
    case False
    then show ?thesis
      using node_list_frame [of "fsb_mem s" "list_heads s ! j" "Ls ! j" "fsb_mem s'"] lists j other [OF j]
      by (auto simp: s')
  qed
  have "fsb_inv fb_req fb_inv s' (insert (p, l) live)"
    by (rule fsb_invI [where Ls = "Ls[i := as]"])
      (use heads req l inj pl Ls each fb out in \<open>simp_all add: s'\<close>)
  moreover have "(p, block_layout i) \<in> handed_out live Ls" using handed_out_free [OF i9] as by simp
  then have "p \<noteq> 0" using ok by (auto simp: live_ok_def)
  ultimately show ?thesis using pl by force
qed

lemma fsb_alloc_law:
  assumes inv: "fsb_inv fb_req fb_inv s live" and l: "fsb_req fb_req l"
  shows "\<exists>p s'. fsb_call F l s = Some (Ret p, s') \<and>
    (if p = 0 then fsb_inv fb_req fb_inv s' live
     else (p, l) \<notin> live \<and> fsb_inv fb_req fb_inv s' (insert (p, l) live))"
proof (cases "list_index l")
  case None
  then show ?thesis
    using fallback_alloc_law [OF assms, of l] l
    by (simp add: fsb_call_def fsb_alloc_def class_layout_def fsb_req_def)
next
  case (Some i)
  then have i9: "i < 9" using list_index_Some(1) l by (simp add: fsb_req_def)
  show ?thesis
  proof (cases "list_heads s ! i")
    case None
    then show ?thesis
      using fallback_alloc_law [OF assms, of "block_layout i"] block_layout_ok(1) [OF i9] fb_blocks [OF i9] Some
      by (simp add: fsb_call_def fsb_alloc_def class_layout_def)
  next
    case (Some p)
    then show ?thesis
      using list_take_law [OF assms \<open>list_index l = Some i\<close> Some refl] \<open>list_index l = Some i\<close>
      by (simp add: fsb_call_def fsb_alloc_def)
  qed
qed

lemma fsb_dealloc_law:
  assumes inv: "fsb_inv fb_req fb_inv s live" and b: "(p, l) \<in> live"
  shows "\<exists>s'. fsb_dealloc F p l s = (Ret (), s') \<and> fsb_inv fb_req fb_inv s' (live - {(p, l)})"
proof -
  obtain Ls where heads: "length (list_heads s) = 9" and req: "\<forall>b\<in>live. fsb_req fb_req (snd b)"
    and inj: "inj_on fst live" and Ls: "length Ls = 9"
    and lists: "\<forall>i<9. node_list (fsb_mem s) (list_heads s ! i) (Ls ! i) \<and> distinct (Ls ! i) \<and>
      fst ` live \<inter> set (Ls ! i) = {}"
    and fb: "fb_inv (fallback_allocator s) (handed_out live Ls)"
    using inv by (rule fsb_invE)
  note ok = fb_live [OF fb]
  have l: "valid_request l" using req b by (auto simp: fsb_req_def)
  have inj': "inj_on fst (live - {(p, l)})" using inj by (rule inj_on_subset) auto
  have gone: "p \<notin> fst ` (live - {(p, l)})" using inj inj_on_image_set_diff [OF inj, of live "{(p, l)}"] b by simp
  have pf: "p \<notin> set (Ls ! j)" if "j < 9" for j using lists b that by force
  show ?thesis
  proof (cases "list_index l")
    case None
    have cl: "(p, l) \<in> handed_out live Ls"
      using handed_out_live [OF b, of Ls] None by (simp add: class_layout_def)
    have out: "handed_out (live - {(p, l)}) Ls = handed_out live Ls - {(p, l)}"
      by (rule handed_out_drop [OF b _ gone pf]) (simp_all add: class_layout_def None)
    have "fsb_inv fb_req fb_inv (s\<lparr>fallback_allocator := fb_deallocate F p l (fallback_allocator s)\<rparr>)
        (live - {(p, l)})"
      by (rule fsb_invI [where Ls = Ls])
        (use heads req inj' Ls lists fb_dealloc_law [OF fb cl] out in auto)
    moreover have "p \<noteq> 0" using ok cl by (auto simp: live_ok_def)
    ultimately show ?thesis using None by (simp add: fsb_dealloc_def)
  next
    case (Some i)
    note i9 = list_index_Some(1) [OF Some l]
    define s' where "s' = s\<lparr>list_heads := (list_heads s)[i := Some p],
      fsb_mem := (fsb_mem s)(p := list_heads s ! i)\<rparr>"
    have out: "handed_out (live - {(p, l)}) (Ls[i := p # Ls ! i]) = handed_out live Ls"
      by (rule handed_out_put [OF Ls i9 b _ inj]) (simp add: class_layout_def Some)
    have each: "node_list (fsb_mem s') (list_heads s' ! j) (Ls[i := p # Ls ! i] ! j) \<and>
        distinct (Ls[i := p # Ls ! i] ! j) \<and> fst ` (live - {(p, l)}) \<inter> set (Ls[i := p # Ls ! i] ! j) = {}"
      if j: "j < 9" for j
    proof -
      have fr: "node_list (fsb_mem s') (list_heads s ! j) (Ls ! j)"
        by (rule node_list_frame [of "fsb_mem s"]) (use lists j pf [OF j] in \<open>auto simp: s'_def\<close>)
      have "distinct (Ls ! j)" "fst ` live \<inter> set (Ls ! j) = {}" using lists j by simp_all
      then show ?thesis using fr pf [OF j] gone heads Ls i9
        by (cases "j = i") (auto simp: s'_def)
    qed
    have "fsb_inv fb_req fb_inv s' (live - {(p, l)})"
      by (rule fsb_invI [where Ls = "Ls[i := p # Ls ! i]"])
        (use heads req inj' Ls each fb out in \<open>simp_all add: s'_def\<close>)
    then show ?thesis
      using Some BLOCK_SIZES_ge [OF i9] by (simp add: fsb_dealloc_def Let_def size_of_node_def align_of_node_def s'_def)
  qed
qed

lemma free_block_apart:
  assumes ok: "live_ok lo hi (handed_out live Ls)" and req: "\<forall>b\<in>live. fsb_req fb_req (snd b)"
    and i: "i < 9" and a: "a \<in> set (Ls ! i)" and free: "fst ` live \<inter> set (Ls ! i) = {}" and b: "b \<in> live"
  shows "{unat a..<unat a + 8} \<inter> extent b = {}"
proof -
  let ?c = "(fst b, class_layout (snd b))"
  have "(a, block_layout i) \<noteq> ?c" using free a b by auto
  then have "extent (a, block_layout i) \<inter> extent ?c = {}"
    using ok pairwiseD [of _ "handed_out live Ls" "(a, block_layout i)" ?c]
      handed_out_free [OF i a] handed_out_live [OF b] by (auto simp: live_ok_def)
  moreover have "extent b \<subseteq> extent ?c"
    using class_layout_facts(4) [of "snd b" "fst b"] req b by (simp add: fsb_req_def)
  moreover have "{unat a..<unat a + 8} \<subseteq> extent (a, block_layout i)"
    using BLOCK_SIZES_ge [OF i] by (simp add: extent_def block_layout_def word_le_nat_alt)
  ultimately show ?thesis by blast
qed

lemma fsb_write_law:
  assumes inv: "fsb_inv fb_req fb_inv s live" and w: "fsb_writes live s s'"
  shows "fsb_inv fb_req fb_inv s' live"
proof -
  obtain Ls where heads: "length (list_heads s) = 9" and req: "\<forall>b\<in>live. fsb_req fb_req (snd b)"
    and inj: "inj_on fst live" and Ls: "length Ls = 9"
    and lists: "\<forall>i<9. node_list (fsb_mem s) (list_heads s ! i) (Ls ! i) \<and> distinct (Ls ! i) \<and>
      fst ` live \<inter> set (Ls ! i) = {}"
    and fb: "fb_inv (fallback_allocator s) (handed_out live Ls)"
    using inv by (rule fsb_invE)
  have "node_list (fsb_mem s') (list_heads s' ! i) (Ls ! i)" if i: "i < 9" for i
  proof -
    have "fst ` live \<inter> set (Ls ! i) = {}" "node_list (fsb_mem s) (list_heads s ! i) (Ls ! i)"
      using lists i by simp_all
    then show ?thesis
      using w free_block_apart [OF fb_live [OF fb] req i] node_list_frame by (simp add: fsb_writes_def)
  qed
  then show ?thesis
    by (intro fsb_invI [where Ls = Ls]) (use heads req inj Ls lists fb w in \<open>simp_all add: fsb_writes_def\<close>)
qed

lemma fsb_inv_live:
  assumes "fsb_inv fb_req fb_inv s live"
  shows "live_ok lo hi live"
  using assms
proof (rule fsb_invE)
  fix Ls
  assume "fb_inv (fallback_allocator s) (handed_out live Ls)" "inj_on fst live"
    "\<forall>b\<in>live. fsb_req fb_req (snd b)"
  then show ?thesis
    by (intro class_live_ok [OF fb_live]) (auto simp: fsb_req_def handed_out_def)
qed

lemma fsb_init_inv:
  assumes "unat start = lo" "unat start + unat sz = hi"
  shows "fsb_inv fb_req fb_inv (fsb_init F start sz (fsb_new F mem)) {}"
  by (rule fsb_invI [where Ls = "replicate 9 []"])
    (use fb_init_law [OF assms] in \<open>simp_all add: fsb_init_def fsb_new_def handed_out_def\<close>)

end

sublocale fallback_heap \<subseteq>
  fsb: global_alloc "fsb_req fb_req" "fsb_call F" "fsb_dealloc F" fsb_writes "fsb_inv fb_req fb_inv" lo hi
  by unfold_locales (fact fsb_inv_live fsb_alloc_law fsb_dealloc_law fsb_write_law)+

context fallback_heap
begin

lemmas fsb_safe = fsb.client_safe [OF _ fsb_init_inv]

end

subsection \<open>The repository's own linked-list allocator as the fallback\<close>

definition ll_fallback :: "(usize \<Rightarrow> ListNode) \<Rightarrow> LinkedListAllocator fallback" where
  "ll_fallback mem = \<lparr>
     fb_empty = ll_new mem,
     fb_init = (\<lambda>start sz h. snd (ll_init start sz h)),
     fb_allocate_first_fit = (\<lambda>layout h.
       case ll_alloc layout h of
         Some (Ret p, h') \<Rightarrow> (if p = 0 then Err () else Ok p, h')
       | Some (Panic, h') \<Rightarrow> (Err (), h')
       | None \<Rightarrow> (Err (), h)),
     fb_deallocate = (\<lambda>p layout h. snd (ll_dealloc p layout h)) \<rparr>"

lemma block_layout_servable:
  assumes "i < 9"
  shows "ll_servable (block_layout i)"
proof -
  have "align_to (block_layout i) align_of_ListNode = Ok (block_layout i)"
    using block_layout_ok(1) [OF assms] BLOCK_SIZES_ge [OF assms]
    by (simp add: align_to_def align_of_ListNode_def block_layout_def max_def)
  then have "size_align (block_layout i) \<noteq> Panic" by (simp add: size_align_def Let_def)
  then show ?thesis using block_layout_ok(2) [OF assms] by (simp add: ll_servable_def)
qed

interpretation ll_fb: fallback_heap "ll_fallback mem" ll_servable
    "ll_inv (unat HEAP_START) (unat HEAP_START + unat HEAP_SIZE)"
    "unat HEAP_START" "unat HEAP_START + unat HEAP_SIZE"
  for mem :: "usize \<Rightarrow> ListNode"
proof
  fix h live i l p start sz
  let ?inv = "ll_inv (unat HEAP_START) (unat HEAP_START + unat HEAP_SIZE)"
  show "live_ok (unat HEAP_START) (unat HEAP_START + unat HEAP_SIZE) live" if "?inv h live"
    using that by (rule ll.inv_live)
  show "ll_servable (block_layout i)" if "i < 9" using that by (rule block_layout_servable)
  show "(\<exists>p h'. fb_allocate_first_fit (ll_fallback mem) l h = (Ok p, h') \<and> (p, l) \<notin> live \<and>
      ?inv h' (insert (p, l) live)) \<or>
    (\<exists>h'. fb_allocate_first_fit (ll_fallback mem) l h = (Err (), h') \<and> ?inv h' live)"
    if "?inv h live" "ll_servable l"
    using ll.alloc_law [OF that] by (auto simp: ll_fallback_def split: if_splits)
  show "?inv (fb_deallocate (ll_fallback mem) p l h) (live - {(p, l)})" if "?inv h live" "(p, l) \<in> live"
    using ll.dealloc_law [OF that] by (auto simp: ll_fallback_def)
  show "?inv (fb_init (ll_fallback mem) start sz (fb_empty (ll_fallback mem))) {}"
    if "unat start = unat HEAP_START" "unat start + unat sz = unat HEAP_START + unat HEAP_SIZE"
  proof -
    have "start = HEAP_START" "sz = HEAP_SIZE" using that by (simp_all add: unsigned_word_eqI)
    then show ?thesis
      using ll_init_inv [of HEAP_START HEAP_SIZE mem]
      by (auto simp: ll_fallback_def HEAP_START_def HEAP_SIZE_def)
  qed
qed

subsection \<open>Safety and reuse\<close>

text \<open>
  C3: The allocator the kernel installs is safe for every client, over every fallback heap that
  keeps its contract. However requests, releases and writes into held blocks are mixed, the
  blocks the client holds are inside the heap, aligned and disjoint; no call panics, neither at
  the \<open>unwrap\<close> of the block layout nor at the two assertions of \<open>dealloc\<close>.
\<close>

theorem fsb_client_safe:
  assumes "fallback_heap F fb_req fb_inv (unat start) (unat start + unat sz)"
    and "client_reach (fsb_req fb_req) (fsb_call F) (fsb_dealloc F) fsb_writes
      (fsb_init F start sz (fsb_new F mem)) s live"
  shows "live_ok (unat start) (unat start + unat sz) live \<and>
    (fsb_req fb_req l \<longrightarrow> (\<exists>p s'. fsb_call F l s = Some (Ret p, s') \<and>
       (p \<noteq> 0 \<longrightarrow> (p, l) \<notin> live \<and> live_ok (unat start) (unat start + unat sz) (insert (p, l) live)))) \<and>
    (b \<in> live \<longrightarrow> (\<exists>s'. fsb_dealloc F (fst b) (snd b) s = (Ret (), s')))"
  by (rule fallback_heap.fsb_safe [OF assms refl refl])

theorem fsb_client_safe_witness:
  "\<exists>p s'. fsb_call (ll_fallback (\<lambda>_. ListNode_new 0)) (Layout 24 8)
     (fsb_init (ll_fallback (\<lambda>_. ListNode_new 0)) HEAP_START HEAP_SIZE
        (fsb_new (ll_fallback (\<lambda>_. ListNode_new 0)) (\<lambda>_. None))) = Some (Ret p, s')"
proof -
  have "fsb_req ll_servable (Layout 24 8)"
    by (simp add: fsb_req_def valid_request_def valid_layout_def from_size_align_def is_power_of_two_8
        ISIZE_MAX_def list_index_def BLOCK_SIZES_def Let_def max_def)
  then show ?thesis
    using fsb_client_safe [OF ll_fb.fallback_heap_axioms client_reach.start, of "Layout 24 8"] by blast
qed

text \<open>
  C34: Releasing a block of one of the nine classes and asking for any layout of the same class
  hands the very same block out again, without a call to the fallback, and leaves the free lists
  as they were before the release.
\<close>

theorem fsb_dealloc_alloc:
  assumes "list_index l = Some i" "list_index l' = Some i" "i < length (list_heads s)"
    and "fsb_dealloc F p l s = (Ret (), s1)"
  shows "\<exists>s2. fsb_alloc F l' s1 = (Ret p, s2) \<and> list_heads s2 = list_heads s \<and>
    fallback_allocator s2 = fallback_allocator s \<and> (\<forall>a. a \<noteq> p \<longrightarrow> fsb_mem s2 a = fsb_mem s a)"
proof -
  have "s1 = s\<lparr>list_heads := (list_heads s)[i := Some p], fsb_mem := (fsb_mem s)(p := list_heads s ! i)\<rparr>"
    using assms(1,4) by (simp add: fsb_dealloc_def Let_def split: if_splits)
  then show ?thesis using assms(2,3) by (simp add: fsb_alloc_def)
qed

theorem fsb_dealloc_alloc_witness:
  "\<exists>s1 s2. fsb_dealloc (ll_fallback (\<lambda>_. ListNode_new 0)) 4096 (Layout 24 8)
       (fsb_new (ll_fallback (\<lambda>_. ListNode_new 0)) (\<lambda>_. None)) = (Ret (), s1) \<and>
     fsb_alloc (ll_fallback (\<lambda>_. ListNode_new 0)) (Layout 32 32) s1 = (Ret 4096, s2)"
proof -
  let ?s = "fsb_new (ll_fallback (\<lambda>_. ListNode_new 0)) (\<lambda>_. None)"
  have ix: "list_index (Layout 24 8) = Some 2" "list_index (Layout 32 32) = Some 2"
    by (simp_all add: list_index_def BLOCK_SIZES_def Let_def max_def)
  obtain s1 where s1: "fsb_dealloc (ll_fallback (\<lambda>_. ListNode_new 0)) 4096 (Layout 24 8) ?s = (Ret (), s1)"
    by (simp add: fsb_dealloc_def ix BLOCK_SIZES_def size_of_node_def align_of_node_def Let_def)
  then show ?thesis
    using fsb_dealloc_alloc [OF ix _ s1] by (auto simp: fsb_new_def)
qed

end
