(* ===== verification/Heap_Init.thy ===== *)
theory Heap_Init
  imports Memory Fixed_Size_Block
begin

section \<open>Mapping the kernel heap (\<open>src/src/allocator.rs\<close>, \<open>init_heap\<close>)\<close>

text \<open>
  \<open>init_heap\<close> puts a frame allocator, a page mapper and the global allocator together. Pages and
  the mapper are those of the package \<open>x86_64\<close>, outside the repository: the records \<open>page_ops\<close>
  and \<open>Mapper\<close>, with their documented behaviour in the locales \<open>pages_spec\<close> and \<open>heap_env\<close>. The
  TLB flush after a mapping has no effect on the state modelled here.
\<close>

unbundle bit_operations_syntax

record 'p page_ops =
  virt_new :: "u64 \<Rightarrow> u64 outcome"
  virt_plus :: "u64 \<Rightarrow> u64 \<Rightarrow> u64 outcome"
  virt_minus :: "u64 \<Rightarrow> u64 \<Rightarrow> u64 outcome"
  page_containing :: "u64 \<Rightarrow> 'p"
  page_start :: "'p \<Rightarrow> u64"
  range_inclusive :: "'p \<Rightarrow> 'p \<Rightarrow> 'p list"
  PRESENT :: u64
  WRITABLE :: u64

datatype 'x MapToError = FrameAllocationFailed | MapToOther 'x

record ('p, 'f, 'm, 's, 'x) Mapper =
  map_to :: "'p \<Rightarrow> 'f \<Rightarrow> u64 \<Rightarrow> 'm \<Rightarrow> 's \<Rightarrow> (unit, 'x MapToError) result \<times> 'm \<times> 's"

record ('m, 's, 'h) heap_world =
  hw_mapper :: 'm
  hw_frames :: 's
  ALLOCATOR :: "'h FixedSizeBlockAllocator"

definition heap_pages :: "'p page_ops \<Rightarrow> 'p list outcome" where
  "heap_pages P =
     bind_out (virt_new P HEAP_START) (\<lambda>heap_start.
     bind_out (bind_out (virt_plus P heap_start HEAP_SIZE) (\<lambda>e. virt_minus P e 1)) (\<lambda>heap_end.
     let heap_start_page = page_containing P heap_start;
         heap_end_page = page_containing P heap_end in
     Ret (range_inclusive P heap_start_page heap_end_page)))"

definition take_frame ::
    "('s \<Rightarrow> ('f option \<times> 's) outcome) \<Rightarrow> (('m, 's, 'h) heap_world, 'f option, 'x MapToError) io" where
  "take_frame fa w =
     (case fa (hw_frames w) of
        Panic \<Rightarrow> (Panic, w)
      | Ret (r, s) \<Rightarrow> (Ret (Ok r), w\<lparr> hw_frames := s \<rparr>))"

definition map_page ::
    "('p, 'f, 'm, 's, 'x) Mapper \<Rightarrow> 'p \<Rightarrow> 'f \<Rightarrow> u64 \<Rightarrow> (('m, 's, 'h) heap_world, unit, 'x MapToError) io" where
  "map_page M page frame flags w =
     (case map_to M page frame flags (hw_mapper w) (hw_frames w) of
        (r, m, s) \<Rightarrow> (Ret r, w\<lparr> hw_mapper := m, hw_frames := s \<rparr>))"

definition init_allocator :: "'h fallback \<Rightarrow> (('m, 's, 'h) heap_world, unit, 'x MapToError) io" where
  "init_allocator F w =
     (Ret (Ok ()), w\<lparr> ALLOCATOR := fsb_init F HEAP_START HEAP_SIZE (ALLOCATOR w) \<rparr>)"

text \<open>The body of the loop, for each page of the heap.\<close>

fun init_pages ::
    "'p page_ops \<Rightarrow> ('p, 'f, 'm, 's, 'x) Mapper \<Rightarrow> ('s \<Rightarrow> ('f option \<times> 's) outcome) \<Rightarrow> 'h fallback
       \<Rightarrow> 'p list \<Rightarrow> (('m, 's, 'h) heap_world, unit, 'x MapToError) io" where
  "init_pages P M fa F [] = io_return ()"
| "init_pages P M fa F (page # pages) =
     io_bind (io_bind (take_frame fa) (\<lambda>fr. io_ok_or fr FrameAllocationFailed)) (\<lambda>frame.
     let flags = PRESENT P OR WRITABLE P in
     io_bind (map_page M page frame flags) (\<lambda>_.
     io_bind (init_allocator F) (\<lambda>_.
     init_pages P M fa F pages)))"

definition init_heap ::
    "'p page_ops \<Rightarrow> ('p, 'f, 'm, 's, 'x) Mapper \<Rightarrow> ('s \<Rightarrow> ('f option \<times> 's) outcome) \<Rightarrow> 'h fallback
       \<Rightarrow> (('m, 's, 'h) heap_world, unit, 'x MapToError) io" where
  "init_heap P M fa F = io_bind (io_out (heap_pages P)) (\<lambda>page_range. init_pages P M fa F page_range)"

text \<open>\<open>create_example_mapping\<close> of \<open>src/src/memory.rs\<close>, which maps a page to the VGA buffer.\<close>

definition create_example_mapping ::
    "'p page_ops \<Rightarrow> ('f, 'e) paging \<Rightarrow> ('p, 'f, 'm, 's, 'x) Mapper \<Rightarrow> 'p \<Rightarrow> 'm \<Rightarrow> 's \<Rightarrow> unit outcome \<times> 'm \<times> 's" where
  "create_example_mapping P X M page m s =
     (case phys_new X 0xb8000 of
        Panic \<Rightarrow> (Panic, m, s)
      | Ret a \<Rightarrow>
          let frame = containing_address X a;
              flags = PRESENT P OR WRITABLE P in
          (case map_to M page frame flags m s of
             (Ok _, m', s') \<Rightarrow> (Ret (), m', s')
           | (Err _, m', s') \<Rightarrow> (Panic, m', s')))"

subsection \<open>What the packages promise\<close>

locale pages_spec =
  fixes P :: "'p page_ops"
  assumes virt_law: "unat a < 2 ^ 47 \<Longrightarrow> virt_new P a = Ret a"
      "unat a + unat b < 2 ^ 47 \<Longrightarrow> virt_plus P a b = Ret (a + b)"
      "\<lbrakk>unat a < 2 ^ 47; b \<le> a\<rbrakk> \<Longrightarrow> virt_minus P a b = Ret (a - b)"
    and page_law: "unat (page_start P (page_containing P a)) = unat a - unat a mod 4096"
    and range_law: "map (\<lambda>p. unat (page_start P p)) (range_inclusive P p q) =
      map (\<lambda>k. unat (page_start P p) + k * 4096)
        [0..<(unat (page_start P q) + 4096 - unat (page_start P p)) div 4096]"

text \<open>\<open>mapping m\<close> is the address space the mapper has built.\<close>

locale heap_env = frame_source fa fa_inv
  for fa :: "'s \<Rightarrow> ('f option \<times> 's) outcome" and fa_inv :: "'s \<Rightarrow> 'f set \<Rightarrow> bool" +
  fixes M :: "('p, 'f, 'm, 's, 'x) Mapper"
    and mapping :: "'m \<Rightarrow> 'p \<Rightarrow> ('f \<times> u64) option"
  assumes map_ok: "\<lbrakk>fa_inv s used; f \<in> used; map_to M p f fl m s = (Ok u, m', s')\<rbrakk> \<Longrightarrow>
      mapping m p = None \<and> mapping m' = (mapping m)(p \<mapsto> (f, fl)) \<and> (\<exists>used'. used \<subseteq> used' \<and> fa_inv s' used')"
    and map_err: "\<lbrakk>fa_inv s used; f \<in> used; map_to M p f fl m s = (Err e, m', s')\<rbrakk> \<Longrightarrow>
      mapping m' = mapping m"

text \<open>
  An environment in which mapping does not fail: \<open>frames_left\<close> frames are left, the mapper takes
  at most three of them for new page tables, and it maps a page that is not mapped yet.
\<close>

locale reliable_heap_env = heap_env fa fa_inv M mapping
  for fa :: "'s \<Rightarrow> ('f option \<times> 's) outcome" and fa_inv :: "'s \<Rightarrow> 'f set \<Rightarrow> bool"
    and M :: "('p, 'f, 'm, 's, 'x) Mapper" and mapping :: "'m \<Rightarrow> 'p \<Rightarrow> ('f \<times> u64) option" +
  fixes frames_left :: "'s \<Rightarrow> nat"
  assumes fa_some: "\<lbrakk>fa_inv s used; 0 < frames_left s\<rbrakk> \<Longrightarrow>
      \<exists>f s'. fa s = Ret (Some f, s') \<and> frames_left s \<le> frames_left s' + 1"
    and map_total: "\<lbrakk>fa_inv s used; f \<in> used; mapping m p = None; 3 \<le> frames_left s\<rbrakk> \<Longrightarrow>
      \<exists>m' s'. map_to M p f fl m s = (Ok (), m', s') \<and> frames_left s \<le> frames_left s' + 3"

subsection \<open>The run of the loop\<close>

context pages_spec
begin

lemma heap_pages_run:
  obtains ps where "heap_pages P = Ret ps"
    "map (\<lambda>p. unat (page_start P p)) ps = map (\<lambda>k. unat HEAP_START + k * 4096) [0..<25]"
    "distinct ps" "length ps = 25"
proof -
  define ps where "ps = range_inclusive P (page_containing P HEAP_START)
    (page_containing P (HEAP_START + HEAP_SIZE - 1))"
  have "virt_new P HEAP_START = Ret HEAP_START"
    "virt_plus P HEAP_START HEAP_SIZE = Ret (HEAP_START + HEAP_SIZE)"
    "virt_minus P (HEAP_START + HEAP_SIZE) 1 = Ret (HEAP_START + HEAP_SIZE - 1)"
    by (rule virt_law; simp add: HEAP_START_def HEAP_SIZE_def)+
  then have run: "heap_pages P = Ret ps" by (simp add: heap_pages_def ps_def Let_def)
  have "unat (page_start P (page_containing P HEAP_START)) = unat HEAP_START"
    "unat (page_start P (page_containing P (HEAP_START + HEAP_SIZE - 1))) = unat HEAP_START + 24 * 4096"
    by (simp_all add: page_law HEAP_START_def HEAP_SIZE_def)
  then have starts: "map (\<lambda>p. unat (page_start P p)) ps = map (\<lambda>k. unat HEAP_START + k * 4096) [0..<25]"
    by (simp add: ps_def range_law del: upt_rec_numeral)
  then have "distinct (map (\<lambda>p. unat (page_start P p)) ps)"
    by (simp add: distinct_map inj_on_def del: upt_rec_numeral)
  then have "distinct ps" by (simp add: distinct_map)
  moreover have "length ps = 25" using arg_cong [OF starts, of length] by (simp del: upt_rec_numeral)
  ultimately show thesis using that run starts by blast
qed

end

context heap_env
begin

lemma init_pages_trace:
  assumes "fa_inv (hw_frames w) used" "distinct ps" "init_pages P M fa F ps w = (Ret r, w')"
  shows "\<exists>k fs. (case r of Ok _ \<Rightarrow> k = length ps | Err _ \<Rightarrow> k < length ps) \<and>
    length fs = k \<and> distinct fs \<and> set fs \<inter> used = {} \<and>
    (\<forall>i<k. mapping (hw_mapper w') (ps ! i) = Some (fs ! i, PRESENT P OR WRITABLE P)) \<and>
    (\<forall>q. q \<notin> set (take k ps) \<longrightarrow> mapping (hw_mapper w') q = mapping (hw_mapper w) q) \<and>
    ALLOCATOR w' = (fsb_init F HEAP_START HEAP_SIZE ^^ k) (ALLOCATOR w)"
  using assms
proof (induction ps arbitrary: w used)
  case Nil
  then show ?case by (intro exI [of _ 0] exI [of _ "[]"]) (auto simp: io_simps)
next
  case (Cons p ps)
  let ?fl = "PRESENT P OR WRITABLE P"
  have stop: ?case if "mapping (hw_mapper w') = mapping (hw_mapper w)" "ALLOCATOR w' = ALLOCATOR w" "r = Err e" for e
    using that by (intro exI [of _ 0] exI [of _ "[]"]) simp
  obtain fr s1 where fa: "fa (hw_frames w) = Ret (fr, s1)"
    using Cons.prems(3) by (cases "fa (hw_frames w)") (auto simp: take_frame_def io_bind_def)
  show ?case
  proof (cases fr)
    case None
    then show ?thesis using stop Cons.prems(3) fa by (auto simp: take_frame_def io_bind_def io_simps)
  next
    case (Some f)
    from fa_fresh [OF Cons.prems(1)] fa Some have fresh: "f \<notin> used" "fa_inv s1 (insert f used)" by auto
    obtain mr m2 s2 where mt: "map_to M p f ?fl (hw_mapper w) s1 = (mr, m2, s2)" by (metis prod_cases3)
    show ?thesis
    proof (cases mr)
      case (Err e)
      then have "r = Err e" "w' = w\<lparr>hw_mapper := m2, hw_frames := s2\<rparr>"
        using Cons.prems(3) fa Some mt by (simp_all add: take_frame_def io_bind_def io_simps map_page_def)
      then show ?thesis using stop map_err [OF fresh(2) insertI1] mt Err by auto
    next
      case (Ok u)
      define w2 where "w2 = w\<lparr>hw_mapper := m2, hw_frames := s2,
        ALLOCATOR := fsb_init F HEAP_START HEAP_SIZE (ALLOCATOR w)\<rparr>"
      have rest: "init_pages P M fa F ps w2 = (Ret r, w')"
        using Cons.prems(3) fa Some mt Ok
        by (simp add: take_frame_def io_bind_def io_simps map_page_def init_allocator_def w2_def)
      obtain used' where used': "insert f used \<subseteq> used'" "fa_inv (hw_frames w2) used'"
        and mp: "mapping (hw_mapper w2) = (mapping (hw_mapper w))(p \<mapsto> (f, ?fl))"
        using map_ok [OF fresh(2) insertI1, of p ?fl "hw_mapper w" u m2 s2] mt Ok by (auto simp: w2_def)
      from Cons.IH [OF used'(2) _ rest] Cons.prems(2) obtain k fs where
        k: "case r of Ok _ \<Rightarrow> k = length ps | Err _ \<Rightarrow> k < length ps" and
        fs: "length fs = k" "distinct fs" "set fs \<inter> used' = {}" and
        new: "\<forall>i<k. mapping (hw_mapper w') (ps ! i) = Some (fs ! i, ?fl)" and
        old: "\<forall>q. q \<notin> set (take k ps) \<longrightarrow> mapping (hw_mapper w') q = mapping (hw_mapper w2) q" and
        al: "ALLOCATOR w' = (fsb_init F HEAP_START HEAP_SIZE ^^ k) (ALLOCATOR w2)"
        by auto
      have "p \<notin> set (take k ps)" using Cons.prems(2) by (auto dest: in_set_takeD)
      then have "mapping (hw_mapper w') p = Some (f, ?fl)" using old mp by simp
      with k fs new old mp al used'(1) fresh(1) show ?thesis
        by (intro exI [of _ "Suc k"] exI [of _ "f # fs"])
          (auto simp: w2_def nth_Cons funpow_swap1 split: result.splits nat.splits)
    qed
  qed
qed

end

context reliable_heap_env
begin

lemma init_pages_total:
  assumes "fa_inv (hw_frames w) used" "distinct ps" "4 * length ps \<le> frames_left (hw_frames w)"
    "\<And>p. p \<in> set ps \<Longrightarrow> mapping (hw_mapper w) p = None"
  shows "\<exists>w' used'. init_pages P M fa F ps w = (Ret (Ok ()), w') \<and> used \<subseteq> used' \<and> fa_inv (hw_frames w') used'"
  using assms
proof (induction ps arbitrary: w used)
  case Nil
  then show ?case by (auto simp: io_simps)
next
  case (Cons p ps)
  let ?fl = "PRESENT P OR WRITABLE P"
  obtain f s1 where fa: "fa (hw_frames w) = Ret (Some f, s1)" "frames_left (hw_frames w) \<le> frames_left s1 + 1"
    using fa_some [OF Cons.prems(1)] Cons.prems(3) by auto
  note fresh = fa_fresh [OF Cons.prems(1) fa(1)]
  obtain m2 s2 where mt: "map_to M p f ?fl (hw_mapper w) s1 = (Ok (), m2, s2)" "frames_left s1 \<le> frames_left s2 + 3"
    using map_total [OF conjunct2 [OF fresh] insertI1, of "hw_mapper w" p ?fl] Cons.prems(3,4) fa(2) by auto
  from map_ok [OF conjunct2 [OF fresh] insertI1 mt(1)] obtain used' where
    mp: "mapping m2 = (mapping (hw_mapper w))(p \<mapsto> (f, ?fl))" and used': "insert f used \<subseteq> used'" "fa_inv s2 used'"
    by blast
  define w2 where "w2 = w\<lparr>hw_mapper := m2, hw_frames := s2, ALLOCATOR := fsb_init F HEAP_START HEAP_SIZE (ALLOCATOR w)\<rparr>"
  have step: "init_pages P M fa F (p # ps) w = init_pages P M fa F ps w2"
    using fa(1) mt(1) by (simp add: take_frame_def io_bind_def io_simps map_page_def init_allocator_def w2_def)
  have "\<exists>w' used''. init_pages P M fa F ps w2 = (Ret (Ok ()), w') \<and> used' \<subseteq> used'' \<and> fa_inv (hw_frames w') used''"
    by (rule Cons.IH) (use Cons.prems used'(2) fa(2) mt(2) mp in \<open>auto simp: w2_def\<close>)
  then show ?case using step used'(1) by auto
qed

end

subsection \<open>Hardware pages and a mapper\<close>

definition x86_pages :: "52 word page_ops" where
  "x86_pages = \<lparr>
     virt_new = (\<lambda>a. Ret a), virt_plus = add_ck, virt_minus = sub_ck,
     page_containing = (\<lambda>a. of_nat (unat a div 4096)), page_start = (\<lambda>p. ucast p * 4096),
     range_inclusive = (\<lambda>p q. map (\<lambda>k. p + of_nat k) [0..<unat q + 1 - unat p]),
     PRESENT = 1, WRITABLE = 2 \<rparr>"

lemma page_plus:
  assumes "k < unat (q::52 word) + 1 - unat (p::52 word)"
  shows "unat (p + of_nat k) = unat p + k"
proof -
  have lt: "unat p + k < 2 ^ LENGTH(52)" using assms unat_bound [of q] by linarith
  then have "unat (of_nat k :: 52 word) = k" by (simp add: unat_of_nat)
  then show ?thesis using unat_add_no_overflow [of p "of_nat k"] lt by simp
qed

interpretation x86_pg: pages_spec x86_pages
proof
  fix a b :: u64 and p q :: "52 word"
  show "virt_plus x86_pages a b = Ret (a + b)" if "unat a + unat b < 2 ^ 47"
    using that by (simp add: x86_pages_def add_ck_def)
  show "unat (page_start x86_pages (page_containing x86_pages a)) = unat a - unat a mod 4096"
    using unat_bound [of a]
    by (simp add: x86_pages_def unat_ucast_page unat_of_nat less_mult_imp_div_less minus_mod_eq_div_mult)
  have "(unat q * 4096 + 4096 - unat p * 4096) div 4096 = unat q + 1 - unat p"
    by (simp flip: mult_Suc_right mult.commute [of 4096] right_diff_distrib')
  then show "map (\<lambda>p. unat (page_start x86_pages p)) (range_inclusive x86_pages p q) =
      map (\<lambda>k. unat (page_start x86_pages p) + k * 4096)
        [0..<(unat (page_start x86_pages q) + 4096 - unat (page_start x86_pages p)) div 4096]"
    by (simp add: x86_pages_def unat_ucast_page page_plus del: upt_Suc)
qed (simp_all add: x86_pages_def)

text \<open>A mapper that needs no frames of its own and refuses to map a page twice.\<close>

definition table_mapper :: "('p, 'f, 'p \<Rightarrow> ('f \<times> u64) option, 's, unit) Mapper" where
  "table_mapper = \<lparr> map_to = (\<lambda>p f fl m s.
     if m p = None then (Ok (), m(p \<mapsto> (f, fl)), s) else (Err (MapToOther ()), m, s)) \<rparr>"

interpretation boot_heap: heap_env "allocate_frame x86_paging B" "boot_frames_inv x86_paging B mm" table_mapper "\<lambda>m. m"
  for B mm
  by unfold_locales (auto simp: table_mapper_def split: if_splits)

definition boot_frames_left :: "('r, 'y) boot_map_scheme \<Rightarrow> 'r list \<Rightarrow> 'r BootInfoFrameAllocator \<Rightarrow> nat" where
  "boot_frames_left B mm s = min (length (frame_list x86_paging B mm)) (2 ^ 64 - 1) - unat (next_frame s)"

interpretation boot_reliable: reliable_heap_env "allocate_frame x86_paging B" "boot_frames_inv x86_paging B mm"
    table_mapper "\<lambda>m. m" "boot_frames_left B mm"
  for B mm
proof unfold_locales
  fix s used
  assume inv: "boot_frames_inv x86_paging B mm s used" and left: "0 < boot_frames_left B mm s"
  let ?L = "frame_list x86_paging B mm" and ?s = "s\<lparr>next_frame := next_frame s + 1\<rparr>"
  have n: "unat (next_frame s) + 1 < 2 ^ 64" "unat (next_frame s) < length ?L"
    using left unfolding boot_frames_left_def by linarith+
  then have "allocate_frame x86_paging B s = Ret (Some (?L ! unat (next_frame s)), ?s)"
    using x86.allocate_frame_run [of B mm s] inv by (simp add: boot_frames_inv_def)
  moreover have "unat (next_frame ?s) = unat (next_frame s) + 1"
    using unat_add_no_overflow [of "next_frame s" 1] n(1) by simp
  then have "boot_frames_left B mm s \<le> boot_frames_left B mm ?s + 1"
    unfolding boot_frames_left_def by linarith
  ultimately show "\<exists>f s'. allocate_frame x86_paging B s = Ret (Some f, s') \<and>
      boot_frames_left B mm s \<le> boot_frames_left B mm s' + 1"
    by blast
qed (simp add: table_mapper_def)

subsection \<open>Properties\<close>

text \<open>
  C14: A run of \<open>init_heap\<close> that returns has mapped a prefix of the 25 pages of the heap, all of
  them exactly when it returns \<open>Ok\<close>: each to a frame of its own that was not in use, readable
  and writable, and no other page. The global allocator is initialised once per mapped page, so
  after a failed run with a page mapped it already serves the whole heap, and after a successful
  run it has been initialised 25 times.
\<close>

theorem init_heap_trace:
  assumes "pages_spec P" and "heap_env fa fa_inv M mapping"
    and "fa_inv (hw_frames w) used" and "init_heap P M fa F w = (Ret r, w')"
  shows "\<exists>ps k fs. heap_pages P = Ret ps \<and>
    map (\<lambda>p. unat (page_start P p)) ps = map (\<lambda>k. unat HEAP_START + k * 4096) [0..<25] \<and>
    (case r of Ok _ \<Rightarrow> k = 25 | Err _ \<Rightarrow> k < 25) \<and>
    length fs = k \<and> distinct fs \<and> set fs \<inter> used = {} \<and>
    (\<forall>i<k. mapping (hw_mapper w') (ps ! i) = Some (fs ! i, PRESENT P OR WRITABLE P)) \<and>
    (\<forall>q. q \<notin> set (take k ps) \<longrightarrow> mapping (hw_mapper w') q = mapping (hw_mapper w) q) \<and>
    ALLOCATOR w' = (fsb_init F HEAP_START HEAP_SIZE ^^ k) (ALLOCATOR w)"
proof -
  obtain ps where ps: "heap_pages P = Ret ps" "distinct ps" "length ps = 25"
    "map (\<lambda>p. unat (page_start P p)) ps = map (\<lambda>k. unat HEAP_START + k * 4096) [0..<25]"
    using pages_spec.heap_pages_run [OF assms(1)] by metis
  have "init_pages P M fa F ps w = (Ret r, w')" using assms(4) ps(1) by (simp add: init_heap_def io_simps)
  from heap_env.init_pages_trace [OF assms(2,3) ps(2) this] show ?thesis
    unfolding ps(3) using ps(1,4) by blast
qed

theorem init_heap_trace_witness:
  "\<exists>w' k. init_heap x86_pages table_mapper (allocate_frame x86_paging tuple_map) (ll_fallback (\<lambda>_. ListNode_new 0))
      \<lparr> hw_mapper = (\<lambda>_. None), hw_frames = frame_allocator_init [(True, 0x1000, 0x2000)],
        ALLOCATOR = fsb_new (ll_fallback (\<lambda>_. ListNode_new 0)) (\<lambda>_. None) \<rparr> = (Ret (Err FrameAllocationFailed), w') \<and>
    k < 25 \<and> ALLOCATOR w' = (fsb_init (ll_fallback (\<lambda>_. ListNode_new 0)) HEAP_START HEAP_SIZE ^^ k) (fsb_new (ll_fallback (\<lambda>_. ListNode_new 0)) (\<lambda>_. None))"
proof -
  let ?F = "ll_fallback (\<lambda>_. ListNode_new 0)"
  let ?mm = "[(True, 0x1000, 0x2000)]"
  let ?w = "\<lparr> hw_mapper = (\<lambda>_. None), hw_frames = frame_allocator_init ?mm, ALLOCATOR = fsb_new ?F (\<lambda>_. None) \<rparr>"
  have inv: "boot_frames_inv x86_paging tuple_map ?mm (hw_frames ?w) {}"
    by (simp add: boot_frames_inv_def valid_memory_map_def tuple_map_def frame_allocator_init_def)
  obtain ps where ps: "heap_pages x86_pages = Ret ps" "length ps = 25"
    by (rule x86_pg.heap_pages_run)
  then obtain p q ps' where "ps = p # q # ps'" by (auto simp: length_Suc_conv numeral_eq_Suc)
  then obtain w' where run: "init_heap x86_pages table_mapper (allocate_frame x86_paging tuple_map) ?F ?w =
      (Ret (Err FrameAllocationFailed), w')"
    using ps(1)
    by (simp add: init_heap_def io_simps io_bind_def take_frame_def allocate_frame_def usable_frames_def
        frame_addresses_def step_by_4096_def tuple_map_def frame_allocator_init_def x86_paging_def add_ck_def
        map_page_def table_mapper_def init_allocator_def Let_def)
  from init_heap_trace [OF x86_pg.pages_spec_axioms boot_heap.heap_env_axioms inv run] run show ?thesis
    by auto
qed

lemma init_heap_total:
  assumes "pages_spec P" and "reliable_heap_env fa fa_inv M mapping frames_left"
    and "fa_inv (hw_frames w) used" and "100 \<le> frames_left (hw_frames w)"
    and "\<And>ps p. heap_pages P = Ret ps \<Longrightarrow> p \<in> set ps \<Longrightarrow> mapping (hw_mapper w) p = None"
  shows "\<exists>w' used' ps fs. init_heap P M fa F w = (Ret (Ok ()), w') \<and> used \<subseteq> used' \<and> fa_inv (hw_frames w') used' \<and>
    heap_pages P = Ret ps \<and> length ps = 25 \<and> length fs = 25 \<and> distinct ps \<and> distinct fs \<and> set fs \<inter> used = {} \<and>
    (\<forall>i<25. mapping (hw_mapper w') (ps ! i) = Some (fs ! i, PRESENT P OR WRITABLE P)) \<and>
    (\<forall>p. p \<notin> set ps \<longrightarrow> mapping (hw_mapper w') p = mapping (hw_mapper w) p)"
proof -
  note env = reliable_heap_env.axioms(1) [OF assms(2)]
  obtain ps where ps: "heap_pages P = Ret ps" "distinct ps" "length ps = 25"
    using pages_spec.heap_pages_run [OF assms(1)] by metis
  obtain w' used' where run: "init_pages P M fa F ps w = (Ret (Ok ()), w')" "used \<subseteq> used'" "fa_inv (hw_frames w') used'"
    using reliable_heap_env.init_pages_total [OF assms(2,3) ps(2), where P = P and F = F] ps(3) assms(4) assms(5) [OF ps(1)]
    by auto
  have heap: "init_heap P M fa F w = (Ret (Ok ()), w')" using run(1) ps(1) by (simp add: init_heap_def io_simps)
  from heap_env.init_pages_trace [OF env assms(3) ps(2) run(1)] ps(3) obtain fs where
    fs: "length fs = 25" "distinct fs" "set fs \<inter> used = {}" and
    new: "\<forall>i<25. mapping (hw_mapper w') (ps ! i) = Some (fs ! i, PRESENT P OR WRITABLE P)" and
    old: "\<forall>q. q \<notin> set ps \<longrightarrow> mapping (hw_mapper w') q = mapping (hw_mapper w) q"
    by auto
  with heap run(2,3) ps show ?thesis by blast
qed

text \<open>
  \<open>init_heap\<close> succeeds when it can. With a hundred frames left, four for each page, and none of
  the 25 pages mapped before, it returns \<open>Ok\<close>: all pages are mapped, each to a frame of its own, and
  every other page is as before.
\<close>

theorem init_heap_succeeds:
  assumes "pages_spec P" and "reliable_heap_env fa fa_inv M mapping frames_left"
    and "fa_inv (hw_frames w) used" and "100 \<le> frames_left (hw_frames w)"
    and "\<And>ps p. heap_pages P = Ret ps \<Longrightarrow> p \<in> set ps \<Longrightarrow> mapping (hw_mapper w) p = None"
  shows "\<exists>w' used' ps fs. init_heap P M fa F w = (Ret (Ok ()), w') \<and> used \<subseteq> used' \<and> fa_inv (hw_frames w') used' \<and>
    heap_pages P = Ret ps \<and> length ps = 25 \<and> length fs = 25 \<and> distinct ps \<and> distinct fs \<and> set fs \<inter> used = {} \<and>
    (\<forall>i<25. mapping (hw_mapper w') (ps ! i) = Some (fs ! i, PRESENT P OR WRITABLE P)) \<and>
    (\<forall>p. p \<notin> set ps \<longrightarrow> mapping (hw_mapper w') p = mapping (hw_mapper w) p)"
  by (rule init_heap_total [OF assms])

theorem init_heap_succeeds_witness:
  "\<exists>w' ps. init_heap x86_pages table_mapper (allocate_frame x86_paging tuple_map) (ll_fallback (\<lambda>_. ListNode_new 0))
      \<lparr> hw_mapper = (\<lambda>_. None), hw_frames = frame_allocator_init [(True, 0x1000, 0x101000)],
        ALLOCATOR = fsb_new (ll_fallback (\<lambda>_. ListNode_new 0)) (\<lambda>_. None) \<rparr> = (Ret (Ok ()), w') \<and>
    length ps = 25 \<and> (\<forall>p. p \<notin> set ps \<longrightarrow> hw_mapper w' p = None)"
proof -
  let ?F = "ll_fallback (\<lambda>_. ListNode_new 0)"
  let ?mm = "[(True, 0x1000, 0x101000)]"
  let ?w = "\<lparr> hw_mapper = (\<lambda>_. None), hw_frames = frame_allocator_init ?mm, ALLOCATOR = fsb_new ?F (\<lambda>_. None) \<rparr>"
  have inv: "boot_frames_inv x86_paging tuple_map ?mm (hw_frames ?w) {}"
    by (simp add: boot_frames_inv_def valid_memory_map_def tuple_map_def frame_allocator_init_def)
  have "length (frame_list x86_paging tuple_map ?mm) = 256"
    by (simp add: frame_list_def frame_addresses_def step_by_4096_def tuple_map_def del: upt_rec_numeral)
  then have "100 \<le> boot_frames_left tuple_map ?mm (hw_frames ?w)"
    by (simp add: boot_frames_left_def frame_allocator_init_def)
  from init_heap_succeeds [OF x86_pg.pages_spec_axioms boot_reliable.reliable_heap_env_axioms inv this, of ?F]
  show ?thesis by auto
qed

end
