(* ===== verification/Virtio.thy ===== *)
theory Virtio
  imports Memory
begin

section \<open>VirtIO glue (\<open>src/src/virtio/\<close>)\<close>

text \<open>
  The hardware layer the VirtIO drivers call (\<open>OsHal\<close>), the access to the PCI configuration
  space through the ports 0xCF8 and 0xCFC, and the scan for a device. The enumeration of a bus
  belongs to the package \<open>virtio_drivers\<close> and is a parameter of \<open>scan\<close>; the ports are
  parameters of the accesses.
\<close>

unbundle bit_operations_syntax

subsection \<open>PCI\<close>

record DeviceFunction =
  df_bus :: u8
  df_device :: u8
  df_function :: u8

record DeviceFunctionInfo =
  vendor_id :: u16
  device_id :: u16

record 'w ports =
  outl :: "u16 \<Rightarrow> u32 \<Rightarrow> 'w \<Rightarrow> 'w"
  inl :: "u16 \<Rightarrow> 'w \<Rightarrow> u32 \<times> 'w"

definition config_address :: "u8 \<Rightarrow> u8 \<Rightarrow> u8 \<Rightarrow> u8 \<Rightarrow> u32" where
  "config_address bus device func offset =
     push_bit 16 (ucast bus) OR push_bit 11 (ucast device) OR push_bit 8 (ucast func) OR
     (ucast offset AND 0xFC) OR 0x80000000"

definition read_config_dword :: "'w ports \<Rightarrow> u8 \<Rightarrow> u8 \<Rightarrow> u8 \<Rightarrow> u8 \<Rightarrow> 'w \<Rightarrow> u32 \<times> 'w" where
  "read_config_dword IO bus device func offset w =
     (let address = config_address bus device func offset in
      inl IO 0xCFC (outl IO 0xCF8 address w))"

definition read_word :: "'w ports \<Rightarrow> DeviceFunction \<Rightarrow> u8 \<Rightarrow> 'w \<Rightarrow> u32 \<times> 'w" where
  "read_word IO df register_offset w =
     (let address = config_address (df_bus df) (df_device df) (df_function df) register_offset in
      inl IO 0xCFC (outl IO 0xCF8 address w))"

definition write_word :: "'w ports \<Rightarrow> DeviceFunction \<Rightarrow> u8 \<Rightarrow> u32 \<Rightarrow> 'w \<Rightarrow> 'w" where
  "write_word IO df register_offset data w =
     (let address = config_address (df_bus df) (df_device df) (df_function df) register_offset in
      outl IO 0xCFC data (outl IO 0xCF8 address w))"

fun scan_bus :: "u8 \<Rightarrow> (DeviceFunction \<times> DeviceFunctionInfo) list \<Rightarrow> DeviceFunction option" where
  "scan_bus bus_num [] = None"
| "scan_bus bus_num ((device_func, header) # rest) =
     (if vendor_id header = 0x1AF4
      then Some \<lparr> df_bus = bus_num, df_device = df_device device_func, df_function = 0 \<rparr>
      else scan_bus bus_num rest)"

fun scan_buses ::
    "(u8 \<Rightarrow> (DeviceFunction \<times> DeviceFunctionInfo) list) \<Rightarrow> nat list \<Rightarrow> DeviceFunction option" where
  "scan_buses enumerate_bus [] = None"
| "scan_buses enumerate_bus (b # bs) =
     (case scan_bus (of_nat b) (enumerate_bus (of_nat b)) of
        Some df \<Rightarrow> Some df
      | None \<Rightarrow> scan_buses enumerate_bus bs)"

definition scan :: "(u8 \<Rightarrow> (DeviceFunction \<times> DeviceFunctionInfo) list) \<Rightarrow> DeviceFunction option" where
  "scan enumerate_bus = scan_buses enumerate_bus [0..<256]"

subsection \<open>The hardware abstraction layer\<close>

text \<open>\<open>FRAME_ALLOCATOR\<close> is the argument and result of \<open>dma_alloc\<close>; \<open>virt_new\<close> is
  \<open>VirtAddr::new\<close>. A null pointer makes \<open>NonNull::new\<close> fail.\<close>

definition non_null :: "u64 \<Rightarrow> u64 outcome" where
  "non_null p = (if p = 0 then Panic else Ret p)"

definition dma_alloc ::
    "('f, 'e, 'z) paging_scheme \<Rightarrow> ('r, 'y) boot_map_scheme \<Rightarrow> (u64 \<Rightarrow> u64 outcome) \<Rightarrow> u64 \<Rightarrow> usize
       \<Rightarrow> 'r BootInfoFrameAllocator option \<Rightarrow> ((u64 \<times> u64) \<times> 'r BootInfoFrameAllocator option) outcome" where
  "dma_alloc X B virt_new PHYSICAL_MEMORY_OFFSET pages fa =
     (if pages > 1 then Panic
      else case fa of
        None \<Rightarrow> Panic
      | Some allocator \<Rightarrow>
          bind_out (allocate_frame X B allocator) (\<lambda>(fr, allocator').
          case fr of
            None \<Rightarrow> Panic
          | Some frame \<Rightarrow>
              let paddr = start_address X frame in
              bind_out (add_ck paddr PHYSICAL_MEMORY_OFFSET) (\<lambda>sum.
              bind_out (virt_new sum) (\<lambda>vaddr.
              bind_out (non_null vaddr) (\<lambda>ptr.
              Ret ((paddr, ptr), Some allocator'))))))"

definition dma_dealloc :: "u64 \<Rightarrow> u64 \<Rightarrow> usize \<Rightarrow> int" where
  "dma_dealloc paddr vaddr pages = 0"

definition mmio_phys_to_virt ::
    "('f, 'e, 'z) paging_scheme \<Rightarrow> (u64 \<Rightarrow> u64 outcome) \<Rightarrow> u64 \<Rightarrow> u64 \<Rightarrow> usize \<Rightarrow> u64 outcome" where
  "mmio_phys_to_virt X virt_new PHYSICAL_MEMORY_OFFSET paddr sz =
     bind_out (phys_new X paddr) (\<lambda>paddr.
     bind_out (add_ck paddr PHYSICAL_MEMORY_OFFSET) (\<lambda>sum.
     bind_out (virt_new sum) (\<lambda>vaddr.
     non_null vaddr)))"

definition share ::
    "('f, 'e, 'z) paging_scheme \<Rightarrow> (u64 \<Rightarrow> u64 outcome) \<Rightarrow> (u64 \<Rightarrow> nat \<Rightarrow> 'e) \<Rightarrow> 'f \<Rightarrow> u64 \<Rightarrow> u64 \<Rightarrow> u64 outcome" where
  "share X virt_new mem cr3 PHYSICAL_MEMORY_OFFSET buffer =
     bind_out (virt_new buffer) (\<lambda>vaddr.
     bind_out (virt_new PHYSICAL_MEMORY_OFFSET) (\<lambda>offset.
     bind_out (translate_addr X mem cr3 vaddr offset) (\<lambda>r.
     case r of None \<Rightarrow> Panic | Some phyaddr \<Rightarrow> Ret phyaddr)))"

definition unshare :: "u64 \<Rightarrow> u64 \<Rightarrow> unit" where
  "unshare paddr buffer = ()"

subsection \<open>Properties\<close>

lemma scan_bus_find:
  "scan_bus b ds = map_option (\<lambda>(df, _). \<lparr> df_bus = b, df_device = df_device df, df_function = 0 \<rparr>)
     (find (\<lambda>(_, h). vendor_id h = 0x1AF4) ds)"
  by (induction ds) auto

lemma find_append: "find P (xs @ ys) = (case find P xs of Some x \<Rightarrow> Some x | None \<Rightarrow> find P ys)"
  by (induction xs) auto

lemma bit_small:
  assumes "unat w < 2 ^ k" "bit w n"
  shows "n < k"
proof (rule ccontr)
  assume "\<not> n < k"
  then have "(2::nat) ^ k \<le> 2 ^ n" by (intro power_increasing) simp_all
  then have "unat w < 2 ^ n" using assms(1) by (rule order.strict_trans2 [rotated])
  then have "unat w div 2 ^ n = 0" by (rule div_less)
  moreover have "bit (unat w) n" using assms(2) by (simp add: bit_unsigned_iff)
  ultimately show False by (simp add: bit_iff_odd)
qed

text \<open>
  The scan returns the first device of the vendor 0x1AF4 in the order of buses and of the
  enumeration of each bus, and always names its function 0; it finds nothing only if no bus has
  a device of that vendor. The kind of device is not looked at.
\<close>

theorem scan_first_device:
  "scan enumerate_bus =
     map_option (\<lambda>(b, df, _). \<lparr> df_bus = of_nat b, df_device = df_device df, df_function = 0 \<rparr>)
       (find (\<lambda>(_, _, h). vendor_id h = 0x1AF4)
          (concat (map (\<lambda>b. map (\<lambda>d. (b, d)) (enumerate_bus (of_nat b))) [0..<256])))"
proof -
  have "scan_buses enumerate_bus bs =
     map_option (\<lambda>(b, df, _). \<lparr> df_bus = of_nat b, df_device = df_device df, df_function = 0 \<rparr>)
       (find (\<lambda>(_, _, h). vendor_id h = 0x1AF4)
          (concat (map (\<lambda>b. map (\<lambda>d. (b, d)) (enumerate_bus (of_nat b))) bs)))" for bs
  proof (induction bs)
    case (Cons b bs)
    have "find (\<lambda>(_, _, h). vendor_id h = 0x1AF4) (map (\<lambda>d. (b, d)) ds) =
        map_option (\<lambda>d. (b, d)) (find (\<lambda>(_, h). vendor_id h = 0x1AF4) ds)" for ds
      by (induction ds) auto
    note tag = this [of "enumerate_bus (of_nat b)"]
    show ?case
      by (cases "find (\<lambda>(_, h). vendor_id h = 0x1AF4) (enumerate_bus (of_nat b))")
        (use tag in \<open>auto simp: Cons scan_bus_find find_append\<close>)
  qed simp
  then show ?thesis by (simp add: scan_def del: upt_rec_numeral)
qed

text \<open>
  A configuration address selects what it should: for the 32 devices and 8 functions a bus
  has, the enable bit is set and bus, device, function and the aligned register offset are read
  back from their bit fields.
\<close>

theorem config_address_fields:
  assumes "device < 32" and "func < 8"
  shows "let a = config_address bus device func offset in
    bit a 31 \<and> take_bit 8 (drop_bit 16 a) = ucast bus \<and> take_bit 5 (drop_bit 11 a) = ucast device \<and>
    take_bit 3 (drop_bit 8 a) = ucast func \<and> take_bit 8 a = ucast (offset AND 0xFC)"
proof -
  have high: "5 \<le> n \<Longrightarrow> \<not> bit device n" "3 \<le> n \<Longrightarrow> \<not> bit func n" "8 \<le> n \<Longrightarrow> \<not> bit (w::u8) n" for n w
    using bit_small [of device 5 n] bit_small [of func 3 n] bit_imp_le_length [of w n] assms
    by (auto simp: word_less_nat_alt)
  have low: "bit bus n \<Longrightarrow> n < 8" "bit bus n \<Longrightarrow> n < 16" for n
    using bit_imp_le_length [of bus n] by simp_all
  have c: "(0xFC :: 'a::len word) = push_bit 2 (mask 6)" "(0x80000000 :: u32) = push_bit 31 1" by (simp_all add: mask_eq_exp_minus_1)
  show ?thesis
    unfolding Let_def config_address_def c
    by (intro conjI bit_word_eqI) (auto simp: bit_simps high not_less intro: low)
qed

theorem config_address_fields_witness:
  "(3::u8) < 32 \<and> config_address 0 3 0 0x11 = 0x80001810 \<and>
   take_bit 5 (drop_bit 11 (config_address 0 3 0 0x11)) = 3"
  using config_address_fields [of 3 0 0 "0x11"] by (simp add: config_address_def Let_def)



end
