(* ===== verification/Array_Queue.thy ===== *)
theory Array_Queue
  imports Kernel_Prelude
begin

section \<open>Bounded queues\<close>

text \<open>
  \<open>crossbeam_queue::ArrayQueue\<close>, used by the executor and by the keyboard driver, is a package
  outside the repository: the record \<open>array_queue\<close>, with its documented behaviour (a bounded
  queue, first in first out, whose \<open>push\<close> gives the value back when it is full) as the locale
  \<open>array_queue_spec\<close>.
\<close>

record ('a, 'q) array_queue =
  aq_new :: "nat \<Rightarrow> 'q"
  aq_push :: "'a \<Rightarrow> 'q \<Rightarrow> (unit, 'a) result \<times> 'q"
  aq_pop :: "'q \<Rightarrow> 'a option \<times> 'q"
  aq_is_empty :: "'q \<Rightarrow> bool"

locale array_queue_spec =
  fixes Q :: "('a, 'q) array_queue" and aq_list :: "'q \<Rightarrow> 'a list" and aq_cap :: "'q \<Rightarrow> nat"
  assumes new_law: "0 < n \<Longrightarrow> aq_list (aq_new Q n) = [] \<and> aq_cap (aq_new Q n) = n"
    and push_ok: "length (aq_list q) < aq_cap q \<Longrightarrow>
      \<exists>q'. aq_push Q x q = (Ok (), q') \<and> aq_list q' = aq_list q @ [x] \<and> aq_cap q' = aq_cap q"
    and push_full: "\<not> length (aq_list q) < aq_cap q \<Longrightarrow> aq_push Q x q = (Err x, q)"
    and pop_none: "aq_list q = [] \<Longrightarrow> aq_pop Q q = (None, q)"
    and pop_some: "aq_list q = x # xs \<Longrightarrow>
      \<exists>q'. aq_pop Q q = (Some x, q') \<and> aq_list q' = xs \<and> aq_cap q' = aq_cap q"
    and is_empty_law: "aq_is_empty Q q \<longleftrightarrow> aq_list q = []"

definition list_queue :: "('a, 'a list \<times> nat) array_queue" where
  "list_queue = \<lparr>
     aq_new = (\<lambda>n. ([], n)),
     aq_push = (\<lambda>x q. if length (fst q) < snd q then (Ok (), (fst q @ [x], snd q)) else (Err x, q)),
     aq_pop = (\<lambda>q. case fst q of [] \<Rightarrow> (None, q) | x # xs \<Rightarrow> (Some x, (xs, snd q))),
     aq_is_empty = (\<lambda>q. fst q = []) \<rparr>"

interpretation list_q: array_queue_spec list_queue fst snd
  by unfold_locales (simp_all add: list_queue_def)

end
