(* ===== verification/Tasks.thy ===== *)
theory Tasks
  imports Array_Queue
begin

section \<open>Cooperative tasks (\<open>src/src/task/\<close>)\<close>

text \<open>
  Tasks, the simple executor and the executor with wakers. A future is code the executors know
  only by its \<open>poll\<close>: a parameter that takes the future, the waker of the context and the rest of
  the world, and returns whether it is ready, the future and the world afterwards, and the wakers
  that were called while it ran, by the future itself or by an interrupt handler.
\<close>

type_synonym TaskId = u64

datatype Waker = DummyWaker | TaskWaker TaskId

type_synonym ('fut, 'w) poll_fn = "'fut \<Rightarrow> Waker \<Rightarrow> 'w \<Rightarrow> bool \<times> 'fut \<times> 'w \<times> Waker list"

record 'fut Task =
  task_id :: TaskId
  future :: 'fut

text \<open>\<open>NEXT_ID.fetch_add(1)\<close> wraps around.\<close>

definition TaskId_new :: "u64 \<Rightarrow> TaskId \<times> u64" where
  "TaskId_new next_id = (next_id, next_id + 1)"

definition Task_new :: "'fut \<Rightarrow> u64 \<Rightarrow> 'fut Task \<times> u64" where
  "Task_new fut next_id = (let (i, n) = TaskId_new next_id in (\<lparr> task_id = i, future = fut \<rparr>, n))"

definition Task_poll ::
    "('fut, 'w) poll_fn \<Rightarrow> 'fut Task \<Rightarrow> Waker \<Rightarrow> 'w \<Rightarrow> bool \<times> 'fut Task \<times> 'w \<times> Waker list" where
  "Task_poll poll task waker w =
     (case poll (future task) waker w of (ready, fut, w', wakes) \<Rightarrow> (ready, task\<lparr> future := fut \<rparr>, w', wakes))"

subsection \<open>The simple executor\<close>

type_synonym 'fut SimpleExecutor = "'fut Task list"

definition simple_new :: "'fut SimpleExecutor" where "simple_new = []"

definition simple_spawn :: "'fut Task \<Rightarrow> 'fut SimpleExecutor \<Rightarrow> 'fut SimpleExecutor" where
  "simple_spawn task q = q @ [task]"

text \<open>The raw waker whose functions do nothing.\<close>

definition dummy_waker :: Waker where "dummy_waker = DummyWaker"

text \<open>\<open>None\<close>: the loop does not end.\<close>

partial_function (option) simple_run ::
    "('fut, 'w) poll_fn \<Rightarrow> 'fut SimpleExecutor \<Rightarrow> 'w \<Rightarrow> ('fut SimpleExecutor \<times> 'w) option" where
  [code]: "simple_run poll q w =
     (case q of
        [] \<Rightarrow> Some ([], w)
      | task # rest \<Rightarrow>
          (case Task_poll poll task dummy_waker w of
             (ready, task', w', _) \<Rightarrow>
               if ready then simple_run poll rest w'
               else simple_run poll (rest @ [task']) w'))"

subsection \<open>The executor\<close>

record ('fut, 'q) Executor =
  tasks :: "TaskId \<Rightarrow> 'fut Task option"
  task_queue :: 'q
  waker_cache :: "TaskId \<Rightarrow> Waker option"

definition executor_new :: "(TaskId, 'q) array_queue \<Rightarrow> ('fut, 'q) Executor" where
  "executor_new Q = \<lparr> tasks = Map.empty, task_queue = aq_new Q 100, waker_cache = Map.empty \<rparr>"

definition spawn ::
    "(TaskId, 'q) array_queue \<Rightarrow> 'fut Task \<Rightarrow> ('fut, 'q) Executor \<Rightarrow> ('fut, 'q) Executor outcome" where
  "spawn Q task e =
     (let tid = task_id task;
          e1 = e\<lparr> tasks := (tasks e)(tid \<mapsto> task) \<rparr> in
      if tasks e tid \<noteq> None then Panic
      else case aq_push Q tid (task_queue e1) of
        (Ok _, q) \<Rightarrow> Ret (e1\<lparr> task_queue := q \<rparr>)
      | (Err _, q) \<Rightarrow> Panic)"

definition wake_task :: "(TaskId, 'q) array_queue \<Rightarrow> TaskId \<Rightarrow> 'q \<Rightarrow> 'q outcome" where
  "wake_task Q tid q = (case aq_push Q tid q of (Ok _, q') \<Rightarrow> Ret q' | (Err _, _) \<Rightarrow> Panic)"

fun wake :: "(TaskId, 'q) array_queue \<Rightarrow> Waker \<Rightarrow> 'q \<Rightarrow> 'q outcome" where
  "wake Q DummyWaker q = Ret q"
| "wake Q (TaskWaker tid) q = wake_task Q tid q"

fun wake_all :: "(TaskId, 'q) array_queue \<Rightarrow> Waker list \<Rightarrow> 'q \<Rightarrow> 'q outcome" where
  "wake_all Q [] q = Ret q"
| "wake_all Q (wk # wks) q = bind_out (wake Q wk q) (wake_all Q wks)"

partial_function (option) run_ready_tasks ::
    "(TaskId, 'q) array_queue \<Rightarrow> ('fut, 'w) poll_fn \<Rightarrow> ('fut, 'q) Executor \<Rightarrow> 'w
       \<Rightarrow> (unit outcome \<times> ('fut, 'q) Executor \<times> 'w) option" where
  [code]: "run_ready_tasks Q poll e w =
     (case aq_pop Q (task_queue e) of
        (None, q) \<Rightarrow> Some (Ret (), e\<lparr> task_queue := q \<rparr>, w)
      | (Some tid, q) \<Rightarrow>
          (case tasks e tid of
             None \<Rightarrow> run_ready_tasks Q poll (e\<lparr> task_queue := q \<rparr>) w
           | Some task \<Rightarrow>
               let waker = (case waker_cache e tid of Some wk \<Rightarrow> wk | None \<Rightarrow> TaskWaker tid);
                   cache = (waker_cache e)(tid \<mapsto> waker) in
               (case Task_poll poll task waker w of
                  (ready, task', w', wakes) \<Rightarrow>
                    (case wake_all Q wakes q of
                       Panic \<Rightarrow> Some (Panic, e\<lparr> task_queue := q, waker_cache := cache \<rparr>, w')
                     | Ret q' \<Rightarrow>
                         if ready then
                           run_ready_tasks Q poll
                             (e\<lparr> tasks := (tasks e)(tid := None), task_queue := q',
                                waker_cache := cache(tid := None) \<rparr>) w'
                         else
                           run_ready_tasks Q poll
                             (e\<lparr> tasks := (tasks e)(tid \<mapsto> task'), task_queue := q',
                                waker_cache := cache \<rparr>) w'))))"

text \<open>The first \<open>n\<close> rounds of \<open>run\<close>, which never returns.\<close>

fun run_rounds ::
    "(TaskId, 'q) array_queue \<Rightarrow> ('fut, 'w) poll_fn \<Rightarrow> nat \<Rightarrow> ('fut, 'q) Executor \<Rightarrow> 'w
       \<Rightarrow> (unit outcome \<times> ('fut, 'q) Executor \<times> 'w) option" where
  "run_rounds Q poll 0 e w = Some (Ret (), e, w)"
| "run_rounds Q poll (Suc n) e w =
     (case run_ready_tasks Q poll e w of
        None \<Rightarrow> None
      | Some (Panic, e', w') \<Rightarrow> Some (Panic, e', w')
      | Some (Ret _, e', w') \<Rightarrow> run_rounds Q poll n e' w')"

text \<open>A caller that makes a task of each future and spawns it, as \<open>kernel_main\<close> does.\<close>

fun spawn_all ::
    "(TaskId, 'q) array_queue \<Rightarrow> 'fut list \<Rightarrow> u64 \<Rightarrow> ('fut, 'q) Executor \<Rightarrow> ('fut, 'q) Executor outcome" where
  "spawn_all Q [] next_id e = Ret e"
| "spawn_all Q (f # fs) next_id e =
     (let (task, n) = Task_new f next_id in bind_out (spawn Q task e) (\<lambda>e'. spawn_all Q fs n e'))"

subsection \<open>Futures that finish\<close>

text \<open>
  \<open>rem\<close> bounds how often a future can still be pending. A future that wakes itself when it is
  pending, as one that yields does, calls at most \<open>B\<close> wakers in a poll.
\<close>

locale progressing =
  fixes poll :: "('fut, 'w) poll_fn" and rem :: "'fut \<Rightarrow> nat"
  assumes progress: "poll f wk w = (False, f', w', wakes) \<Longrightarrow> rem f' < rem f"

locale self_waking = progressing poll rem
  for poll :: "('fut, 'w) poll_fn" and rem :: "'fut \<Rightarrow> nat" +
  fixes B :: nat
  assumes few_wakes: "poll f wk w = (ready, f', w', wakes) \<Longrightarrow> length wakes \<le> B"
    and wakes_self: "poll f wk w = (False, f', w', wakes) \<Longrightarrow> wk \<in> set wakes"

text \<open>A future that yields a number of times.\<close>

definition yield_poll :: "(nat, 'w) poll_fn" where
  "yield_poll n wk w = (if n = 0 then (True, 0, w, []) else (False, n - 1, w, [wk]))"

interpretation yield: self_waking yield_poll "\<lambda>n. n" 1
  by unfold_locales (auto simp: yield_poll_def split: if_splits)

context progressing
begin

lemma simple_run_ends: "\<exists>w'. simple_run poll q w = Some ([], w')"
proof (induction "\<Sum>t\<leftarrow>q. Suc (rem (future t))" arbitrary: q w rule: less_induct)
  case less
  show ?case
  proof (cases q)
    case Nil
    then show ?thesis by (simp add: simple_run.simps)
  next
    case (Cons t ts)
    obtain ready t' w' wakes where p: "Task_poll poll t dummy_waker w = (ready, t', w', wakes)"
      by (metis prod_cases4)
    have "rem (future t') < rem (future t)" if "\<not> ready"
      using p that progress by (auto simp: Task_poll_def split: prod.splits)
    then have "\<exists>w''. simple_run poll (if ready then ts else ts @ [t']) w' = Some ([], w'')"
      using less [of "if ready then ts else ts @ [t']" w'] Cons by simp
    then show ?thesis using Cons p by (simp add: simple_run.simps [of poll "t # ts" w] split: if_splits)
  qed
qed

end

subsection \<open>The executor empties its queue\<close>

fun woken :: "Waker list \<Rightarrow> TaskId list" where
  "woken [] = []"
| "woken (DummyWaker # wks) = woken wks"
| "woken (TaskWaker tid # wks) = tid # woken wks"

lemma woken_facts: "length (woken wks) \<le> length wks" "TaskWaker tid \<in> set wks \<Longrightarrow> tid \<in> set (woken wks)"
  by (induction wks rule: woken.induct) auto

lemma wake_all_run:
  assumes "array_queue_spec Q aq_list aq_cap" "length (aq_list q) + length (woken wks) \<le> aq_cap q"
  shows "\<exists>q'. wake_all Q wks q = Ret q' \<and> aq_list q' = aq_list q @ woken wks \<and> aq_cap q' = aq_cap q"
  using assms(2)
proof (induction wks arbitrary: q rule: woken.induct)
  case (3 tid wks)
  then obtain q1 where "aq_push Q tid q = (Ok (), q1)" "aq_list q1 = aq_list q @ [tid]" "aq_cap q1 = aq_cap q"
    using array_queue_spec.push_ok [OF assms(1), of q tid] by auto
  then show ?case using "3.IH" [of q1] "3.prems" by (auto simp: wake_task_def)
qed simp_all

definition work_left :: "('fut \<Rightarrow> nat) \<Rightarrow> nat \<Rightarrow> (TaskId \<Rightarrow> 'fut Task option) \<Rightarrow> nat" where
  "work_left rem B ts = (\<Sum>tid\<in>dom ts. (rem (future (the (ts tid))) + 1) * (B + 1))"

lemma work_left_change:
  assumes "finite (dom ts)" "ts tid = Some t"
  shows "work_left rem B (ts(tid := None)) + (rem (future t) + 1) * (B + 1) = work_left rem B ts"
    and "rem (future t') < rem (future t) \<Longrightarrow> work_left rem B (ts(tid \<mapsto> t')) + (B + 1) \<le> work_left rem B ts"
proof -
  let ?g = "\<lambda>ts tid. (rem (future (the (ts tid))) + 1) * (B + 1)"
  have dom: "tid \<in> dom ts" using assms(2) by auto
  have split: "work_left rem B ts = ?g ts tid + sum (?g ts) (dom ts - {tid})"
    unfolding work_left_def by (rule sum.remove [OF assms(1) dom])
  have rest: "sum (?g (ts(tid := x))) (dom ts - {tid}) = sum (?g ts) (dom ts - {tid})" for x
    by (rule sum.cong) auto
  show "work_left rem B (ts(tid := None)) + (rem (future t) + 1) * (B + 1) = work_left rem B ts"
    using split rest [of None] assms(2) by (simp add: work_left_def)
  have "work_left rem B (ts(tid \<mapsto> t')) = (rem (future t') + 1) * (B + 1) + sum (?g ts) (dom ts - {tid})"
    using sum.remove [of "dom (ts(tid \<mapsto> t'))" tid "?g (ts(tid \<mapsto> t'))"] rest [of "Some t'"] assms(1) dom
    by (simp add: work_left_def insert_absorb [OF dom])
  moreover have "(rem (future t') + 1) * (B + 1) + (B + 1) \<le> (rem (future t) + 1) * (B + 1)"
    if "rem (future t') < rem (future t)"
    using mult_le_mono1 [of "rem (future t') + 2" "rem (future t) + 1" "B + 1"] that by simp
  ultimately show "rem (future t') < rem (future t) \<Longrightarrow> work_left rem B (ts(tid \<mapsto> t')) + (B + 1) \<le> work_left rem B ts"
    using split assms(2) by simp
qed

text \<open>What holds whenever the loop tests its condition: cached wakers belong to their task, and
  every task is in the queue.\<close>

definition exec_inv :: "('q \<Rightarrow> TaskId list) \<Rightarrow> ('fut, 'q) Executor \<Rightarrow> bool" where
  "exec_inv aq_list e \<longleftrightarrow>
     finite (dom (tasks e)) \<and> dom (tasks e) \<subseteq> set (aq_list (task_queue e)) \<and>
     (\<forall>tid wk. waker_cache e tid = Some wk \<longrightarrow> wk = TaskWaker tid \<and> tid \<in> dom (tasks e))"

context self_waking
begin

lemma poll_step:
  assumes Q: "array_queue_spec Q aq_list aq_cap" and inv: "exec_inv aq_list e"
    and room: "length (aq_list (task_queue e)) + work_left rem B (tasks e) \<le> aq_cap (task_queue e)"
    and q: "aq_pop Q (task_queue e) = (Some tid, q)" "aq_list (task_queue e) = tid # aq_list q"
      "aq_cap q = aq_cap (task_queue e)"
    and task: "tasks e tid = Some task"
  shows "\<exists>e2 w2. run_ready_tasks Q poll e w = run_ready_tasks Q poll e2 w2 \<and> exec_inv aq_list e2 \<and>
    length (aq_list (task_queue e2)) + work_left rem B (tasks e2)
      < length (aq_list (task_queue e)) + work_left rem B (tasks e) \<and>
    aq_cap (task_queue e2) = aq_cap (task_queue e)"
proof -
  let ?wk = "TaskWaker tid"
  have fin: "finite (dom (tasks e))" and dom: "dom (tasks e) \<subseteq> insert tid (set (aq_list q))"
    and cache: "waker_cache e t = Some wk \<Longrightarrow> wk = TaskWaker t \<and> t \<in> dom (tasks e)" for t wk
    using inv q(2) by (auto simp: exec_inv_def)
  have wk: "(case waker_cache e tid of Some wk \<Rightarrow> wk | None \<Rightarrow> TaskWaker tid) = ?wk"
    using cache by (auto split: option.split)
  obtain ready f w' wakes where p: "poll (future task) ?wk w = (ready, f, w', wakes)" by (metis prod_cases4)
  have few: "length (woken wakes) \<le> B" using few_wakes [OF p] woken_facts(1) order_trans by blast
  note work = work_left_change [OF fin task, where rem = rem and B = B]
  have "length (aq_list q) + length (woken wakes) \<le> aq_cap q" using room q(2,3) few work(1) by simp
  from wake_all_run [OF Q this] obtain q' where q': "wake_all Q wakes q = Ret q'"
    "aq_list q' = aq_list q @ woken wakes" "aq_cap q' = aq_cap q" by blast
  define e2 where "e2 = (if ready
    then e\<lparr>tasks := (tasks e)(tid := None), task_queue := q',
           waker_cache := ((waker_cache e)(tid \<mapsto> ?wk))(tid := None)\<rparr>
    else e\<lparr>tasks := (tasks e)(tid \<mapsto> task\<lparr>future := f\<rparr>), task_queue := q',
           waker_cache := (waker_cache e)(tid \<mapsto> ?wk)\<rparr>)"
  have run: "run_ready_tasks Q poll e w = run_ready_tasks Q poll e2 w'"
    by (simp add: run_ready_tasks.simps [of Q poll e w] q(1) task wk Task_poll_def p q'(1) e2_def)
  have pend: "rem f < rem (future task)" "tid \<in> set (woken wakes)" if "\<not> ready"
    using progress wakes_self p that woken_facts(2) by auto
  have "exec_inv aq_list e2"
    using fin dom cache pend(2) q'(2) by (auto simp: exec_inv_def e2_def split: if_splits)
  moreover have "length (aq_list q') + work_left rem B (tasks e2) < Suc (length (aq_list q)) + work_left rem B (tasks e)"
  proof (cases ready)
    case True
    then show ?thesis using work(1) few q'(2) by (simp add: e2_def)
  next
    case False
    then show ?thesis using work(2) [where t' = "task\<lparr>future := f\<rparr>"] pend(1) few q'(2) by (simp add: e2_def)
  qed
  moreover have "task_queue e2 = q'" by (simp add: e2_def)
  ultimately show ?thesis using run q(2,3) q'(3) by auto
qed

lemma run_completes:
  assumes Q: "array_queue_spec Q aq_list aq_cap" and inv: "exec_inv aq_list e"
    and room: "length (aq_list (task_queue e)) + work_left rem B (tasks e) \<le> aq_cap (task_queue e)"
  shows "\<exists>e' w'. run_ready_tasks Q poll e w = Some (Ret (), e', w') \<and> tasks e' = Map.empty \<and>
    waker_cache e' = Map.empty \<and> aq_list (task_queue e') = []"
  using inv room
proof (induction "length (aq_list (task_queue e)) + work_left rem B (tasks e)" arbitrary: e w rule: less_induct)
  case less
  show ?case
  proof (cases "aq_list (task_queue e)")
    case Nil
    then have "tasks e = Map.empty" "waker_cache e = Map.empty"
      using less.prems(1) by (auto simp: exec_inv_def intro!: ext)
    then show ?thesis
      using array_queue_spec.pop_none [OF Q Nil] Nil by (simp add: run_ready_tasks.simps [of Q poll e w])
  next
    case (Cons tid xs)
    then obtain q where q: "aq_pop Q (task_queue e) = (Some tid, q)" "aq_list (task_queue e) = tid # aq_list q"
      "aq_cap q = aq_cap (task_queue e)" "xs = aq_list q"
      using array_queue_spec.pop_some [OF Q] by metis
    have "\<exists>e2 w2. run_ready_tasks Q poll e w = run_ready_tasks Q poll e2 w2 \<and> exec_inv aq_list e2 \<and>
      length (aq_list (task_queue e2)) + work_left rem B (tasks e2)
        < length (aq_list (task_queue e)) + work_left rem B (tasks e) \<and>
      aq_cap (task_queue e2) = aq_cap (task_queue e)"
    proof (cases "tasks e tid")
      case None
      have "exec_inv aq_list (e\<lparr>task_queue := q\<rparr>)"
        using less.prems(1) None q(2) by (fastforce simp: exec_inv_def)
      then show ?thesis using None q
        by (intro exI [of _ "e\<lparr>task_queue := q\<rparr>"] exI [of _ w]) (simp add: run_ready_tasks.simps [of Q poll e w])
    next
      case (Some task)
      then show ?thesis using poll_step [OF Q less.prems q(1-3)] by blast
    qed
    then obtain e2 w2 where "run_ready_tasks Q poll e w = run_ready_tasks Q poll e2 w2" "exec_inv aq_list e2"
      "length (aq_list (task_queue e2)) + work_left rem B (tasks e2)
        < length (aq_list (task_queue e)) + work_left rem B (tasks e)"
      "aq_cap (task_queue e2) = aq_cap (task_queue e)" by blast
    then show ?thesis using less.hyps [of e2 w2] less.prems(2) by simp
  qed
qed

end

subsection \<open>Spawning\<close>

fun task_ids :: "nat \<Rightarrow> u64 \<Rightarrow> TaskId list" where
  "task_ids 0 n = []"
| "task_ids (Suc k) n = n # task_ids k (n + 1)"

lemma task_ids_set: "set (task_ids k n) = (\<lambda>i. n + of_nat i) ` {..<k}"
proof (induction k arbitrary: n)
  case (Suc k)
  have "{..<Suc k} = insert 0 (Suc ` {..<k})" by (auto simp: less_Suc_eq_0_disj)
  then show ?case by (simp add: Suc image_image add.assoc)
qed simp

lemma task_ids_fresh:
  assumes "k < 2 ^ 64"
  shows "n \<notin> set (task_ids k (n + 1))"
proof
  assume "n \<in> set (task_ids k (n + 1))"
  then obtain i where i: "i < k" "n = n + 1 + of_nat i" by (auto simp: task_ids_set)
  then have "(of_nat (Suc i) :: u64) = 0" by simp
  then have "Suc i mod 2 ^ 64 = 0" unfolding word_of_nat_eq_0_iff by (simp add: dvd_eq_mod_eq_0)
  then show False using i(1) assms by simp
qed

lemma spawn_run:
  assumes "array_queue_spec Q aq_list aq_cap" "tasks e (task_id t) = None"
  shows "if length (aq_list (task_queue e)) < aq_cap (task_queue e)
    then \<exists>q. spawn Q t e = Ret (e\<lparr>tasks := (tasks e)(task_id t \<mapsto> t), task_queue := q\<rparr>) \<and>
      aq_list q = aq_list (task_queue e) @ [task_id t] \<and> aq_cap q = aq_cap (task_queue e)
    else spawn Q t e = Panic"
proof (cases "length (aq_list (task_queue e)) < aq_cap (task_queue e)")
  case True
  from array_queue_spec.push_ok [OF assms(1) True, of "task_id t"] obtain q where
    "aq_push Q (task_id t) (task_queue e) = (Ok (), q)" "aq_list q = aq_list (task_queue e) @ [task_id t]"
    "aq_cap q = aq_cap (task_queue e)" by blast
  with True assms(2) show ?thesis unfolding spawn_def Let_def by (simp del: fun_upd_apply) blast
next
  case False
  then show ?thesis
    using array_queue_spec.push_full [OF assms(1) False, of "task_id t"] assms(2) by (simp add: spawn_def Let_def)
qed

lemma work_left_new:
  assumes "finite (dom ts)" "ts tid = None"
  shows "work_left rem B (ts(tid \<mapsto> t)) = work_left rem B ts + (rem (future t) + 1) * (B + 1)"
proof -
  have "(ts(tid \<mapsto> t))(tid := None) = ts" using assms(2) by auto
  then show ?thesis using work_left_change(1) [of "ts(tid \<mapsto> t)" tid t rem B] assms(1) by simp
qed

lemma spawn_all_run:
  assumes Q: "array_queue_spec Q aq_list aq_cap"
    and "finite (dom (tasks e))" "set (task_ids (length fs) n) \<inter> dom (tasks e) = {}" "length fs < 2 ^ 64"
    and "length (aq_list (task_queue e)) + length fs \<le> aq_cap (task_queue e)"
  shows "\<exists>e'. spawn_all Q fs n e = Ret e' \<and> finite (dom (tasks e')) \<and>
    dom (tasks e') = dom (tasks e) \<union> set (task_ids (length fs) n) \<and>
    aq_list (task_queue e') = aq_list (task_queue e) @ task_ids (length fs) n \<and>
    aq_cap (task_queue e') = aq_cap (task_queue e) \<and> waker_cache e' = waker_cache e \<and>
    work_left rem B (tasks e') = work_left rem B (tasks e) + (\<Sum>f\<leftarrow>fs. (rem f + 1) * (B + 1))"
  using assms(2-5)
proof (induction fs arbitrary: e n)
  case (Cons f fs)
  let ?t = "\<lparr>task_id = n, future = f\<rparr>"
  have new: "tasks e n = None" using Cons.prems(2) by auto
  define ts where "ts = (tasks e)(n \<mapsto> ?t)"
  obtain q where sp: "spawn Q ?t e = Ret (e\<lparr>tasks := ts, task_queue := q\<rparr>)"
    and q: "aq_list q = aq_list (task_queue e) @ [n]" "aq_cap q = aq_cap (task_queue e)"
    using spawn_run [OF Q, of e ?t] new Cons.prems(4) unfolding ts_def
    by (auto simp del: fun_upd_apply split: if_splits)
  have ts: "dom ts = insert n (dom (tasks e))"
    "work_left rem B ts = work_left rem B (tasks e) + (rem f + 1) * (B + 1)"
    using work_left_new [OF Cons.prems(1) new, of rem B ?t] by (simp_all add: ts_def)
  let ?e = "e\<lparr>tasks := ts, task_queue := q\<rparr>"
  have "n \<notin> set (task_ids (length fs) (n + 1))" using Cons.prems(3) by (intro task_ids_fresh) simp
  then have "set (task_ids (length fs) (n + 1)) \<inter> dom (tasks ?e) = {}" using Cons.prems(2) ts(1) by auto
  from Cons.IH [of ?e "n + 1", OF _ this] Cons.prems(1,3,4) q ts
  obtain e' where "spawn_all Q fs (n + 1) ?e = Ret e'" "finite (dom (tasks e'))"
    "dom (tasks e') = insert n (dom (tasks e)) \<union> set (task_ids (length fs) (n + 1))"
    "aq_list (task_queue e') = aq_list (task_queue e) @ n # task_ids (length fs) (n + 1)"
    "aq_cap (task_queue e') = aq_cap (task_queue e)" "waker_cache e' = waker_cache e"
    "work_left rem B (tasks e') = work_left rem B ts + (\<Sum>f\<leftarrow>fs. (rem f + 1) * (B + 1))"
    by auto
  then show ?case using sp ts(2) by (simp add: Task_new_def TaskId_new_def)
qed simp

lemma work_left_empty [simp]: "work_left rem B (\<lambda>_. None) = 0"
  by (simp add: work_left_def)

lemma executor_new_facts:
  assumes "array_queue_spec Q aq_list aq_cap"
  shows "tasks (executor_new Q) = Map.empty" "waker_cache (executor_new Q) = Map.empty"
    "aq_list (task_queue (executor_new Q)) = []" "aq_cap (task_queue (executor_new Q)) = 100"
  using array_queue_spec.new_law [OF assms, of 100] by (simp_all add: executor_new_def)

lemma spawn_all_append:
  "spawn_all Q (fs @ gs) n e = bind_out (spawn_all Q fs n e) (\<lambda>e'. spawn_all Q gs (n + of_nat (length fs)) e')"
proof (induction fs arbitrary: n e)
  case (Cons f fs)
  then show ?case
    by (cases "spawn Q \<lparr>task_id = n, future = f\<rparr> e") (simp_all add: Task_new_def TaskId_new_def add.assoc)
qed simp

lemma spawn_full:
  assumes "array_queue_spec Q aq_list aq_cap" "\<not> length (aq_list (task_queue e)) < aq_cap (task_queue e)"
  shows "spawn Q t e = Panic"
  using array_queue_spec.push_full [OF assms, of "task_id t"] by (simp add: spawn_def Let_def)

subsection \<open>Properties\<close>

text \<open>
  C35: The simple executor ends. Whatever futures are queued, if each of them can be pending only
  a bounded number of times, \<open>run\<close> polls round and round until all are ready, and returns with an
  empty queue.
\<close>

theorem simple_run_terminates:
  assumes "progressing poll rem"
  shows "\<exists>w'. simple_run poll (simple_spawn task q) w = Some (simple_new, w')"
  using progressing.simple_run_ends [OF assms] by (simp add: simple_new_def)

theorem simple_run_terminates_witness:
  "\<exists>w'. simple_run yield_poll (simple_spawn \<lparr>task_id = 1, future = 2\<rparr> [\<lparr>task_id = 0, future = 5\<rparr>]) () =
    Some (simple_new, w')"
  by (rule simple_run_terminates [OF yield.progressing_axioms])

text \<open>
  C10: The executor runs tasks to completion. Futures that wake themselves while pending, and whose
  remaining polls fit in the queue, are spawned with fresh identifiers and all finish in one call of
  \<open>run_ready_tasks\<close>: it returns, no push finds the queue full, and no task, cached waker or queue
  entry is left, although the queue may hold a task several times.
\<close>

theorem executor_completes:
  assumes "array_queue_spec Q aq_list aq_cap" and "self_waking poll rem B"
    and "length fs + (\<Sum>f\<leftarrow>fs. (rem f + 1) * (B + 1)) \<le> 100"
  shows "\<exists>e e' w'. spawn_all Q fs n (executor_new Q) = Ret e \<and>
    run_ready_tasks Q poll e w = Some (Ret (), e', w') \<and>
    tasks e' = Map.empty \<and> waker_cache e' = Map.empty \<and> aq_list (task_queue e') = []"
proof -
  note new = executor_new_facts [OF assms(1)]
  obtain e where e: "spawn_all Q fs n (executor_new Q) = Ret e" "finite (dom (tasks e))"
    "dom (tasks e) = set (task_ids (length fs) n)" "aq_list (task_queue e) = task_ids (length fs) n"
    "aq_cap (task_queue e) = 100" "waker_cache e = Map.empty"
    "work_left rem B (tasks e) = (\<Sum>f\<leftarrow>fs. (rem f + 1) * (B + 1))"
    using spawn_all_run [OF assms(1), of "executor_new Q" fs n rem B] assms(3) by (auto simp: new)
  have "length (task_ids k m) = k" for k m by (induction k arbitrary: m) simp_all
  then show ?thesis
    using self_waking.run_completes [OF assms(2,1), of e w] e assms(3) by (simp add: exec_inv_def)
qed

theorem executor_completes_witness:
  "\<exists>e e' w'. spawn_all list_queue [3, 1] 0xFFFFFFFFFFFFFFFF (executor_new list_queue) = Ret e \<and>
    run_ready_tasks list_queue yield_poll e () = Some (Ret (), e', w') \<and> tasks e' = Map.empty"
proof -
  have "length [3, 1 :: nat] + (\<Sum>f\<leftarrow>[3, 1]. (f + 1) * (1 + 1)) \<le> 100" by simp
  from executor_completes [OF list_q.array_queue_spec_axioms yield.self_waking_axioms this, where n = "0xFFFFFFFFFFFFFFFF" and w = "()"]
  show ?thesis by blast
qed

text \<open>
  C36: A new executor takes exactly a hundred tasks. Spawning panics if and only if there are more:
  identifiers never collide, even when the counter wraps around.
\<close>

theorem spawn_limit:
  assumes "array_queue_spec Q aq_list aq_cap"
  shows "spawn_all Q fs n (executor_new Q) = Panic \<longleftrightarrow> 100 < length fs"
proof (cases "length fs \<le> 100")
  case True
  then show ?thesis
    using spawn_all_run [OF assms, of "executor_new Q" fs n] by (auto simp: executor_new_facts [OF assms])
next
  case False
  then obtain g gs where fs: "fs = take 100 fs @ g # gs" by (metis append_take_drop_id drop_eq_Nil2 list.exhaust)
  obtain e where e: "spawn_all Q (take 100 fs) n (executor_new Q) = Ret e"
    "aq_list (task_queue e) = task_ids 100 n" "aq_cap (task_queue e) = 100"
    using spawn_all_run [OF assms, of "executor_new Q" "take 100 fs" n "\<lambda>_. 0" 0] False
    by (auto simp: executor_new_facts [OF assms] simp del: task_ids.simps)
  have "length (task_ids k m) = k" for k m by (induction k arbitrary: m) simp_all
  then have "spawn Q t e = Panic" for t using spawn_full [OF assms, of e t] e by simp
  then have "spawn_all Q (take 100 fs @ g # gs) n (executor_new Q) = Panic"
    unfolding spawn_all_append e(1) by (simp add: Task_new_def TaskId_new_def)
  then show ?thesis using fs False by simp
qed

theorem spawn_limit_witness:
  "spawn_all list_queue (replicate 101 ()) 7 (executor_new list_queue) = Panic"
  using spawn_limit [OF list_q.array_queue_spec_axioms, of "replicate 101 ()" 7] by simp

end
