(* ===== verification/Keyboard.thy ===== *)
theory Keyboard
  imports Tasks
begin

section \<open>The keyboard task (\<open>src/src/task/keyboard.rs\<close>)\<close>

text \<open>
  The interrupt handler pushes scan codes, the keyboard task pulls them; a waker connects the two.
  \<open>poll_next\<close> is split into its atomic actions, and the handler may run between any two of them.
  \<open>AtomicWaker\<close> (\<open>futures_util\<close>) and the decoder (\<open>pc_keyboard\<close>) are packages outside the
  repository: the records \<open>atomic_waker\<close> and \<open>key_decoder\<close>. \<open>OnceCell\<close> is an option.
\<close>

record 'c atomic_waker =
  aw_register :: "Waker \<Rightarrow> 'c \<Rightarrow> 'c"
  aw_take :: "'c \<Rightarrow> Waker option \<times> 'c"

record ('q, 'tq, 'c) kbd =
  SCANCODE_QUEUE :: "'q option"
  SCANCODE_WAKER :: 'c
  exec_queue :: 'tq

text \<open>\<open>AtomicWaker::wake\<close> takes the registered waker and wakes it.\<close>

definition wake_registered ::
    "(TaskId, 'tq) array_queue \<Rightarrow> 'c atomic_waker \<Rightarrow> ('q, 'tq, 'c) kbd \<Rightarrow> ('q, 'tq, 'c) kbd outcome" where
  "wake_registered TQ A s =
     (case aw_take A (SCANCODE_WAKER s) of
        (None, c) \<Rightarrow> Ret (s\<lparr> SCANCODE_WAKER := c \<rparr>)
      | (Some wk, c) \<Rightarrow>
          bind_out (wake TQ wk (exec_queue s)) (\<lambda>tq. Ret (s\<lparr> SCANCODE_WAKER := c, exec_queue := tq \<rparr>)))"

definition add_scancode ::
    "(u8, 'q) array_queue \<Rightarrow> (TaskId, 'tq) array_queue \<Rightarrow> 'c atomic_waker \<Rightarrow> u8
       \<Rightarrow> ('q, 'tq, 'c) kbd \<Rightarrow> ('q, 'tq, 'c) kbd outcome" where
  "add_scancode Q TQ A scancode s =
     (case SCANCODE_QUEUE s of
        None \<Rightarrow> Ret s
      | Some queue \<Rightarrow>
          (case aq_push Q scancode queue of
             (Err _, queue') \<Rightarrow> Ret (s\<lparr> SCANCODE_QUEUE := Some queue' \<rparr>)
           | (Ok _, queue') \<Rightarrow> wake_registered TQ A (s\<lparr> SCANCODE_QUEUE := Some queue' \<rparr>)))"

definition ScancodeStream_new :: "(u8, 'q) array_queue \<Rightarrow> ('q, 'tq, 'c) kbd \<Rightarrow> ('q, 'tq, 'c) kbd outcome" where
  "ScancodeStream_new Q s =
     (case SCANCODE_QUEUE s of
        None \<Rightarrow> Ret (s\<lparr> SCANCODE_QUEUE := Some (aq_new Q 100) \<rparr>)
      | Some _ \<Rightarrow> Panic)"

text \<open>Where \<open>poll_next\<close> stands: before its first \<open>pop\<close>, before \<open>register\<close>, before its second
  \<open>pop\<close>, and before \<open>take\<close> with the scan code it has popped.\<close>

datatype poll_pc = Enter | Register | SecondPop | Taking u8

datatype poll_result = Continue poll_pc | Ready u8 | Pending

definition poll_action ::
    "(u8, 'q) array_queue \<Rightarrow> 'c atomic_waker \<Rightarrow> Waker \<Rightarrow> poll_pc \<Rightarrow> ('q, 'tq, 'c) kbd
       \<Rightarrow> (poll_result \<times> ('q, 'tq, 'c) kbd) outcome" where
  "poll_action Q A waker pc s =
     (case SCANCODE_QUEUE s of
        None \<Rightarrow> Panic
      | Some queue \<Rightarrow>
          (case pc of
             Enter \<Rightarrow>
               (case aq_pop Q queue of
                  (Some scancode, queue') \<Rightarrow> Ret (Ready scancode, s\<lparr> SCANCODE_QUEUE := Some queue' \<rparr>)
                | (None, queue') \<Rightarrow> Ret (Continue Register, s\<lparr> SCANCODE_QUEUE := Some queue' \<rparr>))
           | Register \<Rightarrow>
               Ret (Continue SecondPop, s\<lparr> SCANCODE_WAKER := aw_register A waker (SCANCODE_WAKER s) \<rparr>)
           | SecondPop \<Rightarrow>
               (case aq_pop Q queue of
                  (Some scancode, queue') \<Rightarrow> Ret (Continue (Taking scancode), s\<lparr> SCANCODE_QUEUE := Some queue' \<rparr>)
                | (None, queue') \<Rightarrow> Ret (Pending, s\<lparr> SCANCODE_QUEUE := Some queue' \<rparr>))
           | Taking scancode \<Rightarrow>
               (case aw_take A (SCANCODE_WAKER s) of (_, c) \<Rightarrow> Ret (Ready scancode, s\<lparr> SCANCODE_WAKER := c \<rparr>))))"

text \<open>\<open>poll_next\<close> when no interrupt comes in between: at most four actions.\<close>

fun poll_from ::
    "nat \<Rightarrow> (u8, 'q) array_queue \<Rightarrow> 'c atomic_waker \<Rightarrow> Waker \<Rightarrow> poll_pc \<Rightarrow> ('q, 'tq, 'c) kbd
       \<Rightarrow> (poll_result \<times> ('q, 'tq, 'c) kbd) outcome" where
  "poll_from 0 Q A waker pc s = Ret (Continue pc, s)"
| "poll_from (Suc n) Q A waker pc s =
     bind_out (poll_action Q A waker pc s) (\<lambda>(r, s').
     case r of Continue pc' \<Rightarrow> poll_from n Q A waker pc' s' | _ \<Rightarrow> Ret (r, s'))"

definition poll_next ::
    "(u8, 'q) array_queue \<Rightarrow> 'c atomic_waker \<Rightarrow> Waker \<Rightarrow> ('q, 'tq, 'c) kbd
       \<Rightarrow> (poll_result \<times> ('q, 'tq, 'c) kbd) outcome" where
  "poll_next Q A waker s = poll_from 4 Q A waker Enter s"

text \<open>What \<open>print_keypresses\<close> prints for a scan code: a character, as its code point, or nothing.\<close>

datatype 'code DecodedKey = RawKey 'code | Unicode u32

record ('k, 'ev, 'code) key_decoder =
  add_byte :: "u8 \<Rightarrow> 'k \<Rightarrow> ('ev option, unit) result \<times> 'k"
  process_keyevent :: "'ev \<Rightarrow> 'k \<Rightarrow> 'code DecodedKey option \<times> 'k"

definition print_key :: "('k, 'ev, 'code) key_decoder \<Rightarrow> u8 \<Rightarrow> 'k \<Rightarrow> u32 list \<times> 'k" where
  "print_key K scancode k =
     (case add_byte K scancode k of
        (Ok (Some key_event), k1) \<Rightarrow>
          (case process_keyevent K key_event k1 of
             (Some (Unicode character), k2) \<Rightarrow> ([character], k2)
           | (_, k2) \<Rightarrow> ([], k2))
      | (_, k1) \<Rightarrow> ([], k1))"

text \<open>One poll of the task: it prints until the stream is pending. The fuel bounds the polls of
  the stream; one more than the scan codes in the queue is enough.\<close>

fun print_keypresses ::
    "nat \<Rightarrow> (u8, 'q) array_queue \<Rightarrow> 'c atomic_waker \<Rightarrow> ('k, 'ev, 'code) key_decoder \<Rightarrow> Waker
       \<Rightarrow> ('q, 'tq, 'c) kbd \<Rightarrow> 'k \<Rightarrow> (u32 list \<times> ('q, 'tq, 'c) kbd \<times> 'k) option outcome" where
  "print_keypresses 0 Q A K waker s k = Ret None"
| "print_keypresses (Suc n) Q A K waker s k =
     bind_out (poll_next Q A waker s) (\<lambda>(r, s').
     case r of
       Ready scancode \<Rightarrow>
         (case print_key K scancode k of
            (out, k') \<Rightarrow>
              bind_out (print_keypresses n Q A K waker s' k') (\<lambda>rest.
              Ret (map_option (\<lambda>(out', z). (out @ out', z)) rest)))
     | _ \<Rightarrow> Ret (Some ([], s', k)))"

text \<open>The first poll sets the stream up.\<close>

definition print_keypresses_start ::
    "nat \<Rightarrow> (u8, 'q) array_queue \<Rightarrow> 'c atomic_waker \<Rightarrow> ('k, 'ev, 'code) key_decoder \<Rightarrow> Waker
       \<Rightarrow> ('q, 'tq, 'c) kbd \<Rightarrow> 'k \<Rightarrow> (u32 list \<times> ('q, 'tq, 'c) kbd \<times> 'k) option outcome" where
  "print_keypresses_start fuel Q A K waker s k =
     bind_out (ScancodeStream_new Q s) (\<lambda>s'. print_keypresses fuel Q A K waker s' k)"

subsection \<open>The task, the executor and the interrupt handler together\<close>

text \<open>
  \<open>None\<close>: the task is not being polled. \<open>accepted\<close> and \<open>delivered\<close> record the scan codes the
  queue has taken and the task has received.
\<close>

record ('q, 'tq, 'c) kb_system =
  kb_pc :: "poll_pc option"
  kb :: "('q, 'tq, 'c) kbd"
  accepted :: "u8 list"
  delivered :: "u8 list"

inductive kb_step ::
    "(u8, 'q) array_queue \<Rightarrow> (TaskId, 'tq) array_queue \<Rightarrow> 'c atomic_waker \<Rightarrow> TaskId
       \<Rightarrow> ('q, 'tq, 'c) kb_system \<Rightarrow> ('q, 'tq, 'c) kb_system \<Rightarrow> bool"
  for Q TQ A tid where
  interrupt: "\<lbrakk>SCANCODE_QUEUE (kb y) = Some q; add_scancode Q TQ A c (kb y) = Ret s\<rbrakk> \<Longrightarrow>
    kb_step Q TQ A tid y (y\<lparr> kb := s,
      accepted := (case fst (aq_push Q c q) of Ok _ \<Rightarrow> accepted y @ [c] | Err _ \<Rightarrow> accepted y) \<rparr>)"
| scheduled: "\<lbrakk>kb_pc y = None; aq_pop TQ (exec_queue (kb y)) = (Some tid, tq)\<rbrakk> \<Longrightarrow>
    kb_step Q TQ A tid y (y\<lparr> kb_pc := Some Enter, kb := (kb y)\<lparr> exec_queue := tq \<rparr> \<rparr>)"
| other_task: "\<lbrakk>kb_pc y = None; aq_pop TQ (exec_queue (kb y)) = (Some t, tq); t \<noteq> tid\<rbrakk> \<Longrightarrow>
    kb_step Q TQ A tid y (y\<lparr> kb := (kb y)\<lparr> exec_queue := tq \<rparr> \<rparr>)"
| other_wake: "wake_task TQ t (exec_queue (kb y)) = Ret tq \<Longrightarrow>
    kb_step Q TQ A tid y (y\<lparr> kb := (kb y)\<lparr> exec_queue := tq \<rparr> \<rparr>)"
| proceed: "\<lbrakk>kb_pc y = Some pc; poll_action Q A (TaskWaker tid) pc (kb y) = Ret (Continue pc', s)\<rbrakk> \<Longrightarrow>
    kb_step Q TQ A tid y (y\<lparr> kb_pc := Some pc', kb := s \<rparr>)"
| ready: "\<lbrakk>kb_pc y = Some pc; poll_action Q A (TaskWaker tid) pc (kb y) = Ret (Ready c, s)\<rbrakk> \<Longrightarrow>
    kb_step Q TQ A tid y (y\<lparr> kb_pc := Some Enter, kb := s, delivered := delivered y @ [c] \<rparr>)"
| pending: "\<lbrakk>kb_pc y = Some pc; poll_action Q A (TaskWaker tid) pc (kb y) = Ret (Pending, s)\<rbrakk> \<Longrightarrow>
    kb_step Q TQ A tid y (y\<lparr> kb_pc := None, kb := s \<rparr>)"

inductive kb_reach ::
    "(u8, 'q) array_queue \<Rightarrow> (TaskId, 'tq) array_queue \<Rightarrow> 'c atomic_waker \<Rightarrow> TaskId
       \<Rightarrow> ('q, 'tq, 'c) kb_system \<Rightarrow> ('q, 'tq, 'c) kb_system \<Rightarrow> bool"
  for Q TQ A tid y0 where
  init: "kb_reach Q TQ A tid y0 y0"
| step: "\<lbrakk>kb_reach Q TQ A tid y0 y; kb_step Q TQ A tid y y'\<rbrakk> \<Longrightarrow> kb_reach Q TQ A tid y0 y'"

subsection \<open>No wake-up and no scan code is lost\<close>

locale atomic_waker_spec =
  fixes A :: "'c atomic_waker" and aw_view :: "'c \<Rightarrow> Waker option"
  assumes register_law: "aw_view (aw_register A wk c) = Some wk"
    and take_law: "\<exists>c'. aw_take A c = (aw_view c, c') \<and> aw_view c' = None"

definition cell_waker :: "Waker option atomic_waker" where
  "cell_waker = \<lparr> aw_register = (\<lambda>wk _. Some wk), aw_take = (\<lambda>c. (c, None)) \<rparr>"

locale keyboard_env =
  sq: array_queue_spec Q sq_list sq_cap + tq: array_queue_spec TQ tq_list tq_cap + atomic_waker_spec A aw_view
  for Q :: "(u8, 'q) array_queue" and sq_list sq_cap
    and TQ :: "(TaskId, 'tq) array_queue" and tq_list tq_cap
    and A :: "'c atomic_waker" and aw_view

interpretation cell_kbd: keyboard_env list_queue fst snd list_queue fst snd cell_waker "\<lambda>c. c"
  by unfold_locales (simp_all add: cell_waker_def)

fun in_flight :: "poll_pc option \<Rightarrow> u8 list" where
  "in_flight (Some (Taking c)) = [c]"
| "in_flight _ = []"

definition kb_inv ::
    "('q \<Rightarrow> u8 list) \<Rightarrow> ('tq \<Rightarrow> TaskId list) \<Rightarrow> ('c \<Rightarrow> Waker option) \<Rightarrow> TaskId \<Rightarrow> ('q, 'tq, 'c) kb_system \<Rightarrow> bool" where
  "kb_inv sq_list tq_list aw_view tid y \<longleftrightarrow>
     (\<exists>q. SCANCODE_QUEUE (kb y) = Some q \<and>
        aw_view (SCANCODE_WAKER (kb y)) \<in> {None, Some (TaskWaker tid)} \<and>
        (kb_pc y \<in> {None, Some SecondPop} \<longrightarrow>
           tid \<in> set (tq_list (exec_queue (kb y))) \<or> aw_view (SCANCODE_WAKER (kb y)) = Some (TaskWaker tid)) \<and>
        (kb_pc y = None \<and> sq_list q \<noteq> [] \<longrightarrow> tid \<in> set (tq_list (exec_queue (kb y)))) \<and>
        accepted y = delivered y @ in_flight (kb_pc y) @ sq_list q)"

context keyboard_env
begin

lemma wake_task_run: "wake_task TQ t q = Ret q' \<Longrightarrow> tq_list q' = tq_list q @ [t]"
  using tq.push_ok [of q t] tq.push_full [of q t]
  by (cases "length (tq_list q) < tq_cap q") (auto simp: wake_task_def)

lemma add_scancode_run:
  assumes q: "SCANCODE_QUEUE s = Some q" and run: "add_scancode Q TQ A c s = Ret s'"
    and wk: "aw_view (SCANCODE_WAKER s) \<in> {None, Some (TaskWaker tid)}"
  obtains (full) q' where "aq_push Q c q = (Err c, q')" "s' = s\<lparr>SCANCODE_QUEUE := Some q'\<rparr>" "sq_list q' = sq_list q"
  | (taken) q' where "fst (aq_push Q c q) = Ok ()" "SCANCODE_QUEUE s' = Some q'" "sq_list q' = sq_list q @ [c]"
      "aw_view (SCANCODE_WAKER s') = None"
      "tq_list (exec_queue s') = tq_list (exec_queue s) @
         (if aw_view (SCANCODE_WAKER s) = None then [] else [tid])"
proof (cases "length (sq_list q) < sq_cap q")
  case False
  then show thesis using full [of q] sq.push_full [OF False, of c] q run by (auto simp: add_scancode_def)
next
  case True
  then obtain q' where q': "aq_push Q c q = (Ok (), q')" "sq_list q' = sq_list q @ [c]"
    using sq.push_ok by blast
  obtain w' where w': "aw_take A (SCANCODE_WAKER s) = (aw_view (SCANCODE_WAKER s), w')" "aw_view w' = None"
    using take_law by blast
  have "aw_view (SCANCODE_WAKER s') = None \<and> SCANCODE_QUEUE s' = Some q' \<and>
      tq_list (exec_queue s') = tq_list (exec_queue s) @ (if aw_view (SCANCODE_WAKER s) = None then [] else [tid])"
    using run q q' w' wk
    by (auto simp: add_scancode_def wake_registered_def io_simps dest!: wake_task_run)
  then show thesis using taken [of q'] q' by simp
qed

lemma poll_action_run:
  assumes q: "SCANCODE_QUEUE s = Some q" and run: "poll_action Q A wk pc s = Ret (r, s')"
  obtains (first) c q' where "pc = Enter" "sq_list q = c # sq_list q'" "r = Ready c" "s' = s\<lparr>SCANCODE_QUEUE := Some q'\<rparr>"
  | (empty) "pc = Enter" "sq_list q = []" "r = Continue Register" "s' = s"
  | (register) "pc = Register" "r = Continue SecondPop" "s' = s\<lparr>SCANCODE_WAKER := aw_register A wk (SCANCODE_WAKER s)\<rparr>"
  | (second) c q' where "pc = SecondPop" "sq_list q = c # sq_list q'" "r = Continue (Taking c)"
      "s' = s\<lparr>SCANCODE_QUEUE := Some q'\<rparr>"
  | (park) "pc = SecondPop" "sq_list q = []" "r = Pending" "s' = s"
  | (taking) c w' where "pc = Taking c" "r = Ready c" "s' = s\<lparr>SCANCODE_WAKER := w'\<rparr>" "aw_view w' = None"
proof -
  have same: "s\<lparr>SCANCODE_QUEUE := Some q\<rparr> = s" using q by simp
  show thesis
  proof (cases pc)
    case Enter
    then show thesis using q run sq.pop_none [of q] sq.pop_some [of q] first empty same
      by (cases "sq_list q") (fastforce simp: poll_action_def)+
  next
    case Register
    then show thesis using q run register by (simp add: poll_action_def)
  next
    case SecondPop
    show thesis
    proof (cases "sq_list q")
      case Nil
      then have "aq_pop Q q = (None, q)" by (rule sq.pop_none)
      then show thesis using SecondPop Nil q run same by (intro park) (simp_all add: poll_action_def)
    next
      case (Cons c cs)
      then obtain q' where "aq_pop Q q = (Some c, q')" "sq_list q' = cs" using sq.pop_some by blast
      then show thesis using SecondPop Cons q run by (intro second [of c q']) (simp_all add: poll_action_def)
    qed
  next
    case (Taking c)
    then show thesis using q run taking take_law [of "SCANCODE_WAKER s"] by (auto simp: poll_action_def)
  qed
qed

lemma kb_inv_step:
  assumes "kb_step Q TQ A tid y y'" and "kb_inv sq_list tq_list aw_view tid y"
  shows "kb_inv sq_list tq_list aw_view tid y'"
proof -
  obtain q where q: "SCANCODE_QUEUE (kb y) = Some q"
    and wk: "aw_view (SCANCODE_WAKER (kb y)) \<in> {None, Some (TaskWaker tid)}"
    and park: "kb_pc y \<in> {None, Some SecondPop} \<Longrightarrow>
      tid \<in> set (tq_list (exec_queue (kb y))) \<or> aw_view (SCANCODE_WAKER (kb y)) = Some (TaskWaker tid)"
    and idle: "\<lbrakk>kb_pc y = None; sq_list q \<noteq> []\<rbrakk> \<Longrightarrow> tid \<in> set (tq_list (exec_queue (kb y)))"
    and fifo: "accepted y = delivered y @ in_flight (kb_pc y) @ sq_list q"
    using assms(2) by (auto simp: kb_inv_def)
  from assms(1) show ?thesis
  proof cases
    case (interrupt q0 c s)
    then have "q0 = q" using q by simp
    show ?thesis using q interrupt(3) wk
    proof (cases rule: add_scancode_run)
      case (full q')
      then show ?thesis using interrupt \<open>q0 = q\<close> wk park idle fifo by (auto simp: kb_inv_def)
    next
      case (taken q')
      then show ?thesis using interrupt \<open>q0 = q\<close> wk park idle fifo by (auto simp: kb_inv_def split: if_splits)
    qed
  next
    case (other_wake t tq)
    then show ?thesis using q wk park idle fifo wake_task_run [OF other_wake(2)] by (auto simp: kb_inv_def)
  next
    case (proceed pc pc' s)
    show ?thesis using q proceed(3)
      by (cases rule: poll_action_run) (use proceed q wk park idle fifo register_law in \<open>auto simp: kb_inv_def\<close>)
  next
    case (ready pc c s)
    show ?thesis using q ready(3)
      by (cases rule: poll_action_run) (use ready q wk park idle fifo in \<open>auto simp: kb_inv_def\<close>)
  next
    case (pending pc s)
    show ?thesis using q pending(3)
      by (cases rule: poll_action_run) (use pending q wk park idle fifo in \<open>auto simp: kb_inv_def\<close>)
  next
    case (scheduled tq)
    then show ?thesis using q wk park idle fifo by (auto simp: kb_inv_def)
  next
    case (other_task t tq)
    obtain xs where "tq_list (exec_queue (kb y)) = t # xs" "tq_list tq = xs"
      using other_task(3) tq.pop_none [of "exec_queue (kb y)"] tq.pop_some [of "exec_queue (kb y)"]
      by (cases "tq_list (exec_queue (kb y))") auto
    then show ?thesis using other_task q wk park idle fifo by (auto simp: kb_inv_def)
  qed
qed

lemma kb_inv_reach:
  assumes "kb_reach Q TQ A tid y0 y" and "kb_inv sq_list tq_list aw_view tid y0"
  shows "kb_inv sq_list tq_list aw_view tid y"
  using assms by (induction rule: kb_reach.induct) (auto intro: kb_inv_step)

lemma poll_next_some:
  assumes "SCANCODE_QUEUE s = Some q" "sq_list q = c # cs"
  shows "\<exists>q'. poll_next Q A wk s = Ret (Ready c, s\<lparr>SCANCODE_QUEUE := Some q'\<rparr>) \<and> sq_list q' = cs \<and>
    sq_cap q' = sq_cap q"
  using sq.pop_some [OF assms(2)] assms(1) by (auto simp: poll_next_def numeral_eq_Suc poll_action_def)

lemma poll_next_none:
  assumes "SCANCODE_QUEUE s = Some q" "sq_list q = []"
  shows "poll_next Q A wk s = Ret (Pending, s\<lparr>SCANCODE_WAKER := aw_register A wk (SCANCODE_WAKER s)\<rparr>)"
proof -
  have "s\<lparr>SCANCODE_QUEUE := Some q\<rparr> = s" using assms(1) by simp
  then show ?thesis
    using sq.pop_none [OF assms(2)] assms(1) by (simp add: poll_next_def numeral_eq_Suc poll_action_def)
qed

end

text \<open>What is printed for a sequence of scan codes.\<close>

fun print_keys :: "('k, 'ev, 'code) key_decoder \<Rightarrow> u8 list \<Rightarrow> 'k \<Rightarrow> u32 list \<times> 'k" where
  "print_keys K [] k = ([], k)"
| "print_keys K (c # cs) k =
     (case print_key K c k of (out, k1) \<Rightarrow> case print_keys K cs k1 of (out', k2) \<Rightarrow> (out @ out', k2))"

context keyboard_env
begin

text \<open>A poll of the task takes everything that waits.\<close>

lemma print_keypresses_run:
  assumes "SCANCODE_QUEUE s = Some q" and "length (sq_list q) < fuel"
  shows "\<exists>s' q'. print_keypresses fuel Q A K wk s k =
      Ret (Some (fst (print_keys K (sq_list q) k), s', snd (print_keys K (sq_list q) k))) \<and>
    SCANCODE_QUEUE s' = Some q' \<and> sq_list q' = [] \<and> sq_cap q' = sq_cap q \<and>
    aw_view (SCANCODE_WAKER s') = Some wk \<and> exec_queue s' = exec_queue s"
  using assms
proof (induction fuel arbitrary: s q k)
  case (Suc n)
  show ?case
  proof (cases "sq_list q")
    case Nil
    then show ?thesis using poll_next_none [OF Suc.prems(1) Nil] Suc.prems(1) by (simp add: register_law)
  next
    case (Cons c cs)
    obtain q' where q': "poll_next Q A wk s = Ret (Ready c, s\<lparr>SCANCODE_QUEUE := Some q'\<rparr>)" "sq_list q' = cs"
      "sq_cap q' = sq_cap q"
      using poll_next_some [OF Suc.prems(1) Cons] by blast
    obtain out k1 where k1: "print_key K c k = (out, k1)" by (metis prod.exhaust)
    show ?thesis
      using Suc.IH [of "s\<lparr>SCANCODE_QUEUE := Some q'\<rparr>" q' k1] q' k1 Cons Suc.prems(2)
      by (auto split: prod.splits)
  qed
qed simp

end

subsection \<open>Properties\<close>

text \<open>
  C5: No wake-up is lost and no scan code is lost, duplicated or reordered. However interrupts,
  the actions of \<open>poll_next\<close> and the other tasks interleave, what the task has received, what it
  holds and what is queued are together exactly the accepted scan codes in order; and whenever
  the task is not running while scan codes wait, it is in the queue of the executor.
\<close>

theorem keyboard_no_lost_input:
  assumes env: "keyboard_env Q sq_list sq_cap TQ tq_list tq_cap A aw_view"
    and start: "ScancodeStream_new Q s = Ret s0" "aw_view (SCANCODE_WAKER s) = None"
    and reach: "kb_reach Q TQ A tid \<lparr> kb_pc = Some Enter, kb = s0, accepted = [], delivered = [] \<rparr> y"
  shows "\<exists>q. SCANCODE_QUEUE (kb y) = Some q \<and>
    accepted y = delivered y @ in_flight (kb_pc y) @ sq_list q \<and>
    (kb_pc y = None \<and> sq_list q \<noteq> [] \<longrightarrow> tid \<in> set (tq_list (exec_queue (kb y))))"
proof -
  have "array_queue_spec Q sq_list sq_cap" using env by (simp add: keyboard_env_def)
  then have "s0 = s\<lparr>SCANCODE_QUEUE := Some (aq_new Q 100)\<rparr>" "sq_list (aq_new Q 100) = []"
    using start(1) array_queue_spec.new_law [of Q sq_list sq_cap 100]
    by (simp_all add: ScancodeStream_new_def split: option.splits)
  then have "kb_inv sq_list tq_list aw_view tid \<lparr> kb_pc = Some Enter, kb = s0, accepted = [], delivered = [] \<rparr>"
    using start(2) by (simp add: kb_inv_def)
  from keyboard_env.kb_inv_reach [OF env reach this] show ?thesis by (auto simp: kb_inv_def)
qed

theorem keyboard_no_lost_input_witness:
  "\<exists>s0 s1 q. ScancodeStream_new list_queue
      \<lparr> SCANCODE_QUEUE = None, SCANCODE_WAKER = None, exec_queue = ([], 100) \<rparr> = Ret s0 \<and>
    add_scancode list_queue list_queue cell_waker 30 s0 = Ret s1 \<and> SCANCODE_QUEUE s1 = Some q \<and> fst q = [30]"
proof -
  let ?s = "\<lparr> SCANCODE_QUEUE = None, SCANCODE_WAKER = None :: Waker option,
    exec_queue = ([] :: TaskId list, 100 :: nat) \<rparr>"
  obtain s0 where s0: "ScancodeStream_new list_queue ?s = Ret s0" by (simp add: ScancodeStream_new_def)
  let ?y = "\<lparr> kb_pc = Some Enter, kb = s0, accepted = [], delivered = [] \<rparr>"
  have q: "SCANCODE_QUEUE (kb ?y) = Some ([], 100)"
    using s0 by (auto simp: ScancodeStream_new_def list_queue_def)
  obtain s1 where s1: "add_scancode list_queue list_queue cell_waker 30 (kb ?y) = Ret s1"
    using s0 by (auto simp: ScancodeStream_new_def add_scancode_def wake_registered_def list_queue_def cell_waker_def)
  note reach = kb_reach.step [OF kb_reach.init kb_step.interrupt [OF q s1]]
  show ?thesis
    using keyboard_no_lost_input [OF cell_kbd.keyboard_env_axioms s0 _ reach] s0 s1 by (auto simp: list_queue_def)
qed

text \<open>
  C27: A poll of the keyboard task consumes everything that is waiting: \<open>print_keypresses\<close> prints
  what the waiting scan codes decode to, in order, and becomes pending with an empty queue and its
  waker registered.
\<close>

theorem print_keypresses_drains:
  assumes env: "keyboard_env Q sq_list sq_cap TQ tq_list tq_cap A aw_view"
    and "SCANCODE_QUEUE s = Some q" and "length (sq_list q) < fuel"
  shows "\<exists>s' q'. print_keypresses fuel Q A K wk s k =
      Ret (Some (fst (print_keys K (sq_list q) k), s', snd (print_keys K (sq_list q) k))) \<and>
    SCANCODE_QUEUE s' = Some q' \<and> sq_list q' = [] \<and> aw_view (SCANCODE_WAKER s') = Some wk \<and>
    exec_queue s' = exec_queue s"
  using keyboard_env.print_keypresses_run [OF assms, of K wk k] by blast

theorem print_keypresses_drains_witness:
  "\<exists>s' q'. print_keypresses 3 list_queue cell_waker
      \<lparr> add_byte = (\<lambda>c (k::unit). (Ok (Some c), k)), process_keyevent = (\<lambda>c k. (Some (Unicode 120 :: unit DecodedKey), k)) \<rparr>
      (TaskWaker 1) \<lparr> SCANCODE_QUEUE = Some ([30, 48], 100), SCANCODE_WAKER = None, exec_queue = ([], 100::nat) \<rparr> () =
    Ret (Some ([120, 120], s', ())) \<and> SCANCODE_QUEUE s' = Some q' \<and> fst q' = []"
  using print_keypresses_drains [OF cell_kbd.keyboard_env_axioms,
      of "\<lparr> SCANCODE_QUEUE = Some ([30, 48], 100), SCANCODE_WAKER = None, exec_queue = ([], 100::nat) \<rparr>"
        "([30, 48], 100)" 3
        "\<lparr> add_byte = (\<lambda>c (k::unit). (Ok (Some c), k)), process_keyevent = (\<lambda>c k. (Some (Unicode 120 :: unit DecodedKey), k)) \<rparr>"
        "TaskWaker 1" "()"]
  by (auto simp: print_key_def simp del: print_keypresses.simps)

text \<open>The state the pile grows in: the task runs, nothing waits, and \<open>k\<close> stale wake-ups are queued.\<close>

definition piled :: "TaskId \<Rightarrow> nat \<Rightarrow> u8 list \<Rightarrow> (u8 list \<times> nat, TaskId list \<times> nat, Waker option) kb_system" where
  "piled tid k cs =
     \<lparr> kb_pc = Some Enter,
       kb = \<lparr> SCANCODE_QUEUE = Some ([], 100), SCANCODE_WAKER = None, exec_queue = (replicate k tid, 100) \<rparr>,
       accepted = cs, delivered = cs \<rparr>"

lemma piled_grows:
  assumes "k < 100" and reach: "kb_reach list_queue list_queue cell_waker tid y0 (piled tid k cs)"
  shows "kb_reach list_queue list_queue cell_waker tid y0 (piled tid (Suc k) (cs @ [c]))"
proof -
  let ?s = "\<lparr> SCANCODE_QUEUE = Some ([], 100), SCANCODE_WAKER = None, exec_queue = (replicate k tid, 100) \<rparr>"
  let ?y = "piled tid k cs"
  let ?R = "kb_reach list_queue list_queue cell_waker tid y0"
  note defs = list_queue_def cell_waker_def poll_action_def piled_def
  have 1: "?R (?y\<lparr> kb_pc := Some Register \<rparr>)"
    using kb_reach.step [OF reach kb_step.proceed [of ?y Enter]] by (simp add: defs)
  have 2: "?R (?y\<lparr> kb_pc := Some SecondPop, kb := ?s\<lparr> SCANCODE_WAKER := Some (TaskWaker tid) \<rparr> \<rparr>)"
    using kb_reach.step [OF 1 kb_step.proceed [of _ Register]] by (simp add: defs)
  have 3: "?R (?y\<lparr> kb_pc := Some SecondPop, accepted := cs @ [c],
      kb := \<lparr> SCANCODE_QUEUE = Some ([c], 100), SCANCODE_WAKER = None, exec_queue = (replicate (Suc k) tid, 100) \<rparr> \<rparr>)"
    using kb_reach.step [OF 2 kb_step.interrupt [of _ "([], 100)" _ _ _ c]] assms(1)
    by (simp add: defs add_scancode_def wake_registered_def wake_task_def replicate_append_same)
  have 4: "?R (?y\<lparr> kb_pc := Some (Taking c), accepted := cs @ [c],
      kb := \<lparr> SCANCODE_QUEUE = Some ([], 100), SCANCODE_WAKER = None, exec_queue = (replicate (Suc k) tid, 100) \<rparr> \<rparr>)"
    using kb_reach.step [OF 3 kb_step.proceed [of _ SecondPop]] by (simp add: defs)
  show ?thesis using kb_reach.step [OF 4 kb_step.ready [of _ "Taking c"]] by (simp add: defs)
qed

lemma piled_reach:
  "k \<le> 100 \<Longrightarrow> kb_reach list_queue list_queue cell_waker tid (piled tid 0 []) (piled tid k (replicate k c))"
proof (induction k)
  case (Suc k)
  then show ?case using piled_grows [of k tid _ "replicate k c" c] by (simp add: replicate_append_same)
qed (simp add: kb_reach.init)


end
