(* ===== verification/Rust_Fmt.thy ===== *)
theory Rust_Fmt
  imports Kernel_Prelude
begin

section \<open>Formatted numbers\<close>

text \<open>
  The part of \<open>core::fmt\<close> the kernel prints with: decimal numbers, hexadecimal numbers with prefix
  and zero padding (\<open>{:#x}\<close>, \<open>{:#010x}\<close>, \<open>{:#018x}\<close>) and byte slices (\<open>{:02x?}\<close>). Reading the
  digits back gives the number, and the padded formats of a word have a fixed width.
\<close>

fun digits :: "nat \<Rightarrow> nat \<Rightarrow> nat list" where
  "digits b n = (if b < 2 \<or> n < b then [n] else digits b (n div b) @ [n mod b])"

declare digits.simps [simp del]

definition digit_char :: "nat \<Rightarrow> char" where
  "digit_char d = ''0123456789abcdef'' ! d"

definition char_digit :: "char \<Rightarrow> nat" where
  "char_digit c = (if of_char c < (58::nat) then of_char c - 48 else of_char c - 87)"

text \<open>\<open>format!("{}", n)\<close> and \<open>format!("{:x}", n)\<close>.\<close>

definition fmt_dec :: "nat \<Rightarrow> string" where
  "fmt_dec n = map digit_char (digits 10 n)"

definition fmt_hex :: "nat \<Rightarrow> string" where
  "fmt_hex n = map digit_char (digits 16 n)"

definition pad_zero :: "nat \<Rightarrow> string \<Rightarrow> string" where
  "pad_zero w s = replicate (w - length s) (CHR ''0'') @ s"

text \<open>\<open>{:#0wx}\<close>: the width counts the prefix.\<close>

definition fmt_hex_alt :: "nat \<Rightarrow> nat \<Rightarrow> string" where
  "fmt_hex_alt w n = ''0x'' @ pad_zero (w - 2) (fmt_hex n)"

fun join :: "string \<Rightarrow> string list \<Rightarrow> string" where
  "join sep [] = []"
| "join sep [s] = s"
| "join sep (s # t # ss) = s @ sep @ join sep (t # ss)"

definition fmt_bytes :: "u8 list \<Rightarrow> string" where
  "fmt_bytes bs = ''['' @ join '', '' (map (\<lambda>b. pad_zero 2 (fmt_hex (unat b))) bs) @ '']''"

definition newline :: string where "newline = [char_of (10::nat)]"

definition read_digits :: "nat \<Rightarrow> nat list \<Rightarrow> nat" where
  "read_digits b ds = foldl (\<lambda>acc d. acc * b + d) 0 ds"

definition read_hex :: "string \<Rightarrow> nat" where
  "read_hex s = read_digits 16 (map char_digit s)"

definition read_dec :: "string \<Rightarrow> nat" where
  "read_dec s = read_digits 10 (map char_digit s)"

subsection \<open>Reading back\<close>

lemma digits_small: "n < b \<Longrightarrow> digits b n = [n]"
  by (simp add: digits.simps)

lemma digits_lt: "2 \<le> b \<Longrightarrow> d \<in> set (digits b n) \<Longrightarrow> d < b"
proof (induction b n rule: digits.induct)
  case (1 b n)
  then show ?case by (cases "n < b") (auto simp: digits.simps [of b n])
qed

lemma read_digits_append [simp]: "read_digits b (ds @ [d]) = read_digits b ds * b + d"
  by (simp add: read_digits_def)

lemma read_digits_zeros: "read_digits b (replicate k 0 @ ds) = read_digits b ds"
  by (induction k) (simp_all add: read_digits_def)

lemma read_digits_digits: "2 \<le> b \<Longrightarrow> read_digits b (digits b n) = n"
proof (induction b n rule: digits.induct)
  case (1 b n)
  then show ?case
    by (cases "n < b") (simp add: digits_small read_digits_def, simp add: digits.simps [of b n])
qed

lemma length_digits: "\<lbrakk>2 \<le> b; n < b ^ k; 0 < k\<rbrakk> \<Longrightarrow> length (digits b n) \<le> k"
proof (induction b n arbitrary: k rule: digits.induct)
  case (1 b n)
  show ?case
  proof (cases "n < b")
    case False
    then have "k \<noteq> 1" using "1.prems" by auto
    then obtain j where j: "k = Suc j" "0 < j" using "1.prems"(3) by (cases k) auto
    then have "n div b < b ^ j" using "1.prems" by (simp add: less_mult_imp_div_less mult.commute)
    then show ?thesis using 1 False j by (simp add: digits.simps [of b n])
  qed (use 1 in \<open>simp add: digits_small\<close>)
qed

lemma char_digit_char: "d < 16 \<Longrightarrow> char_digit (digit_char d) = d"
proof -
  assume "d < 16"
  moreover have "list_all (\<lambda>d. char_digit (digit_char d) = d) [0..<16]" by code_simp
  ultimately show ?thesis by (simp add: list_all_iff)
qed

lemma map_char_digit: "(\<And>d. d \<in> set ds \<Longrightarrow> d < 16) \<Longrightarrow> map (char_digit \<circ> digit_char) ds = ds"
  by (induction ds) (simp_all add: char_digit_char)

lemma read_fmt_dec: "read_dec (fmt_dec n) = n"
proof -
  have "map (char_digit \<circ> digit_char) (digits 10 n) = digits 10 n"
    using digits_lt [of 10 _ n] by (intro map_char_digit) fastforce
  then show ?thesis by (simp add: read_dec_def fmt_dec_def read_digits_digits)
qed

lemma read_fmt_hex_alt: "read_hex (drop 2 (fmt_hex_alt w n)) = n"
proof -
  have "map char_digit (fmt_hex n) = digits 16 n"
    using digits_lt [of 16 _ n] by (simp add: fmt_hex_def map_char_digit)
  moreover have "char_digit (CHR ''0'') = 0" by (simp add: char_digit_def)
  ultimately show ?thesis
    by (simp add: read_hex_def fmt_hex_alt_def pad_zero_def read_digits_zeros read_digits_digits)
qed

lemma length_fmt_hex_alt: "\<lbrakk>n < 16 ^ (w - 2); 2 < w\<rbrakk> \<Longrightarrow> length (fmt_hex_alt w n) = w"
  using length_digits [of 16 n "w - 2"] by (simp add: fmt_hex_alt_def pad_zero_def fmt_hex_def)

end
