(* ===== verification/Serial.thy ===== *)
theory Serial
  imports Rust_Fmt
begin

section \<open>Serial output (\<open>src/src/serial.rs\<close>)\<close>

text \<open>
  All output of the kernel goes to the first serial port: the macros \<open>serial_print\<close> and \<open>print\<close>
  both expand to \<open>serial::_print\<close>. The port is \<open>uart_16550::SerialPort\<close>, a package outside the
  repository: the record \<open>uart\<close>, with its documented behaviour as the locale \<open>uart_spec\<close>.
  \<open>SERIAL1\<close> is a lazy static, \<open>None\<close> before its first use. Formatted arguments are the pieces the
  core library passes to \<open>write_str\<close>.

  A computation on a state keeps the state also when it panics, since a panic handler runs in it.
\<close>

type_synonym ('s, 'a) act = "'s \<Rightarrow> 'a outcome \<times> 's"

definition act_return :: "'a \<Rightarrow> ('s, 'a) act" where
  "act_return x s = (Ret x, s)"

definition act_bind :: "('s, 'a) act \<Rightarrow> ('a \<Rightarrow> ('s, 'b) act) \<Rightarrow> ('s, 'b) act" where
  "act_bind m f s = (case m s of (Ret x, s') \<Rightarrow> f x s' | (Panic, s') \<Rightarrow> (Panic, s'))"

definition act_out :: "'a outcome \<Rightarrow> ('s, 'a) act" where
  "act_out r s = (r, s)"

definition act_modify :: "('s \<Rightarrow> 's) \<Rightarrow> ('s, unit) act" where
  "act_modify f s = (Ret (), f s)"

lemma act_simps [io_simps]:
  "act_return x s = (Ret x, s)"
  "act_out r s = (r, s)"
  "act_modify g s = (Ret (), g s)"
  by (simp_all add: act_return_def act_out_def act_modify_def)

lemma act_bind_step:
  "m s = (Ret x, s') \<Longrightarrow> act_bind m f s = f x s'"
  "m s = (Panic, s') \<Longrightarrow> act_bind m f s = (Panic, s')"
  by (simp_all add: act_bind_def)

lemma act_bind_simps [io_simps]:
  "act_bind (act_return x) f s = f x s"
  "act_bind (act_out (Ret x)) f s = f x s"
  "act_bind (act_out Panic) f s = (Panic, s)"
  "act_bind (act_modify g) h s = h () (g s)"
  by (simp_all add: act_bind_def act_simps)

subsection \<open>The port\<close>

record 'u uart =
  uart_new :: "u16 \<Rightarrow> 'u"
  uart_init :: "'u \<Rightarrow> 'u"
  uart_write_str :: "string \<Rightarrow> 'u \<Rightarrow> (unit, unit) result \<times> 'u"

record 'u console =
  SERIAL1 :: "'u option"
  interrupt_flag :: bool

definition SERIAL1_init :: "'u uart \<Rightarrow> 'u" where
  "SERIAL1_init U = uart_init U (uart_new U 0x3F8)"

definition SERIAL1_get :: "'u uart \<Rightarrow> ('u, 'z) console_scheme \<Rightarrow> 'u" where
  "SERIAL1_get U c = (case SERIAL1 c of Some u \<Rightarrow> u | None \<Rightarrow> SERIAL1_init U)"

fun write_fmt :: "'u uart \<Rightarrow> string list \<Rightarrow> 'u \<Rightarrow> (unit, unit) result \<times> 'u" where
  "write_fmt U [] u = (Ok (), u)"
| "write_fmt U (s # ss) u =
     (case uart_write_str U s u of
        (Ok _, u') \<Rightarrow> write_fmt U ss u'
      | (Err e, u') \<Rightarrow> (Err e, u'))"

text \<open>\<open>_print\<close> runs with interrupts disabled; a panic in it leaves them so.\<close>

definition serial_print :: "'u uart \<Rightarrow> string list \<Rightarrow> (('u, 'z) console_scheme, unit) act" where
  "serial_print U args c =
     (let saved = interrupt_flag c;
          c1 = c\<lparr> interrupt_flag := False \<rparr> in
      case write_fmt U args (SERIAL1_get U c1) of
        (Ok _, u) \<Rightarrow> (Ret (), c1\<lparr> SERIAL1 := Some u, interrupt_flag := saved \<rparr>)
      | (Err _, u) \<Rightarrow> (Panic, c1\<lparr> SERIAL1 := Some u \<rparr>))"

definition serial_println :: "'u uart \<Rightarrow> string list \<Rightarrow> (('u, 'z) console_scheme, unit) act" where
  "serial_println U args = serial_print U (args @ [newline])"

text \<open>The macros \<open>print\<close> and \<open>println\<close> of \<open>src/src/vga_buffer.rs\<close>.\<close>

definition print :: "'u uart \<Rightarrow> string list \<Rightarrow> (('u, 'z) console_scheme, unit) act" where
  "print U args = serial_print U args"

definition println :: "'u uart \<Rightarrow> string list \<Rightarrow> (('u, 'z) console_scheme, unit) act" where
  "println U args = print U (args @ [newline])"

subsection \<open>What is sent\<close>

text \<open>\<open>sent\<close> is what has been written to a port that is ready.\<close>

locale uart_spec =
  fixes U :: "'u uart" and uart_ready :: "'u \<Rightarrow> bool" and sent :: "'u \<Rightarrow> string"
  assumes init_law: "uart_ready (uart_init U (uart_new U port)) \<and> sent (uart_init U (uart_new U port)) = []"
    and write_law: "uart_ready u \<Longrightarrow>
      \<exists>u'. uart_write_str U s u = (Ok (), u') \<and> uart_ready u' \<and> sent u' = sent u @ s"

definition log_port :: "(bool \<times> string) uart" where
  "log_port = \<lparr> uart_new = (\<lambda>_. (False, [])), uart_init = (\<lambda>u. (True, snd u)),
     uart_write_str = (\<lambda>s u. if fst u then (Ok (), (True, snd u @ s)) else (Err (), u)) \<rparr>"

interpretation log_uart: uart_spec log_port fst snd
  by unfold_locales (simp_all add: log_port_def)

definition console_ok :: "('u \<Rightarrow> bool) \<Rightarrow> ('u, 'z) console_scheme \<Rightarrow> bool" where
  "console_ok uart_ready c \<longleftrightarrow> (case SERIAL1 c of Some u \<Rightarrow> uart_ready u | None \<Rightarrow> True)"

definition printed :: "('u \<Rightarrow> string) \<Rightarrow> ('u, 'z) console_scheme \<Rightarrow> string" where
  "printed sent c = (case SERIAL1 c of Some u \<Rightarrow> sent u | None \<Rightarrow> [])"

lemma console_update [simp]:
  "console_ok r (c\<lparr> SERIAL1 := Some u \<rparr>) = r u" "printed s (c\<lparr> SERIAL1 := Some u \<rparr>) = s u"
  "console_ok r (c\<lparr> interrupt_flag := b \<rparr>) = console_ok r c" "printed s (c\<lparr> interrupt_flag := b \<rparr>) = printed s c"
  by (simp_all add: console_ok_def printed_def)

context uart_spec
begin

lemma write_fmt_run:
  "uart_ready u \<Longrightarrow> \<exists>u'. write_fmt U args u = (Ok (), u') \<and> uart_ready u' \<and> sent u' = sent u @ concat args"
proof (induction args arbitrary: u)
  case (Cons s ss)
  obtain u1 where "uart_write_str U s u = (Ok (), u1)" "uart_ready u1" "sent u1 = sent u @ s"
    using write_law [OF Cons.prems] by blast
  then show ?case using Cons.IH [of u1] by auto
qed simp

lemma SERIAL1_get_ready:
  "console_ok uart_ready c \<Longrightarrow> uart_ready (SERIAL1_get U c) \<and> sent (SERIAL1_get U c) = printed sent c"
  using init_law by (auto simp: console_ok_def printed_def SERIAL1_get_def SERIAL1_init_def split: option.splits)

text \<open>Printing changes nothing but the port, and the port by what is printed.\<close>

lemma serial_print_run:
  assumes "console_ok uart_ready c"
  shows "\<exists>u. serial_print U args c = (Ret (), c\<lparr> SERIAL1 := Some u \<rparr>) \<and> uart_ready u \<and>
    sent u = printed sent c @ concat args"
proof -
  let ?c = "c\<lparr> interrupt_flag := False \<rparr>"
  have ok: "console_ok uart_ready ?c" using assms by simp
  obtain u where u: "write_fmt U args (SERIAL1_get U ?c) = (Ok (), u)" "uart_ready u"
    "sent u = printed sent c @ concat args"
    using write_fmt_run [of "SERIAL1_get U ?c" args] SERIAL1_get_ready [OF ok] by auto
  have "(c\<lparr> interrupt_flag := False, SERIAL1 := Some u, interrupt_flag := interrupt_flag c \<rparr>) = c\<lparr> SERIAL1 := Some u \<rparr>"
    by simp
  then have "serial_print U args c = (Ret (), c\<lparr> SERIAL1 := Some u \<rparr>)"
    using u(1) by (simp add: serial_print_def Let_def)
  then show ?thesis using u(2,3) by blast
qed

lemmas print_runs = serial_print_run
  serial_print_run [of _ "args @ [newline]" for args, folded serial_println_def]
  serial_print_run [folded print_def]
  serial_print_run [of _ "args @ [newline]" for args, folded print_def println_def]

end

end
