(* ===== verification/Gdt.thy ===== *)
theory Gdt
  imports Serial
begin

section \<open>Descriptor tables (\<open>src/src/gdt.rs\<close>)\<close>

text \<open>
  The task state segment with the stack for double faults, the global descriptor table and loading
  them. The tables are types of the package \<open>x86_64\<close>, outside the repository: the record
  \<open>gdt_ops\<close>, with what their documentation promises in the locale \<open>gdt_spec\<close>. The address of the
  static \<open>STACK\<close> is chosen by the linker and is an argument. The processor's registers are fields
  of the machine; a selector in them is looked up in the loaded table.
\<close>

definition DOUBLE_FAULT_IST_INDEX :: u16 where "DOUBLE_FAULT_IST_INDEX = 0"

definition STACK_SIZE :: usize where "STACK_SIZE = 4096 * 5"

record TaskStateSegment =
  interrupt_stack_table :: "u64 list"

record ('g, 'd, 's) gdt_ops =
  tss_new :: TaskStateSegment
  virt_addr_add :: "u64 \<Rightarrow> u64 \<Rightarrow> u64 outcome"
  gdt_new :: 'g
  gdt_add_entry :: "'d \<Rightarrow> 'g \<Rightarrow> ('s \<times> 'g) outcome"
  kernel_code_segment :: 'd
  tss_segment :: "TaskStateSegment \<Rightarrow> 'd"

record 's Selectors =
  code_selector :: 's
  tss_selector :: 's

record ('u, 'g, 's) segmented = "'u console" +
  gdtr :: "'g option"
  cs_register :: "'s option"
  task_register :: "'s option"

definition TSS :: "('g, 'd, 's) gdt_ops \<Rightarrow> u64 \<Rightarrow> TaskStateSegment outcome" where
  "TSS G stack_start =
     bind_out (virt_addr_add G stack_start STACK_SIZE) (\<lambda>stack_end.
     let tss = tss_new G; i = unat DOUBLE_FAULT_IST_INDEX in
     if i < length (interrupt_stack_table tss)
     then Ret (tss\<lparr> interrupt_stack_table := (interrupt_stack_table tss)[i := stack_end] \<rparr>)
     else Panic)"

definition GDT :: "('g, 'd, 's) gdt_ops \<Rightarrow> u64 \<Rightarrow> ('g \<times> 's Selectors) outcome" where
  "GDT G stack_start =
     bind_out (gdt_add_entry G (kernel_code_segment G) (gdt_new G)) (\<lambda>(code, gdt).
     bind_out (TSS G stack_start) (\<lambda>tss.
     bind_out (gdt_add_entry G (tss_segment G tss) gdt) (\<lambda>(t, gdt).
     Ret (gdt, \<lparr> code_selector = code, tss_selector = t \<rparr>))))"

definition gdt_init :: "('g, 'd, 's) gdt_ops \<Rightarrow> u64 \<Rightarrow> (('u, 'g, 's, 'z) segmented_scheme, unit) act" where
  "gdt_init G stack_start =
     act_bind (act_out (GDT G stack_start)) (\<lambda>(gdt, sel).
     act_bind (act_modify (\<lambda>m. m\<lparr> gdtr := Some gdt \<rparr>)) (\<lambda>_.
     act_bind (act_modify (\<lambda>m. m\<lparr> cs_register := Some (code_selector sel) \<rparr>)) (\<lambda>_.
     act_modify (\<lambda>m. m\<lparr> task_register := Some (tss_selector sel) \<rparr>))))"

subsection \<open>What the package promises\<close>

text \<open>
  \<open>gdt_lookup g s\<close> is the descriptor a selector names, \<open>gdt_free\<close> how many of the eight slots are
  left and \<open>slots\<close> how many a descriptor takes. \<open>tss_of\<close> is what the processor finds through a
  descriptor of a task state segment. \<open>canonical\<close> are the addresses \<open>VirtAddr\<close> accepts.
\<close>

locale gdt_spec =
  fixes G :: "('g, 'd, 's) gdt_ops"
    and gdt_lookup :: "'g \<Rightarrow> 's \<Rightarrow> 'd option" and gdt_free :: "'g \<Rightarrow> nat" and slots :: "'d \<Rightarrow> nat"
    and tss_of :: "'d \<Rightarrow> TaskStateSegment option" and canonical :: "u64 \<Rightarrow> bool"
  assumes tss_new_law: "interrupt_stack_table (tss_new G) = replicate 7 0"
    and virt_add_law: "\<lbrakk>unat a + unat b < 2 ^ 64; canonical (a + b)\<rbrakk> \<Longrightarrow> virt_addr_add G a b = Ret (a + b)"
    and gdt_new_law: "gdt_free (gdt_new G) = 7"
    and add_entry_law: "slots d \<le> gdt_free g \<Longrightarrow> \<exists>s g'. gdt_add_entry G d g = Ret (s, g') \<and>
      gdt_lookup g s = None \<and> gdt_lookup g' = (gdt_lookup g)(s \<mapsto> d) \<and> gdt_free g' = gdt_free g - slots d"
    and slots_law: "slots (kernel_code_segment G) = 1" "slots (tss_segment G t) = 2"
    and tss_of_law: "tss_of (tss_segment G t) = Some t"

text \<open>Descriptors as a list, with the position as the selector.\<close>

datatype descriptor = CodeSegment | TssSegment TaskStateSegment | TssHigh

definition list_gdt :: "(descriptor list, descriptor, nat) gdt_ops" where
  "list_gdt = \<lparr> tss_new = \<lparr> interrupt_stack_table = replicate 7 0 \<rparr>, virt_addr_add = add_ck, gdt_new = [],
     gdt_add_entry = (\<lambda>d g. case d of
         TssSegment t \<Rightarrow> if length g \<le> 5 then Ret (length g, g @ [d, TssHigh]) else Panic
       | _ \<Rightarrow> if length g \<le> 6 then Ret (length g, g @ [d]) else Panic),
     kernel_code_segment = CodeSegment, tss_segment = TssSegment \<rparr>"

text \<open>The upper half of a task descriptor is no descriptor of its own.\<close>

definition list_gdt_lookup :: "descriptor list \<Rightarrow> nat \<Rightarrow> descriptor option" where
  "list_gdt_lookup g i = (if i < length g \<and> g ! i \<noteq> TssHigh then Some (g ! i) else None)"

fun descriptor_tss :: "descriptor \<Rightarrow> TaskStateSegment option" where
  "descriptor_tss (TssSegment t) = Some t"
| "descriptor_tss _ = None"

fun descriptor_slots :: "descriptor \<Rightarrow> nat" where
  "descriptor_slots (TssSegment t) = 2"
| "descriptor_slots CodeSegment = 1"
| "descriptor_slots TssHigh = 8"

interpretation list_gdts: gdt_spec list_gdt list_gdt_lookup "\<lambda>g. 7 - length g" descriptor_slots descriptor_tss "\<lambda>_. True"
proof
  show "\<exists>s g'. gdt_add_entry list_gdt d g = Ret (s, g') \<and> list_gdt_lookup g s = None \<and>
      list_gdt_lookup g' = (list_gdt_lookup g)(s \<mapsto> d) \<and> 7 - length g' = 7 - length g - descriptor_slots d"
    if "descriptor_slots d \<le> 7 - length g" for d g
    using that by (cases d) (auto simp: list_gdt_def list_gdt_lookup_def nth_append fun_eq_iff less_Suc_eq)
qed (auto simp: list_gdt_def add_ck_def)

context gdt_spec
begin

text \<open>The first entry of the stack table is the end of the stack; the other stacks are unset.\<close>

lemma TSS_run:
  assumes "unat stack_start + unat STACK_SIZE < 2 ^ 64" "canonical (stack_start + STACK_SIZE)"
  shows "TSS G stack_start = Ret ((tss_new G)\<lparr> interrupt_stack_table := (stack_start + STACK_SIZE) # replicate 6 0 \<rparr>)"
  using virt_add_law [OF assms]
  by (simp add: TSS_def tss_new_law DOUBLE_FAULT_IST_INDEX_def Let_def numeral_eq_Suc)

lemma gdt_init_run:
  assumes "unat stack_start + unat STACK_SIZE < 2 ^ 64" "canonical (stack_start + STACK_SIZE)"
  shows "\<exists>g code t tss. gdt_init G stack_start m =
      (Ret (), m\<lparr> gdtr := Some g, cs_register := Some code, task_register := Some t \<rparr>) \<and>
    gdt_lookup g code = Some (kernel_code_segment G) \<and> gdt_lookup g t = Some (tss_segment G tss) \<and>
    interrupt_stack_table tss = (stack_start + STACK_SIZE) # replicate 6 0"
proof -
  let ?tss = "(tss_new G)\<lparr> interrupt_stack_table := (stack_start + STACK_SIZE) # replicate 6 0 \<rparr>"
  obtain code g1 where c: "gdt_add_entry G (kernel_code_segment G) (gdt_new G) = Ret (code, g1)"
    "gdt_lookup g1 = (gdt_lookup (gdt_new G))(code \<mapsto> kernel_code_segment G)" "gdt_free g1 = 6"
    using add_entry_law [of "kernel_code_segment G" "gdt_new G"] by (auto simp: slots_law gdt_new_law)
  obtain t g2 where t: "gdt_add_entry G (tss_segment G ?tss) g1 = Ret (t, g2)" "gdt_lookup g1 t = None"
    "gdt_lookup g2 = (gdt_lookup g1)(t \<mapsto> tss_segment G ?tss)"
    using add_entry_law [of "tss_segment G ?tss" g1] c(3) by (auto simp: slots_law)
  have "code \<noteq> t" using c(2) t(2) by auto
  then show ?thesis
    using c t TSS_run [OF assms]
    by (intro exI [of _ g2] exI [of _ code] exI [of _ t] exI [of _ ?tss])
      (simp add: gdt_init_def GDT_def io_simps)
qed

end

end
