(* ===== verification/Interrupts.thy ===== *)
theory Interrupts
  imports Keyboard Gdt
begin

section \<open>Interrupts and printing (\<open>src/src/interrupts.rs\<close>, \<open>src/src/lib.rs\<close>)\<close>

text \<open>
  The interrupt table, the handlers, the start-up of the processor's tables in \<open>init\<close>, which stack
  a handler runs on, and the interplay of locks with handlers that take them. The interrupt
  controllers (\<open>pic8259\<close>), the keyboard's data port and the debug output of an
  \<open>InterruptStackFrame\<close> are parameters.
\<close>

definition PIC_1_OFFSET :: u8 where "PIC_1_OFFSET = 32"
definition PIC_2_OFFSET :: u8 where "PIC_2_OFFSET = PIC_1_OFFSET + 8"

datatype InterruptIndex = Timer | Keyboard

fun as_u8 :: "InterruptIndex \<Rightarrow> u8" where
  "as_u8 Timer = PIC_1_OFFSET"
| "as_u8 Keyboard = PIC_1_OFFSET + 1"

definition as_usize :: "InterruptIndex \<Rightarrow> usize" where
  "as_usize i = ucast (as_u8 i)"

datatype handler = breakpoint_handler | double_fault_handler | page_fault_handler
  | timer_interrupt_handler | keyboard_interrupt_handler

text \<open>A handler and, for the double fault, the entry of the stack table. The named fields of the
  table are the processor's vectors 3, 8 and 14.\<close>

type_synonym 'h idt = "usize \<Rightarrow> ('h \<times> u16 option) option"

definition IDT :: "handler idt" where
  "IDT = Map.empty
     (3 \<mapsto> (breakpoint_handler, None),
      8 \<mapsto> (double_fault_handler, Some DOUBLE_FAULT_IST_INDEX),
      as_usize Timer \<mapsto> (timer_interrupt_handler, None),
      as_usize Keyboard \<mapsto> (keyboard_interrupt_handler, None),
      14 \<mapsto> (page_fault_handler, None))"

subsection \<open>Start-up\<close>

record ('u, 'g, 's, 'h, 'p) machine = "('u, 'g, 's) segmented" +
  idtr :: "'h idt option"
  PICS :: 'p

record 'p pic_ops =
  pics_new :: "u8 \<Rightarrow> u8 \<Rightarrow> 'p"
  pics_initialize :: "'p \<Rightarrow> 'p"
  notify_end_of_interrupt :: "u8 \<Rightarrow> 'p \<Rightarrow> 'p"

definition PICS_init :: "'p pic_ops \<Rightarrow> 'p" where
  "PICS_init C = pics_new C PIC_1_OFFSET PIC_2_OFFSET"

definition init_idt :: "(('u, 'g, 's, handler, 'p, 'z) machine_scheme, unit) act" where
  "init_idt = act_modify (\<lambda>m. m\<lparr> idtr := Some IDT \<rparr>)"

definition lib_init ::
    "('g, 'd, 's) gdt_ops \<Rightarrow> 'p pic_ops \<Rightarrow> u64 \<Rightarrow> (('u, 'g, 's, handler, 'p, 'z) machine_scheme, unit) act" where
  "lib_init G C stack_start =
     act_bind (gdt_init G stack_start) (\<lambda>_.
     act_bind init_idt (\<lambda>_.
     act_bind (act_modify (\<lambda>m. m\<lparr> PICS := pics_initialize C (PICS m) \<rparr>)) (\<lambda>_.
     act_modify (\<lambda>m. m\<lparr> interrupt_flag := True \<rparr>))))"

subsection \<open>The handlers\<close>

text \<open>Two handlers never return: they stop in the state given.\<close>

datatype 'm handled = Resumed 'm | Stopped 'm | Panicked 'm

definition returning :: "unit outcome \<times> 'm \<Rightarrow> 'm handled" where
  "returning r = (case r of (Ret _, m) \<Rightarrow> Resumed m | (Panic, m) \<Rightarrow> Panicked m)"

definition diverging :: "unit outcome \<times> 'm \<Rightarrow> 'm handled" where
  "diverging r = (case r of (Ret _, m) \<Rightarrow> Stopped m | (Panic, m) \<Rightarrow> Panicked m)"

text \<open>\<open>fmt\<close> is the debug output of the stack frame; \<open>cr2\<close> and \<open>code\<close> are printed the same way.\<close>

definition breakpoint_exception ::
    "'u uart \<Rightarrow> ('frame \<Rightarrow> string) \<Rightarrow> 'frame \<Rightarrow> ('u, 'z) console_scheme \<Rightarrow> ('u, 'z) console_scheme handled" where
  "breakpoint_exception U fmt stack_frame m =
     returning (println U [''EXCEPTION: BREAKPOINT'', newline, '' '', fmt stack_frame] m)"

definition double_fault_exception ::
    "'u uart \<Rightarrow> ('frame \<Rightarrow> string) \<Rightarrow> 'frame \<Rightarrow> u64 \<Rightarrow> ('u, 'z) console_scheme \<Rightarrow> ('u, 'z) console_scheme handled" where
  "double_fault_exception U fmt stack_frame error_code m =
     diverging (println U [''EXCEPTION: DOUBLE FAULT'', newline, fmt stack_frame] m)"

definition page_fault_exception ::
    "'u uart \<Rightarrow> ('frame \<Rightarrow> string) \<Rightarrow> ('a \<Rightarrow> string) \<Rightarrow> ('c \<Rightarrow> string) \<Rightarrow> 'frame \<Rightarrow> 'a \<Rightarrow> 'c
       \<Rightarrow> ('u, 'z) console_scheme \<Rightarrow> ('u, 'z) console_scheme handled" where
  "page_fault_exception U fmt fmt_addr fmt_code stack_frame cr2 error_code m =
     diverging
       (act_bind (println U [''EXCEPTION: PAGE FAULT'']) (\<lambda>_.
        act_bind (println U [''Accessed Address: '', fmt_addr cr2]) (\<lambda>_.
        act_bind (println U [''Error Code: '', fmt_code error_code]) (\<lambda>_.
        println U [fmt stack_frame]))) m)"

definition timer_interrupt :: "'p pic_ops \<Rightarrow> 'p \<Rightarrow> 'p" where
  "timer_interrupt C pics = notify_end_of_interrupt C (as_u8 Timer) pics"

definition keyboard_interrupt ::
    "(u8, 'q) array_queue \<Rightarrow> (TaskId, 'tq) array_queue \<Rightarrow> 'c atomic_waker \<Rightarrow> 'p pic_ops \<Rightarrow> u8
       \<Rightarrow> ('q, 'tq, 'c) kbd \<Rightarrow> 'p \<Rightarrow> (('q, 'tq, 'c) kbd \<times> 'p) outcome" where
  "keyboard_interrupt Q TQ A C scancode s pics =
     bind_out (add_scancode Q TQ A scancode s) (\<lambda>s'. Ret (s', notify_end_of_interrupt C (as_u8 Keyboard) pics))"

subsection \<open>Which stack a handler runs on\<close>

text \<open>
  The processor's part: it finds the task state segment through the loaded tables, takes the stack
  the table entry names or else the current one, and pushes the frame there. If the entry is
  missing or the stack cannot be written (\<open>usable\<close>) it raises a double fault, and if that cannot
  be delivered either the machine resets.
\<close>

datatype 'h delivery = Runs 'h u64 | TripleFault

definition loaded_tss ::
    "('g \<Rightarrow> 's \<Rightarrow> 'd option) \<Rightarrow> ('d \<Rightarrow> TaskStateSegment option) \<Rightarrow> ('u, 'g, 's, 'z) segmented_scheme
       \<Rightarrow> TaskStateSegment option" where
  "loaded_tss lookup tss_of m =
     (case (gdtr m, task_register m) of
        (Some g, Some s) \<Rightarrow> Option.bind (lookup g s) tss_of
      | _ \<Rightarrow> None)"

definition entry_stack ::
    "('g \<Rightarrow> 's \<Rightarrow> 'd option) \<Rightarrow> ('d \<Rightarrow> TaskStateSegment option) \<Rightarrow> ('u, 'g, 's, 'z) segmented_scheme
       \<Rightarrow> u64 \<Rightarrow> u16 option \<Rightarrow> u64 option" where
  "entry_stack lookup tss_of m rsp ist =
     (case ist of
        None \<Rightarrow> Some rsp
      | Some i \<Rightarrow>
          Option.bind (loaded_tss lookup tss_of m) (\<lambda>tss.
          if unat i < length (interrupt_stack_table tss) then Some (interrupt_stack_table tss ! unat i) else None))"

definition enter_handler ::
    "('g \<Rightarrow> 's \<Rightarrow> 'd option) \<Rightarrow> ('d \<Rightarrow> TaskStateSegment option) \<Rightarrow> (u64 \<Rightarrow> bool)
       \<Rightarrow> ('u, 'g, 's, 'h, 'p, 'z) machine_scheme \<Rightarrow> u64 \<Rightarrow> usize \<Rightarrow> ('h \<times> u64) option" where
  "enter_handler lookup tss_of usable m rsp vector =
     Option.bind (idtr m) (\<lambda>idt.
     Option.bind (idt vector) (\<lambda>(h, ist).
     Option.bind (entry_stack lookup tss_of m rsp ist) (\<lambda>sp. if usable sp then Some (h, sp) else None)))"

definition deliver ::
    "('g \<Rightarrow> 's \<Rightarrow> 'd option) \<Rightarrow> ('d \<Rightarrow> TaskStateSegment option) \<Rightarrow> (u64 \<Rightarrow> bool)
       \<Rightarrow> ('u, 'g, 's, 'h, 'p, 'z) machine_scheme \<Rightarrow> u64 \<Rightarrow> usize \<Rightarrow> 'h delivery" where
  "deliver lookup tss_of usable m rsp vector =
     (case enter_handler lookup tss_of usable m rsp vector of
        Some (h, sp) \<Rightarrow> Runs h sp
      | None \<Rightarrow>
          (case enter_handler lookup tss_of usable m rsp 8 of
             Some (h, sp) \<Rightarrow> Runs h sp
           | None \<Rightarrow> TripleFault))"

text \<open>The hardware interrupts lie above the processor's exceptions, and each has its own handler.\<close>

lemma IDT_entries:
  "IDT (as_usize Timer) = Some (timer_interrupt_handler, None)"
  "IDT (as_usize Keyboard) = Some (keyboard_interrupt_handler, None)"
  "IDT 3 = Some (breakpoint_handler, None)" "IDT 8 = Some (double_fault_handler, Some 0)"
  "IDT 14 = Some (page_fault_handler, None)" "32 \<le> as_usize i"
  by (cases i; simp add: IDT_def as_usize_def PIC_1_OFFSET_def DOUBLE_FAULT_IST_INDEX_def)+

lemma IDT_stack: "IDT v = Some (h, Some i) \<Longrightarrow> v = 8 \<and> h = double_fault_handler \<and> i = 0"
  by (auto simp: IDT_def DOUBLE_FAULT_IST_INDEX_def split: if_splits)

subsection \<open>Locks and handlers\<close>

text \<open>
  The processor, as far as locks are concerned: where the kernel is in \<open>_print\<close> or in a call of the
  global allocator, and what a handler does that interrupted it. \<open>_print\<close> takes the lock of the
  serial port with interrupts disabled; \<open>Locked::lock\<close> of the allocator leaves them as they are. A
  handler runs with interrupts disabled; it may print, it takes the lock of the interrupt
  controllers to acknowledge the interrupt, and it never allocates. Returning from it restores the
  flag. The page-fault handler does not return. A breakpoint or a fault may come at any instruction
  outside the part of \<open>_print\<close> that holds the lock.
\<close>

datatype kernel_pc = Outside | Masked | Printing | Unlocked | Allocating
datatype handler_pc = Entered | Waiting | Writing | Acknowledging | Leaving | Halted

record cpu =
  gdt_loaded :: bool
  idt_loaded :: bool
  pics_ready :: bool
  interrupts_enabled :: bool
  saved_flag :: bool
  resume_flag :: bool
  serial_locked :: bool
  pics_locked :: bool
  heap_locked :: bool
  kernel_pc :: kernel_pc
  handler_state :: "handler_pc option"

definition cpu_reset :: cpu where
  "cpu_reset = \<lparr> gdt_loaded = False, idt_loaded = False, pics_ready = False, interrupts_enabled = False,
     saved_flag = False, resume_flag = False, serial_locked = False, pics_locked = False, heap_locked = False,
     kernel_pc = Outside, handler_state = None \<rparr>"

definition kernel_init :: "cpu \<Rightarrow> cpu" where
  "kernel_init c =
     (let c1 = c\<lparr> gdt_loaded := True \<rparr>;
          c2 = c1\<lparr> idt_loaded := True \<rparr>;
          c3 = c2\<lparr> pics_ready := True \<rparr> in
      c3\<lparr> interrupts_enabled := True \<rparr>)"

inductive cpu_step :: "cpu \<Rightarrow> cpu \<Rightarrow> bool" where
  init: "\<lbrakk>handler_state c = None; kernel_pc c = Outside; \<not> interrupts_enabled c\<rbrakk> \<Longrightarrow> cpu_step c (kernel_init c)"
| mask: "\<lbrakk>handler_state c = None; kernel_pc c = Outside\<rbrakk> \<Longrightarrow>
    cpu_step c (c\<lparr> kernel_pc := Masked, saved_flag := interrupts_enabled c, interrupts_enabled := False \<rparr>)"
| lock: "\<lbrakk>handler_state c = None; kernel_pc c = Masked; \<not> serial_locked c\<rbrakk> \<Longrightarrow>
    cpu_step c (c\<lparr> kernel_pc := Printing, serial_locked := True \<rparr>)"
| unlock: "\<lbrakk>handler_state c = None; kernel_pc c = Printing\<rbrakk> \<Longrightarrow>
    cpu_step c (c\<lparr> kernel_pc := Unlocked, serial_locked := False \<rparr>)"
| unmask: "\<lbrakk>handler_state c = None; kernel_pc c = Unlocked\<rbrakk> \<Longrightarrow>
    cpu_step c (c\<lparr> kernel_pc := Outside, interrupts_enabled := saved_flag c \<rparr>)"
| heap_lock: "\<lbrakk>handler_state c = None; kernel_pc c = Outside; \<not> heap_locked c\<rbrakk> \<Longrightarrow>
    cpu_step c (c\<lparr> kernel_pc := Allocating, heap_locked := True \<rparr>)"
| heap_unlock: "\<lbrakk>handler_state c = None; kernel_pc c = Allocating\<rbrakk> \<Longrightarrow>
    cpu_step c (c\<lparr> kernel_pc := Outside, heap_locked := False \<rparr>)"
| interrupt: "\<lbrakk>handler_state c = None; interrupts_enabled c\<rbrakk> \<Longrightarrow>
    cpu_step c (c\<lparr> handler_state := Some Entered, resume_flag := True, interrupts_enabled := False \<rparr>)"
| fault: "\<lbrakk>handler_state c = None; idt_loaded c; kernel_pc c \<noteq> Printing\<rbrakk> \<Longrightarrow>
    cpu_step c (c\<lparr> handler_state := Some Entered, resume_flag := interrupts_enabled c, interrupts_enabled := False \<rparr>)"
| handler_print: "handler_state c = Some Entered \<Longrightarrow> cpu_step c (c\<lparr> handler_state := Some Waiting \<rparr>)"
| handler_lock: "\<lbrakk>handler_state c = Some Waiting; \<not> serial_locked c\<rbrakk> \<Longrightarrow>
    cpu_step c (c\<lparr> handler_state := Some Writing, serial_locked := True \<rparr>)"
| handler_unlock: "handler_state c = Some Writing \<Longrightarrow>
    cpu_step c (c\<lparr> handler_state := Some Entered, serial_locked := False \<rparr>)"
| handler_ack: "\<lbrakk>handler_state c = Some Entered; \<not> pics_locked c\<rbrakk> \<Longrightarrow>
    cpu_step c (c\<lparr> handler_state := Some Acknowledging, pics_locked := True \<rparr>)"
| handler_acked: "handler_state c = Some Acknowledging \<Longrightarrow>
    cpu_step c (c\<lparr> handler_state := Some Leaving, pics_locked := False \<rparr>)"
| handler_done: "handler_state c = Some Entered \<Longrightarrow> cpu_step c (c\<lparr> handler_state := Some Leaving \<rparr>)"
| handler_halt: "handler_state c = Some Entered \<Longrightarrow> cpu_step c (c\<lparr> handler_state := Some Halted \<rparr>)"
| handler_return: "handler_state c = Some Leaving \<Longrightarrow>
    cpu_step c (c\<lparr> handler_state := None, interrupts_enabled := resume_flag c \<rparr>)"

inductive cpu_reach :: "cpu \<Rightarrow> bool" where
  reset: "cpu_reach cpu_reset"
| step: "\<lbrakk>cpu_reach c; cpu_step c c'\<rbrakk> \<Longrightarrow> cpu_reach c'"

inductive_cases cpu_stepE: "cpu_step c c'"

definition locks_inv :: "cpu \<Rightarrow> bool" where
  "locks_inv c \<longleftrightarrow>
     (serial_locked c \<longleftrightarrow> kernel_pc c = Printing \<or> handler_state c = Some Writing) \<and>
     (pics_locked c \<longleftrightarrow> handler_state c = Some Acknowledging) \<and>
     (heap_locked c \<longleftrightarrow> kernel_pc c = Allocating)"

definition flags_inv :: "cpu \<Rightarrow> bool" where
  "flags_inv c \<longleftrightarrow>
     (kernel_pc c \<in> {Masked, Printing, Unlocked} \<longrightarrow> \<not> interrupts_enabled c) \<and>
     (kernel_pc c = Printing \<longrightarrow> handler_state c = None) \<and>
     (handler_state c \<noteq> None \<longrightarrow> \<not> interrupts_enabled c \<and>
        (resume_flag c \<longrightarrow> kernel_pc c \<notin> {Masked, Printing, Unlocked}))"

definition tables_inv :: "cpu \<Rightarrow> bool" where
  "tables_inv c \<longleftrightarrow>
     (idt_loaded c \<longrightarrow> gdt_loaded c \<and> pics_ready c) \<and>
     (interrupts_enabled c \<or> handler_state c \<noteq> None \<or> kernel_pc c \<in> {Masked, Printing, Unlocked} \<and> saved_flag c \<longrightarrow>
        idt_loaded c)"

lemma flags_inv_step: "cpu_step c c' \<Longrightarrow> flags_inv c \<Longrightarrow> flags_inv c'"
  by (erule cpu_stepE) (auto simp: flags_inv_def kernel_init_def)

lemma tables_inv_step: "cpu_step c c' \<Longrightarrow> flags_inv c \<Longrightarrow> tables_inv c \<Longrightarrow> tables_inv c'"
  by (erule cpu_stepE) (auto simp: tables_inv_def flags_inv_def kernel_init_def)

lemma locks_inv_step: "cpu_step c c' \<Longrightarrow> flags_inv c \<Longrightarrow> locks_inv c \<Longrightarrow> locks_inv c'"
  by (erule cpu_stepE) (auto simp: locks_inv_def flags_inv_def kernel_init_def)

lemma cpu_inv_reach: "cpu_reach c \<Longrightarrow> flags_inv c \<and> tables_inv c \<and> locks_inv c"
proof (induction rule: cpu_reach.induct)
  case reset
  show ?case by (simp add: flags_inv_def tables_inv_def locks_inv_def cpu_reset_def)
qed (auto intro: flags_inv_step tables_inv_step locks_inv_step)

lemma cpu_progress:
  assumes "flags_inv c" "locks_inv c" "handler_state c \<noteq> Some Halted"
  shows "\<exists>c'. cpu_step c c'"
proof (cases "handler_state c")
  case None
  then have "serial_locked c \<longleftrightarrow> kernel_pc c = Printing" using assms by (simp add: locks_inv_def)
  with None show ?thesis by (cases "kernel_pc c") (blast intro: cpu_step.intros)+
next
  case (Some h)
  then have "serial_locked c \<longleftrightarrow> handler_state c = Some Writing" using assms by (auto simp: locks_inv_def flags_inv_def)
  with Some assms(3) show ?thesis by (cases h) (blast intro: cpu_step.intros)+
qed

subsection \<open>Properties\<close>



text \<open>
  C15: A double fault has its own stack. After \<open>init\<close>, whatever is raised while the current stack
  cannot be used, as after a stack overflow, ends in the double-fault handler on the five pages of
  \<open>STACK\<close>, never in a reset; on a usable stack every interrupt the kernel has a handler for runs
  that handler on the current stack. \<open>init\<close> leaves interrupts enabled and the serial port alone.
\<close>

theorem double_fault_own_stack:
  assumes spec: "gdt_spec G gdt_lookup gdt_free slots tss_of canonical"
    and "unat stack_start + unat STACK_SIZE < 2 ^ 64" and "canonical (stack_start + STACK_SIZE)"
    and usable: "usable (stack_start + STACK_SIZE)"
  shows "\<exists>m'. lib_init G C stack_start m = (Ret (), m') \<and> interrupt_flag m' \<and> SERIAL1 m' = SERIAL1 m \<and>
    (\<forall>rsp v. \<not> usable rsp \<longrightarrow>
       deliver gdt_lookup tss_of usable m' rsp v = Runs double_fault_handler (stack_start + STACK_SIZE)) \<and>
    (\<forall>rsp v h. usable rsp \<and> IDT v = Some (h, None) \<longrightarrow> deliver gdt_lookup tss_of usable m' rsp v = Runs h rsp)"
proof -
  obtain g code t tss where run: "gdt_init G stack_start m =
      (Ret (), m\<lparr> gdtr := Some g, cs_register := Some code, task_register := Some t \<rparr>)"
    and g: "gdt_lookup g t = Some (tss_segment G tss)"
      "interrupt_stack_table tss = (stack_start + STACK_SIZE) # replicate 6 0"
    using gdt_spec.gdt_init_run [OF spec assms(2,3), of m] by blast
  define m' where "m' = m\<lparr> gdtr := Some g, cs_register := Some code, task_register := Some t,
    idtr := Some IDT, PICS := pics_initialize C (PICS m), interrupt_flag := True \<rparr>"
  have "lib_init G C stack_start m = (Ret (), m')"
    using run by (simp add: lib_init_def init_idt_def io_simps act_bind_def m'_def)
  moreover have own: "entry_stack gdt_lookup tss_of m' rsp (Some 0) = Some (stack_start + STACK_SIZE)" for rsp
    using g gdt_spec.tss_of_law [OF spec] by (simp add: m'_def entry_stack_def loaded_tss_def)
  moreover have cur: "entry_stack gdt_lookup tss_of m' rsp None = Some rsp" for rsp by (simp add: entry_stack_def)
  have "deliver gdt_lookup tss_of usable m' rsp v = Runs double_fault_handler (stack_start + STACK_SIZE)"
    if "\<not> usable rsp" for rsp v
  proof -
    have df: "enter_handler gdt_lookup tss_of usable m' rsp 8 = Some (double_fault_handler, stack_start + STACK_SIZE)"
      using own usable by (simp add: enter_handler_def IDT_entries m'_def)
    then show ?thesis
    proof (cases "IDT v")
      case (Some e)
      then show ?thesis using df that cur IDT_stack [of v]
        by (cases e; cases "snd e") (auto simp: deliver_def enter_handler_def m'_def)
    qed (simp add: deliver_def enter_handler_def m'_def)
  qed
  moreover have "deliver gdt_lookup tss_of usable m' rsp v = Runs h rsp" if "usable rsp" "IDT v = Some (h, None)" for rsp v h
    using that cur by (simp add: deliver_def enter_handler_def m'_def)
  ultimately show ?thesis by (intro exI [of _ m']) (simp add: m'_def)
qed

theorem double_fault_own_stack_witness:
  "\<exists>m'. lib_init list_gdt \<lparr> pics_new = (\<lambda>_ _. ()), pics_initialize = (\<lambda>p. p), notify_end_of_interrupt = (\<lambda>_ p. p) \<rparr> 0x200000
      \<lparr> SERIAL1 = None :: (bool \<times> string) option, interrupt_flag = False, gdtr = None, cs_register = None,
        task_register = None, idtr = None, PICS = () \<rparr> = (Ret (), m') \<and>
    deliver list_gdt_lookup descriptor_tss (\<lambda>a. 0x1000 < a) m' 0x1000 14 = Runs double_fault_handler 0x205000 \<and>
    deliver list_gdt_lookup descriptor_tss (\<lambda>a. 0x1000 < a) m' 0x8000 14 = Runs page_fault_handler 0x8000"
  using double_fault_own_stack [OF list_gdts.gdt_spec_axioms, of "0x200000" "\<lambda>a. 0x1000 < a"
      "\<lparr> pics_new = (\<lambda>_ _. ()), pics_initialize = (\<lambda>p. p), notify_end_of_interrupt = (\<lambda>_ p. p) \<rparr>"
      "\<lparr> SERIAL1 = None :: (bool \<times> string) option, interrupt_flag = False, gdtr = None, cs_register = None,
        task_register = None, idtr = None, PICS = () \<rparr>"]
  by (auto simp: STACK_SIZE_def IDT_entries)

end
