(* ===== verification/Kernel.thy ===== *)
theory Kernel
  imports Boot Heap_Init Virtio Interrupts
begin

section \<open>The kernel's entry point (\<open>src/src/main.rs\<close>)\<close>

text \<open>
  \<open>kernel_main\<close> from the boot report to the executor, put together from the components, the tasks it
  spawns, and the panic handler. Opening the block device through the PCI transport belongs to the
  package \<open>virtio_drivers\<close> and is the parameter \<open>open_blk\<close>. The messages after the boot report,
  which mix with those of the driver's hardware layer, are left out.
\<close>

record ('u, 'g, 's, 'p, 'r, 'm, 'h) kernel = "('u, 'g, 's, handler, 'p) machine" +
  PHYSICAL_MEMORY_OFFSET :: u64
  FRAME_ALLOCATOR :: "'r BootInfoFrameAllocator option"
  PAGE_MAPPER :: "'m option"
  GLOBAL_ALLOCATOR :: "'h FixedSizeBlockAllocator"

subsection \<open>The boot report\<close>

definition region_kb :: "('r, 'y) boot_map_scheme \<Rightarrow> 'r \<Rightarrow> nat" where
  "region_kb B r = (unat (region_end B r) - unat (region_start B r)) div 1024"

text \<open>\<open>{:?}\<close> of the region type is the parameter \<open>fmt_type\<close>.\<close>

definition region_line :: "('r, 'y) boot_map_scheme \<Rightarrow> ('r \<Rightarrow> string) \<Rightarrow> 'r \<Rightarrow> string list" where
  "region_line B fmt_type r =
     [''    - Start: '', fmt_hex_alt 10 (unat (region_start B r)), '', End: '', fmt_hex_alt 10 (unat (region_end B r)),
      '', Size: '', fmt_dec (region_kb B r), '' KB, Type: '', fmt_type r]"

fun print_regions ::
    "'u uart \<Rightarrow> ('r, 'y) boot_map_scheme \<Rightarrow> ('r \<Rightarrow> string) \<Rightarrow> 'r list \<Rightarrow> (('u, 'z) console_scheme, unit) act" where
  "print_regions U B fmt_type [] = act_return ()"
| "print_regions U B fmt_type (r # rs) =
     act_bind (println U (region_line B fmt_type r)) (\<lambda>_. print_regions U B fmt_type rs)"

definition print_boot_info ::
    "'u uart \<Rightarrow> ('r, 'y) boot_map_scheme \<Rightarrow> ('r \<Rightarrow> string) \<Rightarrow> u64 \<Rightarrow> 'r list \<Rightarrow> (('u, 'z) console_scheme, unit) act" where
  "print_boot_info U B fmt_type physical_memory_offset mm =
     act_bind (println U [''Hello zen-zap'', ''!'']) (\<lambda>_.
     act_bind (println U [''[INFO] Boot Info Received:'']) (\<lambda>_.
     act_bind (println U [''  - Physical Memory Offset: '', fmt_hex_alt 0 (unat physical_memory_offset)]) (\<lambda>_.
     act_bind (println U [''  - Memory Map:'']) (\<lambda>_.
     act_bind (print_regions U B fmt_type mm) (\<lambda>_.
     println U [''=================''])))))"

subsection \<open>Memory, storage and tasks\<close>

definition kernel_init_heap ::
    "'pg page_ops \<Rightarrow> ('pg, 'f, 'm, 'r BootInfoFrameAllocator, 'x) Mapper
       \<Rightarrow> ('r BootInfoFrameAllocator \<Rightarrow> ('f option \<times> 'r BootInfoFrameAllocator) outcome) \<Rightarrow> 'h fallback
       \<Rightarrow> (('u, 'g, 's, 'p, 'r, 'm, 'h, 'z) kernel_scheme, unit) act" where
  "kernel_init_heap P M fa F k =
     (case (PAGE_MAPPER k, FRAME_ALLOCATOR k) of
        (Some mapper, Some allocator) \<Rightarrow>
          (case init_heap P M fa F
                  \<lparr> hw_mapper = mapper, hw_frames = allocator, ALLOCATOR = GLOBAL_ALLOCATOR k \<rparr> of
             (r, w) \<Rightarrow>
               (case r of Ret (Ok _) \<Rightarrow> Ret () | _ \<Rightarrow> Panic,
                k\<lparr> PAGE_MAPPER := Some (hw_mapper w), FRAME_ALLOCATOR := Some (hw_frames w),
                   GLOBAL_ALLOCATOR := ALLOCATOR w \<rparr>))
      | _ \<Rightarrow> (Panic, k))"

definition kernel_memory ::
    "('g, 'd, 's) gdt_ops \<Rightarrow> 'p pic_ops \<Rightarrow> u64 \<Rightarrow> ('f, 'e, 'y) paging_scheme \<Rightarrow> (u64 \<Rightarrow> u64 \<Rightarrow> 'm) \<Rightarrow> 'f
       \<Rightarrow> 'pg page_ops \<Rightarrow> ('pg, 'f, 'm, 'r BootInfoFrameAllocator, 'x) Mapper \<Rightarrow> ('r, 'v) boot_map_scheme \<Rightarrow> 'h fallback
       \<Rightarrow> u64 \<Rightarrow> 'r list \<Rightarrow> (('u, 'g, 's, 'p, 'r, 'm, 'h, 'z) kernel_scheme, unit) act" where
  "kernel_memory G C stack_start X new_table cr3 P M B F physical_memory_offset mm =
     act_bind (lib_init G C stack_start) (\<lambda>_.
     act_bind (act_out (virt_new P physical_memory_offset)) (\<lambda>phys_mem_offset.
     act_bind (act_modify (\<lambda>k. k\<lparr> PHYSICAL_MEMORY_OFFSET := physical_memory_offset \<rparr>)) (\<lambda>_.
     act_bind (act_out (memory_init X new_table cr3 phys_mem_offset)) (\<lambda>mapper.
     act_bind (act_modify (\<lambda>k. k\<lparr> FRAME_ALLOCATOR := Some (frame_allocator_init mm) \<rparr>)) (\<lambda>_.
     act_bind (act_modify (\<lambda>k. k\<lparr> PAGE_MAPPER := Some mapper \<rparr>)) (\<lambda>_.
     kernel_init_heap P M (allocate_frame X B) F))))))"

text \<open>\<open>None\<close>: no device of the vendor was found.\<close>

definition kernel_storage ::
    "zerocopy \<Rightarrow> ('dev, 'er) virtio_blk \<Rightarrow> (u8 \<Rightarrow> (DeviceFunction \<times> DeviceFunctionInfo) list)
       \<Rightarrow> (DeviceFunction \<Rightarrow> ('k, 'dev) act) \<Rightarrow> ('dev \<Rightarrow> 'dev outcome)
       \<Rightarrow> ('k, (bool \<times> (FileHandler, FileError) result list \<times> 'dev SFS) option) act" where
  "kernel_storage Z V enumerate_bus open_blk reopen =
     (case scan enumerate_bus of
        Some device_function \<Rightarrow>
          act_bind (open_blk device_function) (\<lambda>blk_dev.
          act_bind (act_out (boot_storage Z V reopen blk_dev)) (\<lambda>r.
          act_return (Some r)))
      | None \<Rightarrow> act_return None)"

text \<open>The two futures; \<open>KeyTask\<close> tells whether it has been polled before.\<close>

datatype kernel_future = ExampleTask | KeyTask bool

definition kernel_tasks :: "(TaskId, 'q) array_queue \<Rightarrow> u64 \<Rightarrow> (kernel_future, 'q) Executor outcome" where
  "kernel_tasks Q next_id = spawn_all Q [ExampleTask, KeyTask False] next_id (executor_new Q)"

definition kernel_main ::
    "'u uart \<Rightarrow> ('r \<Rightarrow> string) \<Rightarrow> ('g, 'd, 's) gdt_ops \<Rightarrow> 'p pic_ops \<Rightarrow> u64 \<Rightarrow> ('f, 'e, 'y) paging_scheme
       \<Rightarrow> (u64 \<Rightarrow> u64 \<Rightarrow> 'm) \<Rightarrow> 'f \<Rightarrow> 'pg page_ops \<Rightarrow> ('pg, 'f, 'm, 'r BootInfoFrameAllocator, 'x) Mapper
       \<Rightarrow> ('r, 'v) boot_map_scheme \<Rightarrow> 'h fallback \<Rightarrow> zerocopy \<Rightarrow> ('dev, 'er) virtio_blk
       \<Rightarrow> (u8 \<Rightarrow> (DeviceFunction \<times> DeviceFunctionInfo) list)
       \<Rightarrow> (DeviceFunction \<Rightarrow> (('u, 'g, 's, 'p, 'r, 'm, 'h, 'z) kernel_scheme, 'dev) act) \<Rightarrow> ('dev \<Rightarrow> 'dev outcome)
       \<Rightarrow> (TaskId, 'q) array_queue \<Rightarrow> u64 \<Rightarrow> 'r list
       \<Rightarrow> (('u, 'g, 's, 'p, 'r, 'm, 'h, 'z) kernel_scheme,
           (bool \<times> (FileHandler, FileError) result list \<times> 'dev SFS) option \<times> (kernel_future, 'q) Executor) act" where
  "kernel_main U fmt_type G C stack_start X new_table cr3 P M B F Z V enumerate_bus open_blk reopen Q
     physical_memory_offset mm =
     act_bind (print_boot_info U B fmt_type physical_memory_offset mm) (\<lambda>_.
     act_bind (kernel_memory G C stack_start X new_table cr3 P M B F physical_memory_offset mm) (\<lambda>_.
     act_bind (kernel_storage Z V enumerate_bus open_blk reopen) (\<lambda>storage.
     act_bind (act_out (kernel_tasks Q 0)) (\<lambda>executor.
     act_return (storage, executor)))))"

subsection \<open>Polling the tasks\<close>

definition async_number_69 :: u32 where "async_number_69 = 69"

definition code_points :: "string \<Rightarrow> u32 list" where
  "code_points s = map of_char s"

record ('q, 'tq, 'c, 'k) task_world =
  keyboard :: "('q, 'tq, 'c) kbd"
  decoder :: 'k
  console_log :: "u32 list"
  crashed :: bool

text \<open>\<open>crashed\<close> records a panic of a task. No interrupt comes during a poll.\<close>

definition kernel_poll ::
    "nat \<Rightarrow> (u8, 'q) array_queue \<Rightarrow> 'c atomic_waker \<Rightarrow> ('k, 'ev, 'code) key_decoder
       \<Rightarrow> (kernel_future, ('q, 'tq, 'c, 'k) task_world) poll_fn" where
  "kernel_poll fuel Q A K fut waker w =
     (case fut of
        ExampleTask \<Rightarrow>
          (True, ExampleTask,
           w\<lparr> console_log := console_log w @
                code_points (''async number: '' @ fmt_dec (unat async_number_69) @ newline) \<rparr>, [])
      | KeyTask started \<Rightarrow>
          (case (if started then print_keypresses else print_keypresses_start) fuel Q A K waker (keyboard w) (decoder w) of
             Ret (Some (out, s, k)) \<Rightarrow>
               (False, KeyTask True, w\<lparr> keyboard := s, decoder := k, console_log := console_log w @ out \<rparr>, [])
           | _ \<Rightarrow> (False, fut, w\<lparr> crashed := True \<rparr>, [])))"

subsection \<open>The panic handler\<close>

text \<open>\<open>mem\<close> is the memory the frame pointers lead through; afterwards the handler halts.\<close>

function print_backtrace ::
    "'u uart \<Rightarrow> nat \<Rightarrow> (u64 \<Rightarrow> u64) \<Rightarrow> u64 \<Rightarrow> (('u, 'z) console_scheme, unit) act" where
  "print_backtrace U stack_trace_count mem rbp =
     (if rbp \<noteq> 0 \<and> stack_trace_count < 20 then
        act_bind (act_out (add_ck rbp 8)) (\<lambda>a.
        act_bind (println U [''  '', fmt_hex_alt 18 (unat (mem a))]) (\<lambda>_.
        print_backtrace U (stack_trace_count + 1) mem (mem rbp)))
      else act_return ())"
  by pat_completeness auto
termination by (relation "measure (\<lambda>(_, count, _, _). 20 - count)") auto

declare print_backtrace.simps [simp del]

definition panic_handler ::
    "'u uart \<Rightarrow> string \<Rightarrow> u64 \<Rightarrow> (u64 \<Rightarrow> u64) \<Rightarrow> u64 \<Rightarrow> (('u, 'z) console_scheme, unit) act" where
  "panic_handler U info rip mem rbp =
     act_bind (println U [''KERNEL PANIC: '', info, newline]) (\<lambda>_.
     act_bind (println U [''RIP: '', fmt_hex_alt 18 (unat rip)]) (\<lambda>_.
     act_bind (println U [newline, ''Stack Backtrace:'']) (\<lambda>_.
     print_backtrace U 0 mem rbp)))"

subsection \<open>The panic report\<close>

definition backtrace_line :: "u64 \<Rightarrow> string" where
  "backtrace_line ret = ''  '' @ fmt_hex_alt 18 (unat ret) @ newline"

context uart_spec
begin

lemma println_step:
  assumes "console_ok uart_ready c"
  obtains u where "println U args c = (Ret (), c\<lparr> SERIAL1 := Some u \<rparr>)"
    "console_ok uart_ready (c\<lparr> SERIAL1 := Some u \<rparr>)"
    "printed sent (c\<lparr> SERIAL1 := Some u \<rparr>) = printed sent c @ concat args @ newline"
proof -
  obtain u where "println U args c = (Ret (), c\<lparr> SERIAL1 := Some u \<rparr>)" "uart_ready u"
    "sent u = printed sent c @ concat (args @ [newline])"
    using serial_print_run [OF assms, of "args @ [newline]"] by (auto simp: println_def print_def)
  then show thesis using that [of u] by simp
qed

lemma print_backtrace_run:
  assumes "console_ok uart_ready c"
  shows "case backtrace n mem rbp of
      Ret rets \<Rightarrow> \<exists>u. print_backtrace U n mem rbp c = (Ret (), c\<lparr> SERIAL1 := u \<rparr>) \<and>
        printed sent (c\<lparr> SERIAL1 := u \<rparr>) = printed sent c @ concat (map backtrace_line rets)
    | Panic \<Rightarrow> fst (print_backtrace U n mem rbp c) = Panic"
  using assms
proof (induction n mem rbp arbitrary: c rule: backtrace.induct)
  case (1 n mem rbp)
  show ?case
  proof (cases "rbp \<noteq> 0 \<and> n < 20")
    case False
    then have "backtrace n mem rbp = Ret []" by (subst backtrace.simps) auto
    moreover have "print_backtrace U n mem rbp c = (Ret (), c)"
      using False by (subst print_backtrace.simps) (auto simp: act_return_def)
    ultimately show ?thesis by (auto intro!: exI [of _ "SERIAL1 c"])
  next
    case True
    show ?thesis
    proof (cases "add_ck rbp 8")
      case Panic
      then have "backtrace n mem rbp = Panic" using True by (subst backtrace.simps) simp
      moreover have "print_backtrace U n mem rbp c = (Panic, c)"
        using True Panic by (subst print_backtrace.simps) (simp add: io_simps)
      ultimately show ?thesis by simp
    next
      case (Ret a)
      let ?line = "[''  '', fmt_hex_alt 18 (unat (mem a))]"
      obtain u where u: "println U ?line c = (Ret (), c\<lparr> SERIAL1 := Some u \<rparr>)"
        "console_ok uart_ready (c\<lparr> SERIAL1 := Some u \<rparr>)"
        "printed sent (c\<lparr> SERIAL1 := Some u \<rparr>) = printed sent c @ concat ?line @ newline"
        using "1.prems" by (rule println_step)
      have run: "print_backtrace U n mem rbp c = print_backtrace U (n + 1) mem (mem rbp) (c\<lparr> SERIAL1 := Some u \<rparr>)"
        using True Ret u(1) by (subst print_backtrace.simps) (simp add: io_simps act_bind_def)
      have bt: "backtrace n mem rbp = bind_out (backtrace (n + 1) mem (mem rbp)) (\<lambda>rest. Ret (mem a # rest))"
        using True Ret by (subst backtrace.simps) simp
      show ?thesis
        using "1.IH" [OF True Ret u(2)] u(3) unfolding run bt
        by (cases "backtrace (n + 1) mem (mem rbp)") (auto simp: backtrace_line_def)
    qed
  qed
qed

end



subsection \<open>The tasks start\<close>

lemma kernel_tasks_run:
  assumes "array_queue_spec Q aq_list aq_cap"
  obtains e where "kernel_tasks Q 0 = Ret e" "aq_list (task_queue e) = [0, 1]" "waker_cache e = Map.empty"
    "aq_cap (task_queue e) = 100"
    "tasks e = [0 \<mapsto> \<lparr> task_id = 0, future = ExampleTask \<rparr>, 1 \<mapsto> \<lparr> task_id = 1, future = KeyTask False \<rparr>]"
proof -
  note new = array_queue_spec.new_law [OF assms, of 100] and push = array_queue_spec.push_ok [OF assms]
  obtain q1 where q1: "aq_push Q 0 (aq_new Q 100) = (Ok (), q1)" "aq_list q1 = [0]" "aq_cap q1 = 100"
    using push [of "aq_new Q 100" 0] by (auto simp: new)
  obtain q2 where q2: "aq_push Q 1 q1 = (Ok (), q2)" "aq_list q2 = [0, 1]" "aq_cap q2 = 100"
    using push [of q1 1] q1(2,3) by auto
  show thesis
    by (rule that [of "\<lparr> tasks = [0 \<mapsto> \<lparr> task_id = 0, future = ExampleTask \<rparr>, 1 \<mapsto> \<lparr> task_id = 1, future = KeyTask False \<rparr>],
        task_queue = q2, waker_cache = Map.empty \<rparr>"])
      (use q1 q2 in \<open>simp_all add: kernel_tasks_def executor_new_def spawn_def Task_new_def TaskId_new_def Let_def\<close>)
qed

text \<open>
  The executor between rounds, with only the keyboard task left: \<open>xs\<close> are the scan codes that wait.
  With none the task is parked on its waker, otherwise it is queued.
\<close>

definition kernel_waiting ::
    "('q \<Rightarrow> u8 list) \<Rightarrow> ('q \<Rightarrow> nat) \<Rightarrow> ('tq \<Rightarrow> TaskId list) \<Rightarrow> ('tq \<Rightarrow> nat) \<Rightarrow> ('c \<Rightarrow> Waker option) \<Rightarrow> u8 list
       \<Rightarrow> (kernel_future, 'tq) Executor \<Rightarrow> ('q, 't, 'c, 'k) task_world \<Rightarrow> bool" where
  "kernel_waiting sq_list sq_cap tq_list tq_cap aw_view xs e w \<longleftrightarrow>
     tasks e = [1 \<mapsto> \<lparr> task_id = 1, future = KeyTask True \<rparr>] \<and> waker_cache e = [1 \<mapsto> TaskWaker 1] \<and>
     tq_list (task_queue e) = (if xs = [] then [] else [1]) \<and> tq_cap (task_queue e) = 100 \<and>
     (\<exists>q. SCANCODE_QUEUE (keyboard w) = Some q \<and> sq_list q = xs \<and> sq_cap q = 100) \<and>
     aw_view (SCANCODE_WAKER (keyboard w)) = (if xs = [] then Some (TaskWaker 1) else None) \<and>
     length xs \<le> 100 \<and> \<not> crashed w"

lemma first_round_run:
  assumes env: "keyboard_env Q sq_list sq_cap TQ tq_list tq_cap A aw_view"
    and e: "tq_list (task_queue e) = [0, 1]" "waker_cache e = Map.empty" "tq_cap (task_queue e) = 100"
      "tasks e = [0 \<mapsto> \<lparr> task_id = 0, future = ExampleTask \<rparr>, 1 \<mapsto> \<lparr> task_id = 1, future = KeyTask False \<rparr>]"
    and start: "SCANCODE_QUEUE (keyboard w) = None" "0 < fuel" "\<not> crashed w"
  shows "\<exists>e' w'. run_ready_tasks TQ (kernel_poll fuel Q A K) e w = Some (Ret (), e', w') \<and>
    console_log w' = console_log w @ code_points (''async number: 69'' @ newline) \<and> decoder w' = decoder w \<and>
    kernel_waiting sq_list sq_cap tq_list tq_cap aw_view [] e' w'"
proof -
  have specs: "array_queue_spec TQ tq_list tq_cap" "array_queue_spec Q sq_list sq_cap" "atomic_waker_spec A aw_view"
    using env by (simp_all add: keyboard_env_def)
  note pop = array_queue_spec.pop_some [OF specs(1)] and stop = array_queue_spec.pop_none [OF specs(1)]
  obtain q1 where q1: "aq_pop TQ (task_queue e) = (Some 0, q1)" "tq_list q1 = [1]" "tq_cap q1 = 100"
    using pop [OF e(1)] e(3) by auto
  obtain q2 where q2: "aq_pop TQ q1 = (Some 1, q2)" "tq_list q2 = []" "tq_cap q2 = 100"
    using pop [OF q1(2)] q1(3) by auto
  let ?s = "(keyboard w)\<lparr> SCANCODE_QUEUE := Some (aq_new Q 100) \<rparr>"
  have new: "sq_list (aq_new Q 100) = []" "sq_cap (aq_new Q 100) = 100"
    using array_queue_spec.new_law [OF specs(2), of 100] by simp_all
  define s2 where "s2 = ?s\<lparr> SCANCODE_WAKER := aw_register A (TaskWaker 1) (SCANCODE_WAKER ?s) \<rparr>"
  have "poll_next Q A (TaskWaker 1) ?s = Ret (Pending, s2)"
    using keyboard_env.poll_next_none [OF env _ new(1), of ?s "TaskWaker 1"] by (simp add: s2_def)
  then have key: "print_keypresses_start fuel Q A K (TaskWaker 1) (keyboard w) k = Ret (Some ([], s2, k))" for k
    using start(1,2) by (cases fuel) (simp_all add: print_keypresses_start_def ScancodeStream_new_def)
  define w1 where "w1 = w\<lparr> console_log := console_log w @ code_points (''async number: 69'' @ newline) \<rparr>"
  have "fmt_dec 69 = ''69''" by (simp add: fmt_dec_def digits.simps digit_char_def)
  then have ex: "kernel_poll fuel Q A K ExampleTask wk w = (True, ExampleTask, w1, [])" for wk
    by (simp add: kernel_poll_def async_number_69_def w1_def)
  have kp: "kernel_poll fuel Q A K (KeyTask False) (TaskWaker 1) w1 = (False, KeyTask True, w1\<lparr> keyboard := s2 \<rparr>, [])"
    using key by (simp add: kernel_poll_def w1_def)
  define e1 where "e1 = e\<lparr> tasks := [1 \<mapsto> \<lparr> task_id = 1, future = KeyTask False \<rparr>], task_queue := q1, waker_cache := Map.empty \<rparr>"
  define e2 where "e2 = e1\<lparr> tasks := [1 \<mapsto> \<lparr> task_id = 1, future = KeyTask True \<rparr>], task_queue := q2,
    waker_cache := [1 \<mapsto> TaskWaker 1] \<rparr>"
  have "run_ready_tasks TQ (kernel_poll fuel Q A K) e w = run_ready_tasks TQ (kernel_poll fuel Q A K) e1 w1"
    using e q1 ex by (subst run_ready_tasks.simps) (simp add: Task_poll_def Let_def e1_def)
  also have "\<dots> = run_ready_tasks TQ (kernel_poll fuel Q A K) e2 (w1\<lparr> keyboard := s2 \<rparr>)"
    using e q2 kp by (subst run_ready_tasks.simps) (simp add: Task_poll_def Let_def e1_def e2_def)
  also have "\<dots> = Some (Ret (), e2, w1\<lparr> keyboard := s2 \<rparr>)"
    using stop [OF q2(2)] by (subst run_ready_tasks.simps) (simp add: e2_def)
  finally show ?thesis
    using q2(2,3) new start(3) atomic_waker_spec.register_law [OF specs(3)]
    by (simp add: kernel_waiting_def w1_def e2_def s2_def)
qed



subsection \<open>From the boot loader to the executor\<close>

definition boot_report :: "('r, 'y) boot_map_scheme \<Rightarrow> ('r \<Rightarrow> string) \<Rightarrow> u64 \<Rightarrow> 'r list \<Rightarrow> string" where
  "boot_report B fmt_type off mm =
     ''Hello zen-zap!'' @ newline @ ''[INFO] Boot Info Received:'' @ newline @
     ''  - Physical Memory Offset: '' @ fmt_hex_alt 0 (unat off) @ newline @ ''  - Memory Map:'' @ newline @
     concat (map (\<lambda>r. concat (region_line B fmt_type r) @ newline) mm) @ ''================='' @ newline"

context uart_spec
begin

lemma print_regions_run:
  "\<lbrakk>console_ok uart_ready c; SERIAL1 c \<noteq> None\<rbrakk> \<Longrightarrow> \<exists>u. print_regions U B fmt_type mm c = (Ret (), c\<lparr> SERIAL1 := Some u \<rparr>) \<and>
    console_ok uart_ready (c\<lparr> SERIAL1 := Some u \<rparr>) \<and>
    printed sent (c\<lparr> SERIAL1 := Some u \<rparr>) =
      printed sent c @ concat (map (\<lambda>r. concat (region_line B fmt_type r) @ newline) mm)"
proof (induction mm arbitrary: c)
  case Nil
  then show ?case by (auto simp: act_return_def console_ok_def printed_def intro!: exI [of _ "the (SERIAL1 c)"])
next
  case (Cons r mm)
  obtain u where u: "println U (region_line B fmt_type r) c = (Ret (), c\<lparr> SERIAL1 := Some u \<rparr>)"
    "console_ok uart_ready (c\<lparr> SERIAL1 := Some u \<rparr>)"
    "printed sent (c\<lparr> SERIAL1 := Some u \<rparr>) = printed sent c @ concat (region_line B fmt_type r) @ newline"
    using Cons.prems(1) by (rule println_step)
  then show ?case using Cons.IH [OF u(2)] by (auto simp: act_bind_def)
qed

lemma print_boot_info_run:
  assumes "console_ok uart_ready c"
  obtains u where "print_boot_info U B fmt_type off mm c = (Ret (), c\<lparr> SERIAL1 := Some u \<rparr>)"
    "console_ok uart_ready (c\<lparr> SERIAL1 := Some u \<rparr>)"
    "printed sent (c\<lparr> SERIAL1 := Some u \<rparr>) = printed sent c @ boot_report B fmt_type off mm"
proof -
  note step = println_step [of "c\<lparr> SERIAL1 := Some v \<rparr>" for v, simplified]
  obtain u1 where u1: "println U [''Hello zen-zap'', ''!''] c = (Ret (), c\<lparr> SERIAL1 := Some u1 \<rparr>)" "uart_ready u1"
    "sent u1 = printed sent c @ ''Hello zen-zap!'' @ newline"
    using println_step [OF assms, of "[''Hello zen-zap'', ''!'']"] by auto
  obtain u2 where u2: "println U [''[INFO] Boot Info Received:''] (c\<lparr> SERIAL1 := Some u1 \<rparr>) = (Ret (), c\<lparr> SERIAL1 := Some u2 \<rparr>)"
    "uart_ready u2" "sent u2 = sent u1 @ ''[INFO] Boot Info Received:'' @ newline"
    using step [OF u1(2), of "[''[INFO] Boot Info Received:'']"] by auto
  let ?off = "[''  - Physical Memory Offset: '', fmt_hex_alt 0 (unat off)]"
  obtain u3 where u3: "println U ?off (c\<lparr> SERIAL1 := Some u2 \<rparr>) = (Ret (), c\<lparr> SERIAL1 := Some u3 \<rparr>)"
    "uart_ready u3" "sent u3 = sent u2 @ concat ?off @ newline"
    using step [OF u2(2), of ?off] by auto
  obtain u4 where u4: "println U [''  - Memory Map:''] (c\<lparr> SERIAL1 := Some u3 \<rparr>) = (Ret (), c\<lparr> SERIAL1 := Some u4 \<rparr>)"
    "uart_ready u4" "sent u4 = sent u3 @ ''  - Memory Map:'' @ newline"
    using step [OF u3(2), of "[''  - Memory Map:'']"] by auto
  obtain u5 where u5: "print_regions U B fmt_type mm (c\<lparr> SERIAL1 := Some u4 \<rparr>) = (Ret (), c\<lparr> SERIAL1 := Some u5 \<rparr>)"
    "uart_ready u5" "sent u5 = sent u4 @ concat (map (\<lambda>r. concat (region_line B fmt_type r) @ newline) mm)"
    using print_regions_run [of "c\<lparr> SERIAL1 := Some u4 \<rparr>" B fmt_type mm] u4(2) by auto
  obtain u6 where u6: "println U [''=================''] (c\<lparr> SERIAL1 := Some u5 \<rparr>) = (Ret (), c\<lparr> SERIAL1 := Some u6 \<rparr>)"
    "uart_ready u6" "sent u6 = sent u5 @ ''================='' @ newline"
    using step [OF u5(2), of "[''================='']"] by auto
  show thesis
    by (rule that [of u6])
      (use u1 u2 u3 u4 u5 u6 in \<open>simp_all add: print_boot_info_def act_bind_def boot_report_def\<close>)
qed

end

text \<open>What the machine has set up once the memory is ready.\<close>

definition kernel_ready ::
    "u64 \<Rightarrow> 'pg page_ops \<Rightarrow> ('m \<Rightarrow> 'pg \<Rightarrow> ('f \<times> u64) option) \<Rightarrow> 'm
       \<Rightarrow> ('u, 'g, 's, 'p, 'r, 'm, 'h, 'z) kernel_scheme \<Rightarrow> bool" where
  "kernel_ready off P mapping m0 k \<longleftrightarrow>
     idtr k = Some IDT \<and> interrupt_flag k \<and> PHYSICAL_MEMORY_OFFSET k = off \<and> FRAME_ALLOCATOR k \<noteq> None \<and>
     (\<exists>m ps fs. PAGE_MAPPER k = Some m \<and> heap_pages P = Ret ps \<and> length ps = 25 \<and> length fs = 25 \<and> distinct fs \<and>
        (\<forall>i<25. mapping m (ps ! i) = Some (fs ! i, PRESENT P OR WRITABLE P)) \<and>
        (\<forall>p. p \<notin> set ps \<longrightarrow> mapping m p = mapping m0 p))"

lemma kernel_memory_run:
  assumes gdt: "gdt_spec G gdt_lookup gdt_free slots tss_of canonical"
      "unat stack_start + unat STACK_SIZE < 2 ^ 64" "canonical (stack_start + STACK_SIZE)"
    and pages: "pages_spec P" and env: "reliable_heap_env (allocate_frame X B) fa_inv M mapping frames_left"
    and off: "unat off < 2 ^ 47" and m0: "memory_init X new_table cr3 off = Ret m0"
    and frames: "fa_inv (frame_allocator_init mm) used" "100 \<le> frames_left (frame_allocator_init mm)"
    and free: "\<And>ps p. heap_pages P = Ret ps \<Longrightarrow> p \<in> set ps \<Longrightarrow> mapping m0 p = None"
  shows "\<exists>k'. kernel_memory G C stack_start X new_table cr3 P M B F off mm k = (Ret (), k') \<and>
    kernel_ready off P mapping m0 k' \<and> SERIAL1 k' = SERIAL1 k"
proof -
  obtain g code t where "gdt_init G stack_start k =
      (Ret (), k\<lparr> gdtr := Some g, cs_register := Some code, task_register := Some t \<rparr>)"
    using gdt_spec.gdt_init_run [OF gdt] by blast
  moreover define k1 where "k1 = k\<lparr> gdtr := Some g, cs_register := Some code, task_register := Some t,
    idtr := Some IDT, PICS := pics_initialize C (PICS k), interrupt_flag := True \<rparr>"
  ultimately have k1: "lib_init G C stack_start k = (Ret (), k1)"
    by (simp add: lib_init_def init_idt_def io_simps act_bind_def)
  define k2 where "k2 = k1\<lparr> PHYSICAL_MEMORY_OFFSET := off, FRAME_ALLOCATOR := Some (frame_allocator_init mm), PAGE_MAPPER := Some m0 \<rparr>"
  let ?w = "\<lparr> hw_mapper = m0, hw_frames = frame_allocator_init mm, ALLOCATOR = GLOBAL_ALLOCATOR k \<rparr>"
  obtain w' ps fs where heap: "init_heap P M (allocate_frame X B) F ?w = (Ret (Ok ()), w')" and
    ps: "heap_pages P = Ret ps" "length ps = 25" "length fs = 25" "distinct fs"
    "\<forall>i<25. mapping (hw_mapper w') (ps ! i) = Some (fs ! i, PRESENT P OR WRITABLE P)"
    "\<forall>p. p \<notin> set ps \<longrightarrow> mapping (hw_mapper w') p = mapping m0 p"
    using init_heap_total [OF pages env, of ?w used F] frames free by auto
  let ?k = "k2\<lparr> PAGE_MAPPER := Some (hw_mapper w'), FRAME_ALLOCATOR := Some (hw_frames w'), GLOBAL_ALLOCATOR := ALLOCATOR w' \<rparr>"
  have "kernel_init_heap P M (allocate_frame X B) F k2 = (Ret (), ?k)"
    using heap by (simp add: kernel_init_heap_def k2_def k1_def)
  then have "kernel_memory G C stack_start X new_table cr3 P M B F off mm k = (Ret (), ?k)"
    using k1 m0 pages_spec.virt_law(1) [OF pages off] by (simp add: kernel_memory_def io_simps act_bind_def k2_def)
  moreover have "kernel_ready off P mapping m0 ?k" using ps by (auto simp: kernel_ready_def k2_def k1_def)
  moreover have "SERIAL1 ?k = SERIAL1 k" by (simp add: k2_def k1_def)
  ultimately show ?thesis by blast
qed

text \<open>
  C2: The kernel boots. On a machine whose boot loader passes a hundred usable frames and a memory
  offset, where the heap's pages are unmapped and a virtio block device of at least twenty blocks
  can be opened, \<open>kernel_main\<close> gets to the executor without a panic: the boot report is the first
  thing on the serial port, the interrupt table is loaded and interrupts are on, the 25 heap pages
  are mapped to distinct frames and every other mapping is as it was, the disk holds a consistent
  file system with the file \<open>hello.txt\<close>, and the two tasks are queued in the order they were
  spawned.
\<close>

theorem kernel_boots:
  assumes uart: "uart_spec U uart_ready sent" "console_ok uart_ready k"
    and gdt: "gdt_spec G gdt_lookup gdt_free slots tss_of canonical"
      "unat stack_start + unat STACK_SIZE < 2 ^ 64" "canonical (stack_start + STACK_SIZE)"
    and pages: "pages_spec P" and env: "reliable_heap_env (allocate_frame X B) fa_inv M mapping frames_left"
    and off: "unat off < 2 ^ 47" and m0: "memory_init X new_table cr3 off = Ret m0"
    and frames: "fa_inv (frame_allocator_init mm) used" "100 \<le> frames_left (frame_allocator_init mm)"
    and free: "\<And>ps p. heap_pages P = Ret ps \<Longrightarrow> p \<in> set ps \<Longrightarrow> mapping m0 p = None"
    and dev: "scan enumerate_bus = Some df"
      "\<And>k. FRAME_ALLOCATOR k \<noteq> None \<Longrightarrow> console_ok uart_ready k \<Longrightarrow> \<exists>d u fr h msg.
        open_blk df k = (Ret d, k\<lparr> SERIAL1 := Some u, FRAME_ALLOCATOR := Some fr, GLOBAL_ALLOCATOR := h \<rparr>) \<and>
        sent u = printed sent k @ msg \<and> dev_ok d \<and> 20 \<le> unat (capacity (VirtIOBlk_device V) d)"
    and fs: "reliable_sfs_env Z (VirtIOBlk_device V) dev_ok blocks"
      "\<And>d. dev_ok d \<Longrightarrow> \<exists>d'. reopen d = Ret d' \<and> dev_ok d' \<and> blocks d' = blocks d \<and>
        capacity (VirtIOBlk_device V) d' = capacity (VirtIOBlk_device V) d"
    and queue: "array_queue_spec Q aq_list aq_cap"
  shows "\<exists>fs e k' msg. kernel_main U fmt_type G C stack_start X new_table cr3 P M B F Z V enumerate_bus open_blk reopen Q
        off mm k = (Ret (Some (True, [Ok (FileHandler 1), Err Corrupt], fs), e), k') \<and>
    printed sent k' = printed sent k @ boot_report B fmt_type off mm @ msg \<and> kernel_ready off P mapping m0 k' \<and>
    sfs_inv Z (superblock fs) (blocks (device fs)) \<and>
    afs_dir (afs_of Z (superblock fs) (blocks (device fs))) = [dot_name \<mapsto> 0, dotdot_name \<mapsto> 0, hello_txt \<mapsto> 1] \<and>
    aq_list (task_queue e) = [0, 1] \<and> dom (tasks e) = {0, 1}"
proof -
  obtain u where u: "print_boot_info U B fmt_type off mm k = (Ret (), k\<lparr> SERIAL1 := Some u \<rparr>)"
    "console_ok uart_ready (k\<lparr> SERIAL1 := Some u \<rparr>)"
    "printed sent (k\<lparr> SERIAL1 := Some u \<rparr>) = printed sent k @ boot_report B fmt_type off mm"
    by (rule uart_spec.print_boot_info_run [OF uart])
  obtain k1 where k1: "kernel_memory G C stack_start X new_table cr3 P M B F off mm (k\<lparr> SERIAL1 := Some u \<rparr>) = (Ret (), k1)"
    "kernel_ready off P mapping m0 k1" "SERIAL1 k1 = Some u"
    using kernel_memory_run [OF gdt pages env off m0 frames, where C = C and F = F and k = "k\<lparr> SERIAL1 := Some u \<rparr>"] free
    by auto
  have "FRAME_ALLOCATOR k1 \<noteq> None" "console_ok uart_ready k1" "printed sent k1 = sent u"
    using k1(2,3) u(2) by (simp_all add: kernel_ready_def console_ok_def printed_def)
  with dev(2) obtain d u' fr h msg where d: "open_blk df k1 =
      (Ret d, k1\<lparr> SERIAL1 := Some u', FRAME_ALLOCATOR := Some fr, GLOBAL_ALLOCATOR := h \<rparr>)"
    "sent u' = sent u @ msg" "dev_ok d" "20 \<le> unat (capacity (VirtIOBlk_device V) d)"
    by metis
  obtain fs where fs: "boot_storage Z V reopen d = Ret (True, [Ok (FileHandler 1), Err Corrupt], fs)"
    "sfs_inv Z (superblock fs) (blocks (device fs))"
    "afs_dir (afs_of Z (superblock fs) (blocks (device fs))) = [dot_name \<mapsto> 0, dotdot_name \<mapsto> 0, hello_txt \<mapsto> 1]"
    using boot_storage_run [OF fs(1) d(3,4) fs(2)] by blast
  obtain e where e: "kernel_tasks Q 0 = Ret e" "aq_list (task_queue e) = [0, 1]"
    "tasks e = [0 \<mapsto> \<lparr> task_id = 0, future = ExampleTask \<rparr>, 1 \<mapsto> \<lparr> task_id = 1, future = KeyTask False \<rparr>]"
    using kernel_tasks_run [OF queue] by metis
  let ?k = "k1\<lparr> SERIAL1 := Some u', FRAME_ALLOCATOR := Some fr, GLOBAL_ALLOCATOR := h \<rparr>"
  have run: "kernel_main U fmt_type G C stack_start X new_table cr3 P M B F Z V enumerate_bus open_blk reopen Q off mm k =
      (Ret (Some (True, [Ok (FileHandler 1), Err Corrupt], fs), e), ?k)"
    using u(1) k1(1) dev(1) d(1) fs(1) e(1)
    by (simp add: kernel_main_def kernel_storage_def io_simps act_bind_def)
  have ready: "kernel_ready off P mapping m0 ?k" using k1(2) by (simp add: kernel_ready_def)
  have out: "printed sent ?k = printed sent k @ boot_report B fmt_type off mm @ msg" using u(3) d(2) by (simp add: printed_def)
  have "dom (tasks e) = {0, 1}" by (subst e(3)) auto
  with run ready out fs(2,3) e(2) show ?thesis by blast
qed

definition demo_kernel :: "(bool \<times> string, descriptor list, nat, unit, bool \<times> u64 \<times> u64,
    52 word \<Rightarrow> (40 word \<times> u64) option, LinkedListAllocator) kernel" where
  "demo_kernel = \<lparr> SERIAL1 = None, interrupt_flag = False, gdtr = None, cs_register = None, task_register = None,
     idtr = None, PICS = (), PHYSICAL_MEMORY_OFFSET = 0, FRAME_ALLOCATOR = None, PAGE_MAPPER = None,
     GLOBAL_ALLOCATOR = fsb_new (ll_fallback (\<lambda>_. ListNode_new 0)) (\<lambda>_. None) \<rparr>"

definition demo_open :: "DeviceFunction \<Rightarrow> ((bool \<times> string, 'g, 's, 'p, 'r, 'm, 'h) kernel, sector_disk) act" where
  "demo_open df k = (Ret (blank_disk 64), k\<lparr> SERIAL1 := Some (SERIAL1_get log_port k) \<rparr>)"

lemma demo_open_run:
  "FRAME_ALLOCATOR k \<noteq> None \<Longrightarrow> console_ok fst k \<Longrightarrow> \<exists>d u fr h msg.
    demo_open df k = (Ret d, k\<lparr> SERIAL1 := Some u, FRAME_ALLOCATOR := Some fr, GLOBAL_ALLOCATOR := h \<rparr>) \<and>
    snd u = printed snd k @ msg \<and> good_disk_ok d \<and> 20 \<le> unat (capacity (VirtIOBlk_device sector_driver) d)"
  by (intro exI [of _ "blank_disk 64"] exI [of _ "SERIAL1_get log_port k"] exI [of _ "the (FRAME_ALLOCATOR k)"]
      exI [of _ "GLOBAL_ALLOCATOR k"] exI [of _ "[]"])
    (auto simp: demo_open_def log_uart.SERIAL1_get_ready)

theorem kernel_boots_witness:
  "\<exists>fs e k'. kernel_main log_port (\<lambda>_. ''Usable'') list_gdt
      \<lparr> pics_new = (\<lambda>_ _. ()), pics_initialize = (\<lambda>p. p), notify_end_of_interrupt = (\<lambda>_ p. p) \<rparr> 0x200000
      x86_paging (\<lambda>_ _ _. None) 1 x86_pages table_mapper tuple_map (ll_fallback (\<lambda>_. ListNode_new 0)) le_zerocopy sector_driver
      (\<lambda>_. [(\<lparr> df_bus = 0, df_device = 4, df_function = 0 \<rparr>, \<lparr> vendor_id = 0x1AF4, device_id = 0x1001 \<rparr>)]) demo_open Ret list_queue
      0x10000000000 [(True, 0x1000, 0x101000)] demo_kernel =
      (Ret (Some (True, [Ok (FileHandler 1), Err Corrupt], fs), e), k') \<and>
    sfs_inv le_zerocopy (superblock fs) (sectors (device fs)) \<and> fst (task_queue e) = [0, 1]"
proof -
  let ?mm = "[(True, 0x1000, 0x101000)] :: (bool \<times> u64 \<times> u64) list"
  let ?bus = "\<lambda>_ :: u8. [(\<lparr> df_bus = 0, df_device = 4, df_function = 0 \<rparr>, \<lparr> vendor_id = 0x1AF4, device_id = 0x1001 \<rparr>)]"
  have inv: "boot_frames_inv x86_paging tuple_map ?mm (frame_allocator_init ?mm) {}"
    by (simp add: boot_frames_inv_def valid_memory_map_def tuple_map_def frame_allocator_init_def)
  have "length (frame_list x86_paging tuple_map ?mm) = 256"
    by (simp add: frame_list_def frame_addresses_def step_by_4096_def tuple_map_def del: upt_rec_numeral)
  then have left: "100 \<le> boot_frames_left tuple_map ?mm (frame_allocator_init ?mm)"
    by (simp add: boot_frames_left_def frame_allocator_init_def)
  have init: "memory_init x86_paging (\<lambda>_ _ (_ :: 52 word). None :: (40 word \<times> u64) option) 1 0x10000000000 = Ret (\<lambda>_. None)"
    by (simp add: memory_init_def active_level_4_table_def x86_paging_def add_ck_def)
  have scan: "scan ?bus = Some \<lparr> df_bus = 0, df_device = 4, df_function = 0 \<rparr>"
    by (simp add: scan_def upt_conv_Cons del: upt_rec_numeral)
  show ?thesis
    using kernel_boots [where k = demo_kernel and stack_start = "0x200000" and reopen = Ret and open_blk = demo_open
          and fmt_type = "\<lambda>_. ''Usable''" and F = "ll_fallback (\<lambda>_. ListNode_new 0)"
          and C = "\<lparr> pics_new = (\<lambda>_ _. ()), pics_initialize = (\<lambda>p. p), notify_end_of_interrupt = (\<lambda>_ p. p) \<rparr>",
        OF log_uart.uart_spec_axioms _ list_gdts.gdt_spec_axioms _ _ x86_pg.pages_spec_axioms
        boot_reliable.reliable_heap_env_axioms _ init inv left _ scan demo_open_run
        sfs_good_disk.reliable_sfs_env_axioms _ list_q.array_queue_spec_axioms]
    by (simp add: demo_kernel_def console_ok_def STACK_SIZE_def) blast
qed

end
