(* ===== verification/Typing.thy ===== *)
theory Typing
  imports Kernel
begin

section \<open>Typing at the running kernel\<close>

text \<open>
  The keyboard interrupt (\<open>src/src/interrupts.rs\<close>), \<open>add_scancode\<close> with its warnings
  (\<open>src/src/task/keyboard.rs\<close>) and the rounds of \<open>Executor::run\<close> (\<open>src/src/task/executor.rs\<close>) on one
  state: the queue the waker pushes to is the queue of the executor. Scan codes arrive in bursts
  between the rounds; arrivals in the middle of a poll are the subject of \<open>Keyboard\<close>.
\<close>

type_synonym ('q, 'tq, 'c, 'k, 'p) running = "(kernel_future, 'tq) Executor \<times> ('q, 'tq, 'c, 'k) task_world \<times> 'p"

abbreviation "full_warning \<equiv> code_points (''WARNING: SCANCODE_QUEUE full; dropping keyboard input'' @ newline)"
abbreviation "early_warning \<equiv> code_points (''WARNING: scancode queue uninitialized!'' @ newline)"

definition scancode_warning :: "(u8, 'q) array_queue \<Rightarrow> u8 \<Rightarrow> ('q, 'tq, 'c) kbd \<Rightarrow> u32 list" where
  "scancode_warning Q scancode s =
     (case SCANCODE_QUEUE s of
        None \<Rightarrow> early_warning
      | Some queue \<Rightarrow> (case fst (aq_push Q scancode queue) of Err _ \<Rightarrow> full_warning | Ok _ \<Rightarrow> []))"

definition keyboard_irq ::
    "(u8, 'q) array_queue \<Rightarrow> (TaskId, 'tq) array_queue \<Rightarrow> 'c atomic_waker \<Rightarrow> 'p pic_ops \<Rightarrow> u8
       \<Rightarrow> ('q, 'tq, 'c, 'k, 'p) running \<Rightarrow> ('q, 'tq, 'c, 'k, 'p) running outcome" where
  "keyboard_irq Q TQ A C scancode y =
     (case y of (e, w, pics) \<Rightarrow>
        let s = (keyboard w)\<lparr> exec_queue := task_queue e \<rparr> in
        bind_out (keyboard_interrupt Q TQ A C scancode s pics) (\<lambda>(s', pics').
        Ret (e\<lparr> task_queue := exec_queue s' \<rparr>,
             w\<lparr> keyboard := s', console_log := console_log w @ scancode_warning Q scancode s \<rparr>, pics')))"

fun keyboard_irqs ::
    "(u8, 'q) array_queue \<Rightarrow> (TaskId, 'tq) array_queue \<Rightarrow> 'c atomic_waker \<Rightarrow> 'p pic_ops \<Rightarrow> u8 list
       \<Rightarrow> ('q, 'tq, 'c, 'k, 'p) running \<Rightarrow> ('q, 'tq, 'c, 'k, 'p) running outcome" where
  "keyboard_irqs Q TQ A C [] y = Ret y"
| "keyboard_irqs Q TQ A C (c # cs) y = bind_out (keyboard_irq Q TQ A C c y) (keyboard_irqs Q TQ A C cs)"

text \<open>One burst before each round. \<open>None\<close>: a round does not end.\<close>

fun kernel_run ::
    "nat \<Rightarrow> (u8, 'q) array_queue \<Rightarrow> (TaskId, 'tq) array_queue \<Rightarrow> 'c atomic_waker \<Rightarrow> ('k, 'ev, 'code) key_decoder \<Rightarrow> 'p pic_ops
       \<Rightarrow> u8 list list \<Rightarrow> ('q, 'tq, 'c, 'k, 'p) running \<Rightarrow> ('q, 'tq, 'c, 'k, 'p) running outcome option" where
  "kernel_run fuel Q TQ A K C [] y = Some (Ret y)"
| "kernel_run fuel Q TQ A K C (cs # css) y =
     (case keyboard_irqs Q TQ A C cs y of
        Panic \<Rightarrow> Some Panic
      | Ret (e, w, pics) \<Rightarrow>
          (case run_ready_tasks TQ (kernel_poll fuel Q A K) e w of
             None \<Rightarrow> None
           | Some (Panic, _, _) \<Rightarrow> Some Panic
           | Some (Ret _, e', w') \<Rightarrow> kernel_run fuel Q TQ A K C css (e', w', pics)))"

subsection \<open>What appears on the console\<close>

text \<open>A round prints the first hundred scan codes of its burst; each further one is a warning.\<close>

fun typed :: "('k, 'ev, 'code) key_decoder \<Rightarrow> u8 list list \<Rightarrow> 'k \<Rightarrow> u32 list \<times> 'k" where
  "typed K [] k = ([], k)"
| "typed K (cs # css) k =
     (let (out, k1) = print_keys K (take 100 cs) k; (out', k2) = typed K css k1 in
      (concat (replicate (length cs - 100) full_warning) @ out @ out', k2))"

lemma print_keys_append:
  "print_keys K (cs @ cs') k =
     (let (out, k1) = print_keys K cs k; (out', k2) = print_keys K cs' k1 in (out @ out', k2))"
  by (induction cs arbitrary: k) (simp_all add: Let_def split: prod.splits)

lemma typed_short: "\<forall>cs\<in>set css. length cs \<le> 100 \<Longrightarrow> typed K css k = print_keys K (concat css) k"
  by (induction css arbitrary: k) (simp_all add: print_keys_append Let_def split: prod.splits)

abbreviation ack :: "'p pic_ops \<Rightarrow> 'p \<Rightarrow> 'p" where
  "ack C \<equiv> notify_end_of_interrupt C (as_u8 Keyboard)"

subsection \<open>A burst\<close>

lemma early_irqs:
  assumes "SCANCODE_QUEUE (keyboard w) = None"
  shows "\<exists>w'. keyboard_irqs Q TQ A C cs (e, w, p) = Ret (e, w', (ack C ^^ length cs) p) \<and>
    SCANCODE_QUEUE (keyboard w') = None \<and> crashed w' = crashed w \<and> decoder w' = decoder w \<and>
    console_log w' = console_log w @ concat (replicate (length cs) early_warning)"
  using assms
proof (induction cs arbitrary: w p)
  case (Cons c cs)
  let ?w = "w\<lparr> keyboard := (keyboard w)\<lparr> exec_queue := task_queue e \<rparr>, console_log := console_log w @ early_warning \<rparr>"
  have "keyboard_irq Q TQ A C c (e, w, p) = Ret (e, ?w, ack C p)"
    using Cons.prems by (simp add: keyboard_irq_def keyboard_interrupt_def add_scancode_def scancode_warning_def)
  then show ?case using Cons.IH [of ?w "ack C p"] Cons.prems by (auto simp: funpow_swap1)
qed simp

context keyboard_env
begin

abbreviation "waiting \<equiv> kernel_waiting sq_list sq_cap tq_list tq_cap aw_view"

lemma irq_step:
  assumes "waiting xs e w"
  shows "\<exists>e' w'. keyboard_irq Q TQ A C c (e, w, p) = Ret (e', w', ack C p) \<and> waiting (take 100 (xs @ [c])) e' w' \<and>
    decoder w' = decoder w \<and> console_log w' = console_log w @ (if length xs < 100 then [] else full_warning)"
proof -
  obtain q where q: "SCANCODE_QUEUE (keyboard w) = Some q" "sq_list q = xs" "sq_cap q = 100"
    and xs: "length xs \<le> 100" using assms by (auto simp: kernel_waiting_def)
  let ?s = "(keyboard w)\<lparr> exec_queue := task_queue e \<rparr>"
  show ?thesis
  proof (cases "length xs < 100")
    case False
    then have full: "aq_push Q c q = (Err c, q)" "length xs = 100" using sq.push_full [of q c] q xs by simp_all
    have "?s\<lparr> SCANCODE_QUEUE := Some q \<rparr> = ?s" using q(1) by simp
    then have "keyboard_irq Q TQ A C c (e, w, p) =
        Ret (e, w\<lparr> keyboard := ?s, console_log := console_log w @ full_warning \<rparr>, ack C p)"
      using q full by (simp add: keyboard_irq_def keyboard_interrupt_def add_scancode_def scancode_warning_def)
    then show ?thesis using assms full False by (auto simp: kernel_waiting_def)
  next
    case True
    obtain q' where q': "aq_push Q c q = (Ok (), q')" "sq_list q' = xs @ [c]" "sq_cap q' = 100"
      using sq.push_ok [of q c] q True by auto
    obtain a where a: "aw_take A (SCANCODE_WAKER (keyboard w)) = (aw_view (SCANCODE_WAKER (keyboard w)), a)" "aw_view a = None"
      using take_law by blast
    have "\<exists>tq. wake_registered TQ A (?s\<lparr> SCANCODE_QUEUE := Some q' \<rparr>) =
        Ret (?s\<lparr> SCANCODE_QUEUE := Some q', SCANCODE_WAKER := a, exec_queue := tq \<rparr>) \<and> tq_list tq = [1] \<and> tq_cap tq = 100"
    proof (cases "xs = []")
      case True
      then show ?thesis
        using assms a tq.push_ok [of "task_queue e" 1] by (auto simp: kernel_waiting_def wake_registered_def wake_task_def)
    next
      case False
      then show ?thesis
        using assms a by (intro exI [of _ "task_queue e"]) (simp add: kernel_waiting_def wake_registered_def)
    qed
    then obtain tq where tq: "wake_registered TQ A (?s\<lparr> SCANCODE_QUEUE := Some q' \<rparr>) =
        Ret (?s\<lparr> SCANCODE_QUEUE := Some q', SCANCODE_WAKER := a, exec_queue := tq \<rparr>)" "tq_list tq = [1]" "tq_cap tq = 100"
      by blast
    let ?w = "w\<lparr> keyboard := ?s\<lparr> SCANCODE_QUEUE := Some q', SCANCODE_WAKER := a, exec_queue := tq \<rparr> \<rparr>"
    have "keyboard_irq Q TQ A C c (e, w, p) = Ret (e\<lparr> task_queue := tq \<rparr>, ?w, ack C p)"
      using q q' tq(1) by (simp add: keyboard_irq_def keyboard_interrupt_def add_scancode_def scancode_warning_def)
    moreover have "waiting (take 100 (xs @ [c])) (e\<lparr> task_queue := tq \<rparr>) ?w"
      using assms q' a(2) tq(2,3) True by (simp add: kernel_waiting_def)
    ultimately show ?thesis using True by (intro exI [of _ "e\<lparr> task_queue := tq \<rparr>"] exI [of _ ?w]) simp
  qed
qed

lemma irqs_run:
  assumes "waiting xs e w"
  shows "\<exists>e' w'. keyboard_irqs Q TQ A C cs (e, w, p) = Ret (e', w', (ack C ^^ length cs) p) \<and>
    waiting (take 100 (xs @ cs)) e' w' \<and> decoder w' = decoder w \<and>
    console_log w' = console_log w @ concat (replicate (length (xs @ cs) - 100) full_warning)"
  using assms
proof (induction cs arbitrary: xs e w p)
  case Nil
  then show ?case by (auto simp: kernel_waiting_def)
next
  case (Cons c cs)
  obtain e1 w1 where 1: "keyboard_irq Q TQ A C c (e, w, p) = Ret (e1, w1, ack C p)" "waiting (take 100 (xs @ [c])) e1 w1"
    "decoder w1 = decoder w" "console_log w1 = console_log w @ (if length xs < 100 then [] else full_warning)"
    using irq_step [OF Cons.prems, of C c p] by blast
  have xs: "length xs \<le> 100" using Cons.prems by (simp add: kernel_waiting_def)
  then have "take 100 (take 100 (xs @ [c]) @ cs) = take 100 (xs @ c # cs)"
    by (cases "length xs < 100") (simp_all add: min_def)
  moreover have "concat (replicate (length (xs @ c # cs) - 100) full_warning) =
      (if length xs < 100 then [] else full_warning) @ concat (replicate (length (take 100 (xs @ [c]) @ cs) - 100) full_warning)"
    using xs by (cases "length xs < 100") (simp_all add: min_def Suc_diff_le)
  ultimately show ?case
    using Cons.IH [OF 1(2), of "ack C p"] 1 by (auto simp: funpow_swap1)
qed

text \<open>A round prints what waits and leaves nothing waiting.\<close>

lemma round_run:
  assumes "waiting xs e w" and fuel: "100 < fuel"
  shows "\<exists>e' w'. run_ready_tasks TQ (kernel_poll fuel Q A K) e w = Some (Ret (), e', w') \<and> waiting [] e' w' \<and>
    decoder w' = snd (print_keys K xs (decoder w)) \<and> console_log w' = console_log w @ fst (print_keys K xs (decoder w))"
proof (cases "xs = []")
  case True
  then have "aq_pop TQ (task_queue e) = (None, task_queue e)" using assms by (intro tq.pop_none) (simp add: kernel_waiting_def)
  then have "run_ready_tasks TQ (kernel_poll fuel Q A K) e w = Some (Ret (), e, w)"
    by (subst run_ready_tasks.simps) simp
  then show ?thesis using assms True by auto
next
  case False
  obtain q where q: "SCANCODE_QUEUE (keyboard w) = Some q" "sq_list q = xs" "sq_cap q = 100" "length xs \<le> 100"
    using assms by (auto simp: kernel_waiting_def)
  have e: "tasks e = [1 \<mapsto> \<lparr> task_id = 1, future = KeyTask True \<rparr>]" "waker_cache e = [1 \<mapsto> TaskWaker 1]"
    "tq_list (task_queue e) = [1]" "tq_cap (task_queue e) = 100" "\<not> crashed w"
    using assms False by (simp_all add: kernel_waiting_def)
  obtain tq where tq: "aq_pop TQ (task_queue e) = (Some 1, tq)" "tq_list tq = []" "tq_cap tq = 100"
    using tq.pop_some [OF e(3)] e(4) by auto
  obtain s' q' where s': "print_keypresses fuel Q A K (TaskWaker 1) (keyboard w) (decoder w) =
      Ret (Some (fst (print_keys K xs (decoder w)), s', snd (print_keys K xs (decoder w))))"
    "SCANCODE_QUEUE s' = Some q'" "sq_list q' = []" "sq_cap q' = 100" "aw_view (SCANCODE_WAKER s') = Some (TaskWaker 1)"
    using print_keypresses_run [OF q(1), of fuel K "TaskWaker 1" "decoder w"] q fuel by auto
  let ?e = "e\<lparr> tasks := [1 \<mapsto> \<lparr> task_id = 1, future = KeyTask True \<rparr>], task_queue := tq,
    waker_cache := [1 \<mapsto> TaskWaker 1] \<rparr>"
  let ?w = "w\<lparr> keyboard := s', decoder := snd (print_keys K xs (decoder w)),
    console_log := console_log w @ fst (print_keys K xs (decoder w)) \<rparr>"
  have "run_ready_tasks TQ (kernel_poll fuel Q A K) e w = run_ready_tasks TQ (kernel_poll fuel Q A K) ?e ?w"
    using e tq(1) s'(1) by (subst run_ready_tasks.simps) (simp add: Task_poll_def kernel_poll_def Let_def)
  also have "\<dots> = Some (Ret (), ?e, ?w)" using tq.pop_none [OF tq(2)] by (subst run_ready_tasks.simps) simp
  finally show ?thesis
    using e s' tq(2,3) by (intro exI [of _ ?e] exI [of _ ?w]) (simp add: kernel_waiting_def)
qed

lemma kernel_run_typed:
  assumes "waiting [] e w" and "100 < fuel"
  shows "\<exists>e' w'. kernel_run fuel Q TQ A K C css (e, w, p) = Some (Ret (e', w', (ack C ^^ length (concat css)) p)) \<and>
    waiting [] e' w' \<and> console_log w' = console_log w @ fst (typed K css (decoder w))"
  using assms(1)
proof (induction css arbitrary: e w p)
  case (Cons cs css)
  obtain e1 w1 where 1: "keyboard_irqs Q TQ A C cs (e, w, p) = Ret (e1, w1, (ack C ^^ length cs) p)"
    "waiting (take 100 cs) e1 w1" "decoder w1 = decoder w"
    "console_log w1 = console_log w @ concat (replicate (length cs - 100) full_warning)"
    using irqs_run [OF Cons.prems, of C cs p] by auto
  obtain e2 w2 where 2: "run_ready_tasks TQ (kernel_poll fuel Q A K) e1 w1 = Some (Ret (), e2, w2)" "waiting [] e2 w2"
    "decoder w2 = snd (print_keys K (take 100 cs) (decoder w))"
    "console_log w2 = console_log w1 @ fst (print_keys K (take 100 cs) (decoder w))"
    using round_run [OF 1(2) assms(2), of K] 1(3) by auto
  have "(ack C ^^ length (concat css)) ((ack C ^^ length cs) p) = (ack C ^^ length (concat (cs # css))) p"
    by (metis add.commute comp_apply concat.simps(2) funpow_add length_append)
  then show ?case
    using Cons.IH [OF 2(2), of "(ack C ^^ length cs) p"] 1 2 by (auto simp: Let_def split: prod.splits)
qed simp

end

subsection \<open>Properties\<close>

text \<open>
  C6: What is typed is printed. From the spawning of the two tasks on, whatever bursts of scan codes
  arrive between the rounds, every round ends and nothing panics; the console shows one warning for
  each scan code before the first round, then the number of the example task, then what the scan
  codes decode to, in the order they were typed, round by round. Of a burst only the first hundred
  scan codes fit the queue, and each further one shows a warning instead; if no burst is longer,
  nothing is lost. Every interrupt is acknowledged, and the kernel ends up waiting for the next one.
\<close>

theorem typed_is_printed:
  assumes env: "keyboard_env Q sq_list sq_cap TQ tq_list tq_cap A aw_view"
    and start: "SCANCODE_QUEUE (keyboard w) = None" "\<not> crashed w" and fuel: "100 < fuel"
  shows "\<exists>e e' w'. kernel_tasks TQ 0 = Ret e \<and>
    kernel_run fuel Q TQ A K C (early # css) (e, w, p) =
      Some (Ret (e', w', (notify_end_of_interrupt C 33 ^^ (length early + length (concat css))) p)) \<and>
    console_log w' = console_log w @ concat (replicate (length early) early_warning) @
      code_points (''async number: 69'' @ newline) @ fst (typed K css (decoder w)) \<and>
    ((\<forall>cs\<in>set css. length cs \<le> 100) \<longrightarrow> typed K css (decoder w) = print_keys K (concat css) (decoder w)) \<and>
    kernel_waiting sq_list sq_cap tq_list tq_cap aw_view [] e' w'"
proof -
  have "array_queue_spec TQ tq_list tq_cap" using env by (simp add: keyboard_env_def)
  then obtain e where e: "kernel_tasks TQ 0 = Ret e" "tq_list (task_queue e) = [0, 1]" "waker_cache e = Map.empty"
    "tq_cap (task_queue e) = 100"
    "tasks e = [0 \<mapsto> \<lparr> task_id = 0, future = ExampleTask \<rparr>, 1 \<mapsto> \<lparr> task_id = 1, future = KeyTask False \<rparr>]"
    by (rule kernel_tasks_run)
  obtain w1 where w1: "keyboard_irqs Q TQ A C early (e, w, p) = Ret (e, w1, (ack C ^^ length early) p)"
    "SCANCODE_QUEUE (keyboard w1) = None" "\<not> crashed w1" "decoder w1 = decoder w"
    "console_log w1 = console_log w @ concat (replicate (length early) early_warning)"
    using early_irqs [OF start(1), of Q TQ A C early e p] start(2) by auto
  obtain e2 w2 where 2: "run_ready_tasks TQ (kernel_poll fuel Q A K) e w1 = Some (Ret (), e2, w2)"
    "console_log w2 = console_log w1 @ code_points (''async number: 69'' @ newline)" "decoder w2 = decoder w"
    "kernel_waiting sq_list sq_cap tq_list tq_cap aw_view [] e2 w2"
    using first_round_run [OF env e(2-5) w1(2) _ w1(3), of fuel K] fuel w1(4) by auto
  obtain e3 w3 where 3: "kernel_run fuel Q TQ A K C css (e2, w2, (ack C ^^ length early) p) =
      Some (Ret (e3, w3, (ack C ^^ length (concat css)) ((ack C ^^ length early) p)))"
    "kernel_waiting sq_list sq_cap tq_list tq_cap aw_view [] e3 w3"
    "console_log w3 = console_log w2 @ fst (typed K css (decoder w))"
    using keyboard_env.kernel_run_typed [OF env 2(4) fuel, of K C css] 2(3) by metis
  have "(ack C ^^ length (concat css)) ((ack C ^^ length early) p) = (ack C ^^ (length early + length (concat css))) p"
    by (metis add.commute comp_apply funpow_add)
  then have "kernel_run fuel Q TQ A K C (early # css) (e, w, p) =
      Some (Ret (e3, w3, (notify_end_of_interrupt C 33 ^^ (length early + length (concat css))) p))"
    using w1(1) 2(1) 3(1) by (simp add: PIC_1_OFFSET_def)
  moreover have "console_log w3 = console_log w @ concat (replicate (length early) early_warning) @
      code_points (''async number: 69'' @ newline) @ fst (typed K css (decoder w))"
    using 3(3) 2(2) w1(5) by simp
  ultimately show ?thesis using e(1) 3(2) typed_short [of css K "decoder w"] by blast
qed

theorem typed_is_printed_witness:
  "\<exists>e e' w'. kernel_tasks list_queue 0 = Ret e \<and>
    kernel_run 101 list_queue list_queue cell_waker
      \<lparr> add_byte = (\<lambda>c (k::unit). (Ok (Some c), k)), process_keyevent = (\<lambda>c k. (Some (Unicode (ucast c) :: unit DecodedKey), k)) \<rparr>
      \<lparr> pics_new = (\<lambda>_ _. 0), pics_initialize = (\<lambda>p. p), notify_end_of_interrupt = (\<lambda>_ p. p + 1) \<rparr>
      [[7], [65, 66], [], [67]]
      (e, \<lparr> keyboard = \<lparr> SCANCODE_QUEUE = None, SCANCODE_WAKER = None, exec_queue = ([], 100) \<rparr>, decoder = (),
        console_log = [], crashed = False \<rparr>, 0) = Some (Ret (e', w', (4::nat))) \<and>
    console_log w' = early_warning @ code_points (''async number: 69'' @ newline) @ [65, 66, 67]"
proof -
  let ?K = "\<lparr> add_byte = (\<lambda>c (k::unit). (Ok (Some c), k)), process_keyevent = (\<lambda>c k. (Some (Unicode (ucast c) :: unit DecodedKey), k)) \<rparr>"
  let ?C = "\<lparr> pics_new = (\<lambda>_ _. 0), pics_initialize = (\<lambda>p. p), notify_end_of_interrupt = (\<lambda>_ p. p + (1::nat)) \<rparr>"
  let ?w = "\<lparr> keyboard = \<lparr> SCANCODE_QUEUE = None, SCANCODE_WAKER = None, exec_queue = ([], 100) \<rparr>, decoder = (),
    console_log = [], crashed = False \<rparr>"
  have "fst (typed ?K [[65, 66], [], [67]] ()) = [65, 66, 67]"
    by (simp add: typed_short print_key_def)
  then show ?thesis
    using typed_is_printed [OF cell_kbd.keyboard_env_axioms, of ?w 101 ?K ?C "[7]" "[[65, 66], [], [67]]" 0]
    by (auto simp: numeral_eq_Suc simp del: kernel_run.simps typed.simps)
qed

end
