(* ===== verification/Test_Harness.thy ===== *)
theory Test_Harness
  imports Interrupts
begin

section \<open>The test harness (\<open>src/src/lib.rs\<close>, \<open>src/tests/\<close>)\<close>

text \<open>
  How tests are run and how their verdict leaves the emulator: the runner of the library, its panic
  handler, the runner of \<open>should_panic\<close> and the program \<open>stack_overflow\<close>. Writing to port 0xf4
  ends the emulator with the status \<open>(code << 1) | 1\<close>; \<open>Cargo.toml\<close> takes 33 for success. The model
  records all writes to the port; the first one counts.
\<close>

datatype QemuExitCode = Success | Failed

fun exit_code :: "QemuExitCode \<Rightarrow> u32" where
  "exit_code Success = 0x10"
| "exit_code Failed = 0x11"

record ('u, 'g, 's, 'h, 'p) emulated = "('u, 'g, 's, 'h, 'p) machine" +
  port_f4 :: "u32 list"

definition exit_qemu :: "QemuExitCode \<Rightarrow> (('u, 'g, 's, 'h, 'p, 'z) emulated_scheme, unit) act" where
  "exit_qemu code = act_modify (\<lambda>m. m\<lparr> port_f4 := port_f4 m @ [exit_code code] \<rparr>)"

definition exit_status :: "('u, 'g, 's, 'h, 'p, 'z) emulated_scheme \<Rightarrow> nat option" where
  "exit_status m = (case port_f4 m of [] \<Rightarrow> None | c # _ \<Rightarrow> Some (unat c * 2 + 1))"

text \<open>A test is a function and the name of its type.\<close>

type_synonym 'm test = "string \<times> ('m, unit) act"

definition tab :: string where "tab = [char_of (9::nat)]"

definition Testable_run ::
    "'u uart \<Rightarrow> ('u, 'g, 's, 'h, 'p, 'z) emulated_scheme test \<Rightarrow> (('u, 'g, 's, 'h, 'p, 'z) emulated_scheme, unit) act" where
  "Testable_run U t =
     act_bind (serial_print U [fst t, ''....'', tab]) (\<lambda>_.
     act_bind (snd t) (\<lambda>_.
     serial_println U [''[ok]'']))"

fun run_tests ::
    "'u uart \<Rightarrow> ('u, 'g, 's, 'h, 'p, 'z) emulated_scheme test list \<Rightarrow> (('u, 'g, 's, 'h, 'p, 'z) emulated_scheme, unit) act" where
  "run_tests U [] = act_return ()"
| "run_tests U (t # ts) = act_bind (Testable_run U t) (\<lambda>_. run_tests U ts)"

definition test_runner ::
    "'u uart \<Rightarrow> ('u, 'g, 's, 'h, 'p, 'z) emulated_scheme test list \<Rightarrow> (('u, 'g, 's, 'h, 'p, 'z) emulated_scheme, unit) act" where
  "test_runner U tests =
     act_bind (serial_println U [''Running '', fmt_dec (length tests), '' tests'']) (\<lambda>_.
     act_bind (run_tests U tests) (\<lambda>_.
     exit_qemu Success))"

text \<open>\<open>info\<close> is the message of the panic. The handler then halts.\<close>

definition test_panic_handler ::
    "'u uart \<Rightarrow> string \<Rightarrow> (('u, 'g, 's, 'h, 'p, 'z) emulated_scheme, unit) act" where
  "test_panic_handler U info =
     act_bind (serial_println U [''[failed] '', newline]) (\<lambda>_.
     act_bind (serial_println U [''Error: '', info, '' '', newline]) (\<lambda>_.
     act_bind (exit_qemu Failed) (\<lambda>_.
     serial_println U [''QemuExitCode::Failed didn'', [char_of (39::nat)], ''t work''])))"

text \<open>A program and what its panic handler does; both end in a loop that does nothing.\<close>

definition program_end :: "('m, unit) act \<Rightarrow> ('m, unit) act \<Rightarrow> 'm \<Rightarrow> 'm" where
  "program_end start panic m = (case start m of (Ret _, m') \<Rightarrow> m' | (Panic, m') \<Rightarrow> snd (panic m'))"

text \<open>\<open>test_kernel_main\<close> of the library; \<open>_start\<close> of \<open>basic_boot\<close> has no \<open>init\<close>.\<close>

definition test_kernel_main ::
    "'u uart \<Rightarrow> ('g, 'd, 's) gdt_ops \<Rightarrow> 'p pic_ops \<Rightarrow> u64 \<Rightarrow> ('u, 'g, 's, handler, 'p, 'z) emulated_scheme test list
       \<Rightarrow> string \<Rightarrow> ('u, 'g, 's, handler, 'p, 'z) emulated_scheme \<Rightarrow> ('u, 'g, 's, handler, 'p, 'z) emulated_scheme" where
  "test_kernel_main U G C stack_start tests info =
     program_end (act_bind (lib_init G C stack_start) (\<lambda>_. test_runner U tests)) (test_panic_handler U info)"

definition basic_boot ::
    "'u uart \<Rightarrow> string \<Rightarrow> ('u, 'g, 's, 'h, 'p, 'z) emulated_scheme \<Rightarrow> ('u, 'g, 's, 'h, 'p, 'z) emulated_scheme" where
  "basic_boot U info =
     program_end (test_runner U [(''basic_boot::test_println'', println U [''println! works fine!''])])
       (test_panic_handler U info)"

text \<open>Test cases of the library and of \<open>main.rs\<close>.\<close>

definition assert_eq :: "'a \<Rightarrow> 'a \<Rightarrow> ('m, unit) act" where
  "assert_eq a b = (if a = b then act_return () else act_out Panic)"

definition one_one_assertion :: "('m, unit) act" where
  "one_one_assertion = assert_eq (1::int) 1"

definition test_println_simple :: "'u uart \<Rightarrow> (('u, 'z) console_scheme, unit) act" where
  "test_println_simple U = println U [''test_println_simple output'']"

fun repeat_act :: "nat \<Rightarrow> ('m, unit) act \<Rightarrow> ('m, unit) act" where
  "repeat_act 0 a = act_return ()"
| "repeat_act (Suc n) a = act_bind a (\<lambda>_. repeat_act n a)"

definition test_println_many :: "'u uart \<Rightarrow> (('u, 'z) console_scheme, unit) act" where
  "test_println_many U = repeat_act 200 (println U [''test_println_many output''])"

text \<open>The instruction \<open>int3\<close> raises vector 3; \<open>None\<close>: the machine resets.\<close>

definition test_breakpoint_exception ::
    "'u uart \<Rightarrow> ('frame \<Rightarrow> string) \<Rightarrow> 'frame \<Rightarrow> ('g \<Rightarrow> 's \<Rightarrow> 'd option) \<Rightarrow> ('d \<Rightarrow> TaskStateSegment option) \<Rightarrow> (u64 \<Rightarrow> bool)
       \<Rightarrow> u64 \<Rightarrow> ('u, 'g, 's, handler, 'p, 'z) machine_scheme \<Rightarrow> ('u, 'g, 's, handler, 'p, 'z) machine_scheme handled option" where
  "test_breakpoint_exception U fmt stack_frame lookup tss_of usable rsp m =
     (case deliver lookup tss_of usable m rsp 3 of
        Runs breakpoint_handler _ \<Rightarrow> Some (breakpoint_exception U fmt stack_frame m)
      | Runs _ _ \<Rightarrow> Some (double_fault_exception U fmt stack_frame 0 m)
      | TripleFault \<Rightarrow> None)"

subsection \<open>Tests that must panic, and a stack overflow\<close>

fun panic_loop ::
    "'u uart \<Rightarrow> (('u, 'g, 's, 'h, 'p, 'z) emulated_scheme, unit) act list \<Rightarrow> (('u, 'g, 's, 'h, 'p, 'z) emulated_scheme, unit) act" where
  "panic_loop U [] = act_return ()"
| "panic_loop U (t # ts) =
     act_bind t (\<lambda>_.
     act_bind (serial_println U [''[test did not panic]'']) (\<lambda>_.
     act_bind (exit_qemu Failed) (\<lambda>_.
     panic_loop U ts)))"

definition should_panic_runner ::
    "'u uart \<Rightarrow> (('u, 'g, 's, 'h, 'p, 'z) emulated_scheme, unit) act list \<Rightarrow> (('u, 'g, 's, 'h, 'p, 'z) emulated_scheme, unit) act" where
  "should_panic_runner U tests =
     act_bind (serial_println U [''Running '', fmt_dec (length tests), '' tests..'']) (\<lambda>_.
     act_bind (panic_loop U tests) (\<lambda>_.
     exit_qemu Success))"

definition should_panic_handler :: "'u uart \<Rightarrow> (('u, 'g, 's, 'h, 'p, 'z) emulated_scheme, unit) act" where
  "should_panic_handler U = act_bind (serial_println U [''[ok]'']) (\<lambda>_. exit_qemu Success)"

definition should_fail :: "'u uart \<Rightarrow> (('u, 'z) console_scheme, unit) act" where
  "should_fail U = act_bind (serial_print U [''should_panic::should_fail...'', tab]) (\<lambda>_. assert_eq (0::int) 1)"

definition should_panic ::
    "'u uart \<Rightarrow> (('u, 'g, 's, 'h, 'p, 'z) emulated_scheme, unit) act list
       \<Rightarrow> ('u, 'g, 's, 'h, 'p, 'z) emulated_scheme \<Rightarrow> ('u, 'g, 's, 'h, 'p, 'z) emulated_scheme" where
  "should_panic U tests = program_end (should_panic_runner U tests) (should_panic_handler U)"

datatype test_handler = test_double_fault_handler

definition TEST_IDT :: "test_handler idt" where
  "TEST_IDT = Map.empty(8 \<mapsto> (test_double_fault_handler, Some DOUBLE_FAULT_IST_INDEX))"

definition test_double_fault :: "'u uart \<Rightarrow> (('u, 'g, 's, 'h, 'p, 'z) emulated_scheme, unit) act" where
  "test_double_fault U = act_bind (serial_println U [''[ok]'']) (\<lambda>_. exit_qemu Success)"

text \<open>
  The unbounded recursion runs into the guard page below the stack: a page fault (vector 14) with a
  stack pointer at which nothing can be pushed. \<open>None\<close>: the machine resets.
\<close>

definition stack_overflow_test ::
    "'u uart \<Rightarrow> ('g, 'd, 's) gdt_ops \<Rightarrow> ('g \<Rightarrow> 's \<Rightarrow> 'd option) \<Rightarrow> ('d \<Rightarrow> TaskStateSegment option) \<Rightarrow> (u64 \<Rightarrow> bool)
       \<Rightarrow> u64 \<Rightarrow> u64 \<Rightarrow> ('u, 'g, 's, test_handler, 'p, 'z) emulated_scheme
       \<Rightarrow> (unit outcome \<times> ('u, 'g, 's, test_handler, 'p, 'z) emulated_scheme) option" where
  "stack_overflow_test U G lookup tss_of usable stack_start guard m =
     (case act_bind (serial_print U [''stack_overflow::stack_overflow...'', tab]) (\<lambda>_.
           act_bind (gdt_init G stack_start) (\<lambda>_.
           act_modify (\<lambda>m. m\<lparr> idtr := Some TEST_IDT \<rparr>))) m of
        (Panic, m') \<Rightarrow> Some (Panic, m')
      | (Ret _, m') \<Rightarrow>
          (case deliver lookup tss_of usable m' guard 14 of
             Runs test_double_fault_handler _ \<Rightarrow> Some (test_double_fault U m')
           | TripleFault \<Rightarrow> None))"

subsection \<open>Verdicts\<close>

text \<open>What is known of an action: whether it returns or panics, what it prints, and what it writes
  to the exit port.\<close>

definition behaves ::
    "('u \<Rightarrow> bool) \<Rightarrow> ('u \<Rightarrow> string) \<Rightarrow> (('u, 'g, 's, 'h, 'p, 'z) emulated_scheme, unit) act
       \<Rightarrow> bool \<Rightarrow> string \<Rightarrow> u32 list \<Rightarrow> bool" where
  "behaves uart_ready sent a ok msg exits \<longleftrightarrow>
     (\<forall>m. console_ok uart_ready m \<longrightarrow>
        (\<exists>m'. a m = (if ok then Ret () else Panic, m') \<and> console_ok uart_ready m' \<and>
           printed sent m' = printed sent m @ msg \<and> port_f4 m' = port_f4 m @ exits))"

fun test_log :: "('m test \<Rightarrow> bool) \<Rightarrow> ('m test \<Rightarrow> string) \<Rightarrow> 'm test list \<Rightarrow> string" where
  "test_log ok msg [] = []"
| "test_log ok msg (t # ts) =
     fst t @ ''....'' @ tab @ msg t @ (if ok t then ''[ok]'' @ newline @ test_log ok msg ts else [])"

definition failure_log :: "string \<Rightarrow> string" where
  "failure_log info =
     ''[failed] '' @ newline @ newline @ ''Error: '' @ info @ '' '' @ newline @ newline @
     ''QemuExitCode::Failed didn'' @ [char_of (39::nat)] @ ''t work'' @ newline"

lemma behavesE:
  assumes "behaves uart_ready sent a ok msg exits" "console_ok uart_ready m"
  obtains m' where "a m = (if ok then Ret () else Panic, m')" "console_ok uart_ready m'"
    "printed sent m' = printed sent m @ msg" "port_f4 m' = port_f4 m @ exits"
  using assms by (auto simp: behaves_def)

lemma behaves_bind:
  assumes "behaves uart_ready sent a True msg exits" "behaves uart_ready sent (f ()) ok msg' exits'"
  shows "behaves uart_ready sent (act_bind a f) ok (msg @ msg') (exits @ exits')"
  unfolding behaves_def
proof (intro allI impI)
  fix m :: "('a, 'b, 'c, 'd, 'e, 'f) emulated_scheme"
  assume "console_ok uart_ready m"
  with assms(1) obtain m1 where m1: "a m = (Ret (), m1)" "console_ok uart_ready m1"
    "printed sent m1 = printed sent m @ msg" "port_f4 m1 = port_f4 m @ exits"
    by (rule behavesE) simp
  from assms(2) m1(2) obtain m2 where "f () m1 = (if ok then Ret () else Panic, m2)" "console_ok uart_ready m2"
    "printed sent m2 = printed sent m1 @ msg'" "port_f4 m2 = port_f4 m1 @ exits'"
    by (rule behavesE)
  then show "\<exists>m'. act_bind a f m = (if ok then Ret () else Panic, m') \<and> console_ok uart_ready m' \<and>
      printed sent m' = printed sent m @ msg @ msg' \<and> port_f4 m' = port_f4 m @ exits @ exits'"
    using m1 by (simp add: act_bind_def)
qed

lemma behaves_panic:
  "behaves uart_ready sent a False msg exits \<Longrightarrow> behaves uart_ready sent (act_bind a f) False msg exits"
  by (fastforce simp: behaves_def act_bind_def)

lemma behaves_seq:
  assumes "behaves uart_ready sent a ok msg exits" "behaves uart_ready sent (f ()) ok' msg' exits'"
  shows "behaves uart_ready sent (act_bind a f) (ok \<and> ok') (msg @ (if ok then msg' else []))
    (exits @ (if ok then exits' else []))"
  using assms behaves_bind [of uart_ready sent a "msg" exits f] behaves_panic [of uart_ready sent a "msg" exits f]
  by (cases ok) simp_all

lemma behaves_eq:
  "\<lbrakk>behaves uart_ready sent a ok msg exits; ok = ok'; msg = msg'; exits = exits'\<rbrakk> \<Longrightarrow>
    behaves uart_ready sent a ok' msg' exits'"
  by simp

lemma behaves_return: "behaves uart_ready sent (act_return ()) True [] []"
  by (simp add: behaves_def act_return_def)

lemma behaves_assert: "behaves uart_ready sent (assert_eq a b) (a = b) [] []"
  by (simp add: behaves_def assert_eq_def act_return_def act_out_def)

lemma behaves_exit: "behaves uart_ready sent (exit_qemu c) True [] [exit_code c]"
  by (simp add: behaves_def exit_qemu_def act_modify_def console_ok_def printed_def)

lemma program_end_run:
  assumes "behaves uart_ready sent start ok msg exits" "console_ok uart_ready m"
    "behaves uart_ready sent panic True msg' exits'"
  shows "\<exists>m'. program_end start panic m = m' \<and> printed sent m' = printed sent m @ msg @ (if ok then [] else msg') \<and>
    port_f4 m' = port_f4 m @ exits @ (if ok then [] else exits')"
proof -
  obtain m1 where m1: "start m = (if ok then Ret () else Panic, m1)" "console_ok uart_ready m1"
    "printed sent m1 = printed sent m @ msg" "port_f4 m1 = port_f4 m @ exits"
    by (rule behavesE [OF assms(1,2)])
  obtain m2 where "panic m1 = (Ret (), m2)" "printed sent m2 = printed sent m1 @ msg'" "port_f4 m2 = port_f4 m1 @ exits'"
    using behavesE [OF assms(3) m1(2)] by auto
  then show ?thesis using m1 by (simp add: program_end_def)
qed

context uart_spec
begin

lemma behaves_print:
  "behaves uart_ready sent (serial_print U args) True (concat args) []"
  "behaves uart_ready sent (print U args) True (concat args) []"
  "behaves uart_ready sent (serial_println U args) True (concat args @ newline) []"
  "behaves uart_ready sent (println U args) True (concat args @ newline) []"
proof -
  have *: "behaves uart_ready sent (serial_print U args) True (concat args) []" for args
    unfolding behaves_def
    by (intro allI impI, drule serial_print_run [where args = args], elim exE conjE)
      (simp add: console_ok_def printed_def)
  show "behaves uart_ready sent (serial_print U args) True (concat args) []"
    "behaves uart_ready sent (print U args) True (concat args) []"
    "behaves uart_ready sent (serial_println U args) True (concat args @ newline) []"
    "behaves uart_ready sent (println U args) True (concat args @ newline) []"
    using * [of args] * [of "args @ [newline]"]
    by (simp_all add: print_def println_def serial_println_def)
qed

lemma behaves_Testable_run:
  assumes "behaves uart_ready sent (snd t) ok msg []"
  shows "behaves uart_ready sent (Testable_run U t) ok
    (fst t @ ''....'' @ tab @ msg @ (if ok then ''[ok]'' @ newline else [])) []"
  unfolding Testable_run_def
  by (rule behaves_eq, rule behaves_seq [OF behaves_print(1) behaves_seq [OF assms behaves_print(3)]]) simp_all

lemma behaves_run_tests:
  assumes "\<And>t. t \<in> set ts \<Longrightarrow> behaves uart_ready sent (snd t) (ok t) (msg t) []"
  shows "behaves uart_ready sent (run_tests U ts) (\<forall>t\<in>set ts. ok t) (test_log ok msg ts) []"
  using assms
proof (induction ts)
  case Nil
  show ?case using behaves_return by simp
next
  case (Cons t ts)
  have hd: "behaves uart_ready sent (snd t) (ok t) (msg t) []" using Cons.prems by simp
  have tl: "behaves uart_ready sent (run_tests U ts) (\<forall>t\<in>set ts. ok t) (test_log ok msg ts) []"
    using Cons by simp
  show ?case
    unfolding run_tests.simps
    by (rule behaves_eq, rule behaves_seq [OF behaves_Testable_run [OF hd] tl]) simp_all
qed

lemma behaves_test_runner:
  assumes "\<And>t. t \<in> set ts \<Longrightarrow> behaves uart_ready sent (snd t) (ok t) (msg t) []"
  shows "behaves uart_ready sent (test_runner U ts) (\<forall>t\<in>set ts. ok t)
    (''Running '' @ fmt_dec (length ts) @ '' tests'' @ newline @ test_log ok msg ts)
    (if \<forall>t\<in>set ts. ok t then [exit_code Success] else [])"
  unfolding test_runner_def
  by (rule behaves_eq, rule behaves_seq [OF behaves_print(3) behaves_seq [OF behaves_run_tests [OF assms] behaves_exit]])
    simp_all

lemma behaves_panic_handler:
  "behaves uart_ready sent (test_panic_handler U info) True (failure_log info) [exit_code Failed]"
proof -
  let ?m1 = "[''[failed] '', newline]" and ?m2 = "[''Error: '', info, '' '', newline]"
  let ?m3 = "[''QemuExitCode::Failed didn'', [char_of (39::nat)], ''t work'']"
  have "behaves uart_ready sent (test_panic_handler U info) True
      ((concat ?m1 @ newline) @ (concat ?m2 @ newline) @ [] @ (concat ?m3 @ newline)) ([] @ [] @ [exit_code Failed] @ [])"
    unfolding test_panic_handler_def by (intro behaves_bind behaves_print behaves_exit)
  then show ?thesis by (simp add: failure_log_def)
qed

lemma behaves_panic_loop:
  assumes "\<And>t. t \<in> set ts \<Longrightarrow> behaves uart_ready sent t (ok t) (msg t) []"
  shows "\<exists>log. behaves uart_ready sent (panic_loop U ts) (\<forall>t\<in>set ts. ok t) log
    (replicate (length (takeWhile ok ts)) (exit_code Failed))"
  using assms
proof (induction ts)
  case Nil
  show ?case using behaves_return [of uart_ready sent] by auto
next
  case (Cons t ts)
  obtain log where tl: "behaves uart_ready sent (panic_loop U ts) (\<forall>t\<in>set ts. ok t) log
      (replicate (length (takeWhile ok ts)) (exit_code Failed))"
    using Cons by auto
  have hd: "behaves uart_ready sent t (ok t) (msg t) []" using Cons.prems by simp
  have "behaves uart_ready sent (panic_loop U (t # ts)) (\<forall>t\<in>set (t # ts). ok t)
      (msg t @ (if ok t then ''[test did not panic]'' @ newline @ log else []))
      (replicate (length (takeWhile ok (t # ts))) (exit_code Failed))"
    unfolding panic_loop.simps
    by (rule behaves_eq, rule behaves_seq [OF hd behaves_seq [OF behaves_print(3) behaves_seq [OF behaves_exit tl]]])
      simp_all
  then show ?case by blast
qed

lemma behaves_should_panic:
  assumes "\<And>t. t \<in> set ts \<Longrightarrow> behaves uart_ready sent t (ok t) (msg t) []"
  shows "\<exists>log. behaves uart_ready sent (should_panic_runner U ts) (\<forall>t\<in>set ts. ok t) log
    (replicate (length (takeWhile ok ts)) (exit_code Failed) @ (if \<forall>t\<in>set ts. ok t then [exit_code Success] else []))"
proof -
  obtain log where loop: "behaves uart_ready sent (panic_loop U ts) (\<forall>t\<in>set ts. ok t) log
      (replicate (length (takeWhile ok ts)) (exit_code Failed))"
    using behaves_panic_loop [OF assms] by blast
  show ?thesis
    unfolding should_panic_runner_def
    by (rule exI, rule behaves_eq, rule behaves_seq [OF behaves_print(3) behaves_seq [OF loop behaves_exit]]) simp_all
qed

end

context gdt_spec
begin

lemma behaves_lib_init:
  assumes "unat stack_start + unat STACK_SIZE < 2 ^ 64" "canonical (stack_start + STACK_SIZE)"
  shows "behaves uart_ready sent (lib_init G C stack_start) True [] []"
  unfolding behaves_def
proof (intro allI impI)
  fix m :: "('a, 'g, 's, handler, 'b, 'c) emulated_scheme"
  assume ok: "console_ok uart_ready m"
  obtain g code t where "gdt_init G stack_start m =
      (Ret (), m\<lparr> gdtr := Some g, cs_register := Some code, task_register := Some t \<rparr>)"
    using gdt_init_run [OF assms, of m] by blast
  then show "\<exists>m'. lib_init G C stack_start m = (if True then Ret () else Panic, m') \<and> console_ok uart_ready m' \<and>
      printed sent m' = printed sent m @ [] \<and> port_f4 m' = port_f4 m @ []"
    using ok by (simp add: lib_init_def init_idt_def act_bind_def io_simps console_ok_def printed_def)
qed

end

subsection \<open>Properties\<close>

text \<open>
  C20: The verdict of a test run is right and so is its protocol. For tests of which it is known what
  they print and whether they panic, the program prints the number of tests and, up to the first
  failing one, the name, the output and \<open>[ok]\<close> of each; the emulator's status is 33 if every test
  passes and 35 otherwise, and after a failing test no other test is run.
\<close>

theorem test_verdict:
  assumes uart: "uart_spec U uart_ready sent" and gdt: "gdt_spec G gdt_lookup gdt_free slots tss_of canonical"
    and stack: "unat stack_start + unat STACK_SIZE < 2 ^ 64" "canonical (stack_start + STACK_SIZE)"
    and start: "console_ok uart_ready m" "port_f4 m = []"
    and tests: "\<And>t. t \<in> set ts \<Longrightarrow> behaves uart_ready sent (snd t) (ok t) (msg t) []"
  shows "\<exists>m'. test_kernel_main U G C stack_start ts info m = m' \<and>
    printed sent m' = printed sent m @ ''Running '' @ fmt_dec (length ts) @ '' tests'' @ newline @
      test_log ok msg ts @ (if \<forall>t\<in>set ts. ok t then [] else failure_log info) \<and>
    exit_status m' = Some (if \<forall>t\<in>set ts. ok t then 33 else 35)"
proof -
  have "behaves uart_ready sent (act_bind (lib_init G C stack_start) (\<lambda>_. test_runner U ts)) (\<forall>t\<in>set ts. ok t)
      (''Running '' @ fmt_dec (length ts) @ '' tests'' @ newline @ test_log ok msg ts)
      (if \<forall>t\<in>set ts. ok t then [exit_code Success] else [])"
    by (rule behaves_eq, rule behaves_bind [OF gdt_spec.behaves_lib_init [OF gdt stack]],
        rule uart_spec.behaves_test_runner [OF uart tests]) simp_all
  from program_end_run [OF this start(1) uart_spec.behaves_panic_handler [OF uart]] start(2) show ?thesis
    by (auto simp: test_kernel_main_def exit_status_def)
qed

definition empty_machine :: "(bool \<times> string, descriptor list, nat, 'h, unit) emulated" where
  "empty_machine = \<lparr> SERIAL1 = None, interrupt_flag = False, gdtr = None, cs_register = None, task_register = None,
     idtr = None, PICS = (), port_f4 = [] \<rparr>"

definition no_pics :: "unit pic_ops" where
  "no_pics = \<lparr> pics_new = (\<lambda>_ _. ()), pics_initialize = (\<lambda>p. p), notify_end_of_interrupt = (\<lambda>_ p. p) \<rparr>"

theorem test_verdict_witness:
  "\<exists>m'. test_kernel_main log_port list_gdt no_pics 0x200000
      [(''blog_os::one_one_assertion'', one_one_assertion), (''fails'', assert_eq (0::int) 1), (''skipped'', one_one_assertion)]
      ''assertion failed'' empty_machine = m' \<and>
    printed snd m' = ''Running 3 tests'' @ newline @ ''blog_os::one_one_assertion....'' @ tab @ ''[ok]'' @ newline @
      ''fails....'' @ tab @ failure_log ''assertion failed'' \<and>
    exit_status m' = Some 35"
proof -
  let ?ts = "[(''blog_os::one_one_assertion'', one_one_assertion), (''fails'', assert_eq (0::int) 1), (''skipped'', one_one_assertion)]
    :: (bool \<times> string, descriptor list, nat, handler, unit) emulated test list"
  let ?ok = "\<lambda>t. fst t \<noteq> ''fails''" and ?msg = "\<lambda>t. []"
  have tests: "behaves fst snd (snd t) (?ok t) (?msg t) []" if "t \<in> set ?ts" for t
    using that behaves_assert [of fst snd "1::int" 1] behaves_assert [of fst snd "0::int" 1]
    by (auto simp: one_one_assertion_def)
  let ?m = "empty_machine :: (bool \<times> string, descriptor list, nat, handler, unit) emulated"
  have m: "console_ok fst ?m" "port_f4 ?m = []" "printed snd ?m = []"
    by (simp_all add: empty_machine_def console_ok_def printed_def)
  have "fmt_dec (length ?ts) = ''3''" by (simp add: fmt_dec_def digits_small digit_char_def)
  moreover have "test_log ?ok ?msg ?ts = ''blog_os::one_one_assertion....'' @ tab @ ''[ok]'' @ newline @ ''fails....'' @ tab"
    by simp
  moreover have "\<not> (\<forall>t\<in>set ?ts. ?ok t)" by simp
  moreover have "unat (0x200000 :: u64) + unat STACK_SIZE < 2 ^ 64" by (simp add: STACK_SIZE_def)
  note run = test_verdict [OF log_uart.uart_spec_axioms list_gdts.gdt_spec_axioms this TrueI m(1,2) tests,
      of ?ts no_pics "''assertion failed''"]
  ultimately show ?thesis using run m(3) by (simp only: if_False) simp
qed

text \<open>A program of tests that must panic reports success exactly if its first test panics.\<close>

theorem should_panic_verdict:
  assumes uart: "uart_spec U uart_ready sent" and start: "console_ok uart_ready m" "port_f4 m = []"
    and tests: "\<And>t. t \<in> set (t0 # ts) \<Longrightarrow> behaves uart_ready sent t (ok t) (msg t) []"
  shows "exit_status (should_panic U (t0 # ts) m) = Some (if ok t0 then 35 else 33)"
proof -
  obtain log where run: "behaves uart_ready sent (should_panic_runner U (t0 # ts)) (\<forall>t\<in>set (t0 # ts). ok t) log
      (replicate (length (takeWhile ok (t0 # ts))) (exit_code Failed) @
       (if \<forall>t\<in>set (t0 # ts). ok t then [exit_code Success] else []))"
    using uart_spec.behaves_should_panic [OF uart tests] by blast
  have "behaves uart_ready sent (should_panic_handler U) True ((concat [''[ok]''] @ newline) @ []) ([] @ [exit_code Success])"
    unfolding should_panic_handler_def by (intro behaves_bind behaves_exit uart_spec.behaves_print(3) [OF uart])
  from program_end_run [OF run start(1) this] start(2) show ?thesis
    by (auto simp: should_panic_def exit_status_def)
qed

theorem should_panic_verdict_witness:
  "exit_status (should_panic log_port [should_fail log_port] (empty_machine :: (_, _, _, handler, _) emulated)) = Some 33"
proof -
  let ?m = "empty_machine :: (_, _, _, handler, _) emulated"
  have "behaves fst snd (should_fail log_port) ((0::int) = 1) (concat [''should_panic::should_fail...'', tab] @ []) ([] @ [])"
    unfolding should_fail_def by (intro behaves_bind behaves_assert log_uart.behaves_print)
  moreover have "console_ok fst ?m" "port_f4 ?m = []" by (simp_all add: empty_machine_def console_ok_def)
  ultimately show ?thesis
    using should_panic_verdict [OF log_uart.uart_spec_axioms, of ?m "should_fail log_port" "[]" "\<lambda>_. False"] by auto
qed

text \<open>
  A stack overflow is caught. The test program with its own handler for double faults prints
  \<open>[ok]\<close> and ends the emulator with status 33, although nothing can be pushed on the overflowing
  stack and the program has no handler for the page fault.
\<close>

theorem stack_overflow_caught:
  assumes uart: "uart_spec U uart_ready sent" and gdt: "gdt_spec G gdt_lookup gdt_free slots tss_of canonical"
    and stack: "unat stack_start + unat STACK_SIZE < 2 ^ 64" "canonical (stack_start + STACK_SIZE)"
    and usable: "usable (stack_start + STACK_SIZE)" "\<not> usable guard"
    and start: "console_ok uart_ready m" "port_f4 m = []"
  shows "\<exists>m'. stack_overflow_test U G gdt_lookup tss_of usable stack_start guard m = Some (Ret (), m') \<and>
    exit_status m' = Some 33 \<and>
    printed sent m' = printed sent m @ ''stack_overflow::stack_overflow...'' @ tab @ ''[ok]'' @ newline"
proof -
  let ?name = "[''stack_overflow::stack_overflow...'', tab]"
  obtain u where u: "serial_print U ?name m = (Ret (), m\<lparr> SERIAL1 := Some u \<rparr>)" "uart_ready u"
    "sent u = printed sent m @ concat ?name"
    using uart_spec.serial_print_run [OF uart start(1)] by blast
  let ?m = "m\<lparr> SERIAL1 := Some u \<rparr>"
  obtain g code t tss where g: "gdt_init G stack_start ?m =
      (Ret (), ?m\<lparr> gdtr := Some g, cs_register := Some code, task_register := Some t \<rparr>)"
    "gdt_lookup g t = Some (tss_segment G tss)"
    "interrupt_stack_table tss = (stack_start + STACK_SIZE) # replicate 6 0"
    using gdt_spec.gdt_init_run [OF gdt stack, of ?m] by blast
  define m2 where "m2 = ?m\<lparr> gdtr := Some g, cs_register := Some code, task_register := Some t, idtr := Some TEST_IDT \<rparr>"
  have "deliver gdt_lookup tss_of usable m2 guard 14 = Runs test_double_fault_handler (stack_start + STACK_SIZE)"
    using g gdt_spec.tss_of_law [OF gdt] usable
    by (simp add: deliver_def enter_handler_def m2_def TEST_IDT_def entry_stack_def loaded_tss_def DOUBLE_FAULT_IST_INDEX_def)
  then have run: "stack_overflow_test U G gdt_lookup tss_of usable stack_start guard m = Some (test_double_fault U m2)"
    using u(1) g(1) by (simp add: stack_overflow_test_def act_bind_def act_modify_def m2_def)
  have m2: "console_ok uart_ready m2" "port_f4 m2 = []" "printed sent m2 = printed sent m @ concat ?name"
    using u(2,3) start(2) by (simp_all add: m2_def console_ok_def printed_def)
  have "behaves uart_ready sent (test_double_fault U) True ((concat [''[ok]''] @ newline) @ []) ([] @ [exit_code Success])"
    unfolding test_double_fault_def by (intro behaves_bind behaves_exit uart_spec.behaves_print(3) [OF uart])
  from behavesE [OF this m2(1)] obtain m' where "test_double_fault U m2 = (if True then Ret () else Panic, m')"
    "printed sent m' = printed sent m2 @ (concat [''[ok]''] @ newline) @ []"
    "port_f4 m' = port_f4 m2 @ [] @ [exit_code Success]"
    by metis
  then show ?thesis using run m2(2,3) by (simp add: exit_status_def)
qed

theorem stack_overflow_caught_witness:
  "\<exists>m'. stack_overflow_test log_port list_gdt list_gdt_lookup descriptor_tss (\<lambda>a. 0x1000 < a) 0x200000 0x1000
      empty_machine = Some (Ret (), m') \<and> exit_status m' = Some 33"
  using stack_overflow_caught [OF log_uart.uart_spec_axioms list_gdts.gdt_spec_axioms, of "0x200000"
      "\<lambda>a. 0x1000 < a" "0x1000" empty_machine]
  by (auto simp: STACK_SIZE_def empty_machine_def console_ok_def)

text \<open>The breakpoint test resumes after the handler has printed, once the tables are loaded.\<close>

theorem breakpoint_resumes:
  assumes uart: "uart_spec U uart_ready sent" "console_ok uart_ready m" and m: "idtr m = Some IDT" "usable rsp"
  shows "\<exists>u. test_breakpoint_exception U fmt stack_frame lookup tss_of usable rsp m = Some (Resumed (m\<lparr> SERIAL1 := Some u \<rparr>)) \<and>
    sent u = printed sent m @ ''EXCEPTION: BREAKPOINT'' @ newline @ '' '' @ fmt stack_frame @ newline"
proof -
  let ?msg = "[''EXCEPTION: BREAKPOINT'', newline, '' '', fmt stack_frame]"
  obtain u where "println U ?msg m = (Ret (), m\<lparr> SERIAL1 := Some u \<rparr>)" "sent u = printed sent m @ concat (?msg @ [newline])"
    using uart_spec.serial_print_run [OF uart, of "?msg @ [newline]"] by (auto simp: println_def print_def)
  moreover have "deliver lookup tss_of usable m rsp 3 = Runs breakpoint_handler rsp"
    using m by (simp add: deliver_def enter_handler_def entry_stack_def IDT_entries)
  ultimately show ?thesis
    by (intro exI [of _ u]) (simp add: test_breakpoint_exception_def breakpoint_exception_def returning_def)
qed

end
