(* ===== verification/Heap_Tests.thy ===== *)
theory Heap_Tests
  imports Fixed_Size_Block Test_Harness
begin

section \<open>The heap tests (\<open>src/tests/heap_allocation.rs\<close>)\<close>

text \<open>
  Three of the tests as clients of the global allocator. The value of a box is in the memory the
  allocator also keeps its links in: an \<open>Option<&mut ListNode>\<close> is a word that is 0 for \<open>None\<close>. A
  failed allocation ends in \<open>handle_alloc_error\<close>, which panics.
\<close>

unbundle bit_operations_syntax

definition as_word :: "usize option \<Rightarrow> usize" where
  "as_word n = (case n of None \<Rightarrow> 0 | Some a \<Rightarrow> a)"

definition of_word :: "usize \<Rightarrow> usize option" where
  "of_word w = (if w = 0 then None else Some w)"

lemma as_word_of_word [simp]: "as_word (of_word w) = w"
  by (simp add: as_word_def of_word_def)

definition read_usize :: "usize \<Rightarrow> 'h FixedSizeBlockAllocator \<Rightarrow> usize" where
  "read_usize p s = as_word (fsb_mem s p)"

definition write_usize :: "usize \<Rightarrow> usize \<Rightarrow> 'h FixedSizeBlockAllocator \<Rightarrow> 'h FixedSizeBlockAllocator" where
  "write_usize p v s = s\<lparr> fsb_mem := (fsb_mem s)(p := of_word v) \<rparr>"

text \<open>A four-byte integer is the low half of the word; the other half is left alone.\<close>

definition read_i32 :: "usize \<Rightarrow> 'h FixedSizeBlockAllocator \<Rightarrow> u32" where
  "read_i32 p s = ucast (read_usize p s)"

definition write_i32 :: "usize \<Rightarrow> u32 \<Rightarrow> 'h FixedSizeBlockAllocator \<Rightarrow> 'h FixedSizeBlockAllocator" where
  "write_i32 p v s = write_usize p (push_bit 32 (drop_bit 32 (read_usize p s)) OR ucast v) s"

definition Box_new ::
    "'h fallback \<Rightarrow> Layout \<Rightarrow> (usize \<Rightarrow> 'h FixedSizeBlockAllocator \<Rightarrow> 'h FixedSizeBlockAllocator)
       \<Rightarrow> ('h FixedSizeBlockAllocator, usize) act" where
  "Box_new F layout store =
     act_bind (fsb_alloc F layout) (\<lambda>p.
     if p = 0 then act_out Panic
     else act_bind (act_modify (store p)) (\<lambda>_. act_return p))"

definition Box_drop :: "'h fallback \<Rightarrow> Layout \<Rightarrow> usize \<Rightarrow> ('h FixedSizeBlockAllocator, unit) act" where
  "Box_drop F layout p = fsb_dealloc F p layout"

definition assert_value :: "('s \<Rightarrow> 'a) \<Rightarrow> 'a \<Rightarrow> ('s, unit) act" where
  "assert_value get v s = (if get s = v then (Ret (), s) else (Panic, s))"

abbreviation "i32_layout \<equiv> Layout 4 4"
abbreviation "usize_layout \<equiv> Layout 8 8"

text \<open>The boxes are dropped in the reverse order of their declaration.\<close>

definition simple_allocation_box :: "'h fallback \<Rightarrow> ('h FixedSizeBlockAllocator, unit) act" where
  "simple_allocation_box F =
     act_bind (Box_new F i32_layout (\<lambda>p. write_i32 p 1)) (\<lambda>heap_value1.
     act_bind (Box_new F i32_layout (\<lambda>p. write_i32 p 69)) (\<lambda>heap_value2.
     act_bind (assert_value (read_i32 heap_value1) 1) (\<lambda>_.
     act_bind (assert_value (read_i32 heap_value2) 69) (\<lambda>_.
     act_bind (Box_drop F i32_layout heap_value2) (\<lambda>_.
     Box_drop F i32_layout heap_value1)))))"

definition box_round :: "'h fallback \<Rightarrow> usize \<Rightarrow> ('h FixedSizeBlockAllocator, unit) act" where
  "box_round F i =
     act_bind (Box_new F usize_layout (\<lambda>p. write_usize p i)) (\<lambda>x.
     act_bind (assert_value (read_usize x) i) (\<lambda>_.
     Box_drop F usize_layout x))"

fun box_rounds :: "'h fallback \<Rightarrow> usize list \<Rightarrow> ('h FixedSizeBlockAllocator, unit) act" where
  "box_rounds F [] = act_return ()"
| "box_rounds F (i # is) = act_bind (box_round F i) (\<lambda>_. box_rounds F is)"

definition many_allocation_boxes :: "'h fallback \<Rightarrow> ('h FixedSizeBlockAllocator, unit) act" where
  "many_allocation_boxes F = box_rounds F (map of_nat [0..<unat HEAP_SIZE])"

definition many_boxes_long_lived :: "'h fallback \<Rightarrow> ('h FixedSizeBlockAllocator, unit) act" where
  "many_boxes_long_lived F =
     act_bind (Box_new F i32_layout (\<lambda>p. write_i32 p 1)) (\<lambda>long_lived.
     act_bind (box_rounds F (map of_nat [0..<unat HEAP_SIZE])) (\<lambda>_.
     act_bind (assert_value (read_i32 long_lived) 1) (\<lambda>_.
     Box_drop F i32_layout long_lived)))"

subsection \<open>The free list of the smallest blocks\<close>

lemma smallest_class: "list_index i32_layout = Some 0" "list_index usize_layout = Some 0"
  by (simp_all add: list_index_def BLOCK_SIZES_def Let_def max_def)

lemma read_write_i32:
  "read_i32 p (write_i32 p v s) = v"
  "p \<noteq> q \<Longrightarrow> read_i32 p (write_i32 q v s) = read_i32 p s"
  "p \<noteq> q \<Longrightarrow> read_i32 p (write_usize q w s) = read_i32 p s"
  by (simp_all add: read_i32_def write_i32_def read_usize_def write_usize_def)
    (rule bit_word_eqI, auto simp: bit_simps)

text \<open>
  \<open>taken p s t\<close>: \<open>t\<close> is \<open>s\<close> with the first block \<open>p\<close> of the list in use, whatever is written
  into it. Giving it back restores \<open>s\<close>.
\<close>

definition taken :: "usize \<Rightarrow> 'h FixedSizeBlockAllocator \<Rightarrow> 'h FixedSizeBlockAllocator \<Rightarrow> bool" where
  "taken p s t \<longleftrightarrow> list_heads s ! 0 = Some p \<and> list_heads s \<noteq> [] \<and>
     t = s\<lparr> list_heads := (list_heads s)[0 := fsb_mem s p], fsb_mem := (fsb_mem s)(p := fsb_mem t p) \<rparr>"

lemma takenD:
  assumes "taken p s t"
  shows "list_heads t ! 0 = fsb_mem s p" "list_heads t \<noteq> []" "q \<noteq> p \<Longrightarrow> fsb_mem t q = fsb_mem s q"
    "q \<noteq> p \<Longrightarrow> read_i32 q t = read_i32 q s"
proof -
  have t: "t = s\<lparr> list_heads := (list_heads s)[0 := fsb_mem s p], fsb_mem := (fsb_mem s)(p := fsb_mem t p) \<rparr>"
    and s: "list_heads s \<noteq> []"
    using assms by (simp_all add: taken_def)
  show "list_heads t ! 0 = fsb_mem s p" by (subst t) (use s in simp)
  show "list_heads t \<noteq> []" by (subst t) (use s in simp)
  show *: "fsb_mem t q = fsb_mem s q" if "q \<noteq> p" by (subst t) (use that in simp)
  show "read_i32 q t = read_i32 q s" if "q \<noteq> p" using * [OF that] by (simp add: read_i32_def read_usize_def)
qed

lemma Box_new_taken:
  assumes "list_heads s ! 0 = Some p" "p \<noteq> 0" "list_heads s \<noteq> []" "list_index l = Some 0"
  shows "\<exists>t. Box_new F l (\<lambda>p. write_i32 p v) s = (Ret p, t) \<and> taken p s t \<and> read_i32 p t = v"
    "\<exists>t. Box_new F l (\<lambda>p. write_usize p w) s = (Ret p, t) \<and> taken p s t \<and> read_usize p t = w"
proof -
  let ?s = "s\<lparr> list_heads := (list_heads s)[0 := fsb_mem s p], fsb_mem := (fsb_mem s)(p := None) \<rparr>"
  have new: "Box_new F l store s = (Ret p, store p ?s)" for store
    using assms by (simp add: Box_new_def act_bind_def fsb_alloc_def act_modify_def act_return_def)
  have "taken p s (write_usize p w ?s)" for w using assms by (simp add: taken_def write_usize_def)
  then show "\<exists>t. Box_new F l (\<lambda>p. write_i32 p v) s = (Ret p, t) \<and> taken p s t \<and> read_i32 p t = v"
    "\<exists>t. Box_new F l (\<lambda>p. write_usize p w) s = (Ret p, t) \<and> taken p s t \<and> read_usize p t = w"
    using read_write_i32(1) [of p v ?s] unfolding new
    by (auto simp: write_i32_def) (simp add: read_usize_def write_usize_def)
qed

lemma Box_drop_taken:
  assumes "taken p s t" "list_index l = Some 0"
  shows "Box_drop F l p t = (Ret (), s)"
proof -
  have t: "t = s\<lparr> list_heads := (list_heads s)[0 := fsb_mem s p], fsb_mem := (fsb_mem s)(p := fsb_mem t p) \<rparr>"
    and s: "list_heads s ! 0 = Some p" "list_heads s \<noteq> []"
    using assms(1) by (simp_all add: taken_def)
  have "(list_heads s)[0 := Some p] = list_heads s" using s list_update_id [of "list_heads s" 0] by simp
  then show ?thesis
    using assms(2) s
    by (subst t) (simp add: Box_drop_def fsb_dealloc_def Let_def BLOCK_SIZES_def size_of_node_def align_of_node_def)
qed

text \<open>With a free block at hand, rounds leave the allocator exactly as it was; with two, so do the
  other tests.\<close>

lemma box_round_id:
  assumes "list_heads s ! 0 = Some p" "p \<noteq> 0" "list_heads s \<noteq> []"
  shows "box_round F i s = (Ret (), s)"
proof -
  obtain t where "Box_new F usize_layout (\<lambda>p. write_usize p i) s = (Ret p, t)" "taken p s t" "read_usize p t = i"
    using Box_new_taken(2) [OF assms smallest_class(2)] by blast
  then show ?thesis
    by (simp add: box_round_def act_bind_def assert_value_def Box_drop_taken smallest_class)
qed

lemma box_rounds_id:
  assumes "list_heads s ! 0 = Some p" "p \<noteq> 0" "list_heads s \<noteq> []"
  shows "box_rounds F is s = (Ret (), s)"
  by (induction "is") (simp_all add: act_return_def act_bind_def box_round_id [OF assms])

definition two_free :: "usize \<Rightarrow> usize \<Rightarrow> 'h FixedSizeBlockAllocator \<Rightarrow> bool" where
  "two_free p q s \<longleftrightarrow> list_heads s \<noteq> [] \<and> list_heads s ! 0 = Some p \<and> fsb_mem s p = Some q \<and>
     p \<noteq> 0 \<and> q \<noteq> 0 \<and> p \<noteq> q"

lemma two_free_taken:
  assumes "two_free p q s"
  obtains t where "Box_new F i32_layout (\<lambda>p. write_i32 p v) s = (Ret p, t)" "taken p s t" "read_i32 p t = v"
    "list_heads t ! 0 = Some q" "q \<noteq> 0" "list_heads t \<noteq> []" "p \<noteq> q"
proof -
  obtain t where "Box_new F i32_layout (\<lambda>p. write_i32 p v) s = (Ret p, t)" "taken p s t" "read_i32 p t = v"
    using Box_new_taken(1) [OF _ _ _ smallest_class(1), of s p F v] assms by (auto simp: two_free_def)
  then show thesis using assms takenD(1,2) [of p s t] that by (simp add: two_free_def)
qed

lemma simple_allocation_box_id:
  assumes "two_free p q s"
  shows "simple_allocation_box F s = (Ret (), s)"
proof -
  obtain t where t: "Box_new F i32_layout (\<lambda>p. write_i32 p 1) s = (Ret p, t)" "taken p s t" "read_i32 p t = 1"
    "list_heads t ! 0 = Some q" "q \<noteq> 0" "list_heads t \<noteq> []" "p \<noteq> q"
    using assms by (rule two_free_taken)
  obtain t' where t': "Box_new F i32_layout (\<lambda>p. write_i32 p 69) t = (Ret q, t')" "taken q t t'" "read_i32 q t' = 69"
    using Box_new_taken(1) [OF t(4,5,6) smallest_class(1)] by blast
  have "read_i32 p t' = 1" using takenD(4) [OF t'(2)] t(3,7) by simp
  then show ?thesis
    using t(1) t'(1,3)
    by (simp add: simple_allocation_box_def act_bind_def assert_value_def smallest_class
        Box_drop_taken [OF t(2)] Box_drop_taken [OF t'(2)])
qed

lemma long_lived_id:
  assumes "two_free p q s"
  shows "many_boxes_long_lived F s = (Ret (), s)"
proof -
  obtain t where t: "Box_new F i32_layout (\<lambda>p. write_i32 p 1) s = (Ret p, t)" "taken p s t" "read_i32 p t = 1"
    "list_heads t ! 0 = Some q" "q \<noteq> 0" "list_heads t \<noteq> []"
    using assms by (rule two_free_taken)
  show ?thesis
    using t(1,3) box_rounds_id [OF t(4,5,6)]
    by (simp add: many_boxes_long_lived_def act_bind_def assert_value_def smallest_class Box_drop_taken [OF t(2)])
qed

subsection \<open>Properties\<close>

lemma Box_new_fallback:
  assumes "list_heads s ! 0 = None" "list_index l = Some 0"
    "fb_allocate_first_fit F (block_layout 0) (fallback_allocator s) = (Ok p, h)" "p \<noteq> 0"
  shows "Box_new F l store s = (Ret p, store p (s\<lparr> fallback_allocator := h \<rparr>))"
  using assms block_layout_ok(1) [of 0]
  by (simp add: Box_new_def act_bind_def fsb_alloc_def act_modify_def act_return_def fallback_alloc_def Let_def)

lemma simple_allocation_box_fresh:
  assumes heads: "list_heads s = replicate 9 None"
    and fb: "fb_allocate_first_fit F (block_layout 0) (fallback_allocator s) = (Ok p, h1)"
      "fb_allocate_first_fit F (block_layout 0) h1 = (Ok q, h2)" and pq: "p \<noteq> 0" "q \<noteq> 0" "p \<noteq> q"
  shows "\<exists>t. simple_allocation_box F s = (Ret (), t) \<and> two_free p q t \<and> fallback_allocator t = h2"
proof -
  define s1 where "s1 = write_i32 p 1 (s\<lparr> fallback_allocator := h1 \<rparr>)"
  define s2 where "s2 = write_i32 q 69 (s1\<lparr> fallback_allocator := h2 \<rparr>)"
  have 1: "Box_new F i32_layout (\<lambda>p. write_i32 p 1) s = (Ret p, s1)"
    unfolding s1_def by (rule Box_new_fallback [OF _ smallest_class(1) fb(1) pq(1)]) (simp add: heads)
  have s1: "list_heads s1 = replicate 9 None" "fallback_allocator s1 = h1"
    by (simp_all add: s1_def write_i32_def write_usize_def heads)
  have 2: "Box_new F i32_layout (\<lambda>p. write_i32 p 69) s1 = (Ret q, s2)"
    unfolding s2_def using fb(2) s1 pq(2) smallest_class(1) by (intro Box_new_fallback) simp_all
  have s2: "list_heads s2 = replicate 9 None" "fallback_allocator s2 = h2"
    by (simp_all add: s2_def write_i32_def write_usize_def s1)
  have "read_i32 p (s1\<lparr> fallback_allocator := h2 \<rparr>) = read_i32 p s1"
    by (simp add: read_i32_def read_usize_def)
  then have r: "read_i32 p s2 = 1" "read_i32 q s2 = 69"
    using pq(3) by (simp_all add: s2_def s1_def read_write_i32)
  have drop: "Box_drop F i32_layout a w =
      (Ret (), w\<lparr> list_heads := (list_heads w)[0 := Some a], fsb_mem := (fsb_mem w)(a := list_heads w ! 0) \<rparr>)" for a w
    using smallest_class(1)
    by (simp add: Box_drop_def fsb_dealloc_def Let_def BLOCK_SIZES_def size_of_node_def align_of_node_def)
  show ?thesis
    using pq s2 by (simp add: simple_allocation_box_def act_bind_def 1 2 assert_value_def r drop two_free_def)
qed

text \<open>
  C17: The heap tests pass on the installed allocator, over every fallback heap that keeps its
  contract and can serve two blocks of eight bytes. On a fresh heap \<open>simple_allocation_box\<close> passes;
  after it the two tests with \<open>HEAP_SIZE\<close> rounds pass as well, long-lived value included, with the
  same two blocks in every round: they leave the allocator in exactly the state they found, so no
  memory is lost and the fallback is not asked again.
\<close>

theorem heap_tests_pass:
  assumes heap: "fallback_heap F fb_req fb_inv (unat HEAP_START) (unat HEAP_START + unat HEAP_SIZE)"
    and room: "fb_allocate_first_fit F (block_layout 0) (fb_init F HEAP_START HEAP_SIZE (fb_empty F)) = (Ok p, h1)"
      "fb_allocate_first_fit F (block_layout 0) h1 = (Ok q, h2)"
  shows "\<exists>s. simple_allocation_box F (fsb_init F HEAP_START HEAP_SIZE (fsb_new F mem)) = (Ret (), s) \<and>
    many_allocation_boxes F s = (Ret (), s) \<and> many_boxes_long_lived F s = (Ret (), s) \<and>
    simple_allocation_box F s = (Ret (), s) \<and> fallback_allocator s = h2"
proof -
  let ?s = "fsb_init F HEAP_START HEAP_SIZE (fsb_new F mem)" and ?l = "block_layout 0"
  note law = fallback_heap.fb_alloc_law [OF heap _ block_layout_ok(2) fallback_heap.fb_blocks [OF heap], of _ _ 0]
  have "fb_inv (fb_init F HEAP_START HEAP_SIZE (fb_empty F)) {}"
    by (rule fallback_heap.fb_init_law [OF heap]) simp_all
  from law [OF this] room(1) have i1: "fb_inv h1 {(p, ?l)}" by simp
  from law [OF i1] room(2) have i2: "(q, ?l) \<notin> {(p, ?l)}" "fb_inv h2 (insert (q, ?l) {(p, ?l)})" by simp_all
  then have pq: "p \<noteq> 0" "q \<noteq> 0" "p \<noteq> q"
    using fallback_heap.fb_live [OF heap i2(2)] by (auto simp: live_ok_def)
  have "list_heads ?s = replicate 9 None" "fallback_allocator ?s = fb_init F HEAP_START HEAP_SIZE (fb_empty F)"
    by (simp_all add: fsb_init_def fsb_new_def)
  then obtain s where s: "simple_allocation_box F ?s = (Ret (), s)" "two_free p q s" "fallback_allocator s = h2"
    using simple_allocation_box_fresh [of ?s F p h1 q h2] room pq by auto
  then show ?thesis
    using simple_allocation_box_id [OF s(2)] long_lived_id [OF s(2)] box_rounds_id [of s p]
    by (auto simp: many_allocation_boxes_def two_free_def)
qed

theorem heap_tests_pass_witness:
  "\<exists>s. simple_allocation_box (ll_fallback (\<lambda>_. ListNode_new 0))
      (fsb_init (ll_fallback (\<lambda>_. ListNode_new 0)) HEAP_START HEAP_SIZE
         (fsb_new (ll_fallback (\<lambda>_. ListNode_new 0)) (\<lambda>_. None))) = (Ret (), s) \<and>
    many_boxes_long_lived (ll_fallback (\<lambda>_. ListNode_new 0)) s = (Ret (), s)"
proof -
  let ?F = "ll_fallback (\<lambda>_. ListNode_new 0)"
  have sa: "size_align (block_layout 0) = Ret (16, 8)"
    by (simp add: size_align_def align_to_def align_of_ListNode_def from_size_align_def block_layout_def
        BLOCK_SIZES_def is_power_of_two_8 ISIZE_MAX_def pad_to_align_def round_up_def size_of_ListNode_def)
  have up: "align_up 0x444444440000 8 = Ret 0x444444440000" "align_up 0x444444440010 8 = Ret 0x444444440010"
    "align_up 0x444444440020 8 = Ret 0x444444440020"
    by (simp_all add: align_up_eq is_power_of_two_8 round_up_def)
  note defs = ll_fallback_def ll_init_def add_free_region_def ll_new_def ll_alloc_def sa find_region_def
    find_loop.simps next_of_def alloc_from_region_def up align_of_ListNode_def size_of_ListNode_def
    ListNode_new_def checked_add_def end_addr_def add_ck_def set_next_def HEAP_START_def HEAP_SIZE_def Let_def
  obtain p h1 q h2 where 1: "fb_allocate_first_fit ?F (block_layout 0) (fb_init ?F HEAP_START HEAP_SIZE (fb_empty ?F)) = (Ok p, h1)"
    and 2: "fb_allocate_first_fit ?F (block_layout 0) h1 = (Ok q, h2)"
    by (simp add: defs)
  from heap_tests_pass [OF ll_fb.fallback_heap_axioms 1 2, of "\<lambda>_. None"] show ?thesis by blast
qed

end
