(* ===== verification/Vec_Test.thy ===== *)
theory Vec_Test
  imports Heap_Tests
begin

section \<open>The vector test (\<open>src/tests/heap_allocation.rs\<close>, \<open>large_vec_value_verification\<close>)\<close>

text \<open>
  A \<open>Vec<u64>\<close> as the standard library grows it: it starts without a block, takes room for four
  elements first and twice as much each time it is full. \<open>realloc\<close> is the default of \<open>GlobalAlloc\<close>:
  allocate, copy, give the old block back. The elements are words of the memory in which the
  allocator keeps its links.
\<close>

record Vec =
  vec_ptr :: usize
  vec_cap :: nat
  vec_len :: nat

definition Vec_new :: Vec where
  "Vec_new = \<lparr> vec_ptr = 8, vec_cap = 0, vec_len = 0 \<rparr>"

definition vec_layout :: "nat \<Rightarrow> Layout" where
  "vec_layout n = Layout (of_nat (8 * n)) 8"

definition slot :: "usize \<Rightarrow> nat \<Rightarrow> usize" where
  "slot p i = p + of_nat (8 * i)"

fun copy_words :: "nat \<Rightarrow> usize \<Rightarrow> usize \<Rightarrow> 'h FixedSizeBlockAllocator \<Rightarrow> 'h FixedSizeBlockAllocator" where
  "copy_words 0 src dst s = s"
| "copy_words (Suc n) src dst s = write_usize (slot dst n) (read_usize (slot src n) s) (copy_words n src dst s)"

definition realloc ::
    "'h fallback \<Rightarrow> usize \<Rightarrow> nat \<Rightarrow> nat \<Rightarrow> ('h FixedSizeBlockAllocator, usize) act" where
  "realloc F ptr old new =
     act_bind (fsb_alloc F (vec_layout new)) (\<lambda>new_ptr.
     if new_ptr = 0 then act_return 0
     else
       act_bind (act_modify (copy_words (min old new) ptr new_ptr)) (\<lambda>_.
       act_bind (fsb_dealloc F ptr (vec_layout old)) (\<lambda>_.
       act_return new_ptr)))"

definition vec_grow :: "'h fallback \<Rightarrow> Vec \<Rightarrow> ('h FixedSizeBlockAllocator, Vec) act" where
  "vec_grow F v =
     (let cap = max 4 (max (2 * vec_cap v) (vec_len v + 1)) in
      if 8 * cap > ISIZE_MAX then act_out Panic
      else
        act_bind (if vec_cap v = 0 then fsb_alloc F (vec_layout cap) else realloc F (vec_ptr v) (vec_cap v) cap) (\<lambda>p.
        if p = 0 then act_out Panic
        else act_return (v\<lparr> vec_ptr := p, vec_cap := cap \<rparr>)))"

definition vec_push :: "'h fallback \<Rightarrow> u64 \<Rightarrow> Vec \<Rightarrow> ('h FixedSizeBlockAllocator, Vec) act" where
  "vec_push F x v =
     act_bind (if vec_len v = vec_cap v then vec_grow F v else act_return v) (\<lambda>v.
     act_bind (act_modify (write_usize (slot (vec_ptr v) (vec_len v)) x)) (\<lambda>_.
     act_return (v\<lparr> vec_len := vec_len v + 1 \<rparr>)))"

fun vec_push_all :: "'h fallback \<Rightarrow> u64 list \<Rightarrow> Vec \<Rightarrow> ('h FixedSizeBlockAllocator, Vec) act" where
  "vec_push_all F [] v = act_return v"
| "vec_push_all F (x # xs) v = act_bind (vec_push F x v) (vec_push_all F xs)"

definition vec_elems :: "Vec \<Rightarrow> 'h FixedSizeBlockAllocator \<Rightarrow> u64 list" where
  "vec_elems v s = map (\<lambda>i. read_usize (slot (vec_ptr v) i) s) [0..<vec_len v]"

fun sum_ck :: "u64 list \<Rightarrow> u64 \<Rightarrow> u64 outcome" where
  "sum_ck [] acc = Ret acc"
| "sum_ck (x # xs) acc = bind_out (add_ck acc x) (sum_ck xs)"

definition vec_drop :: "'h fallback \<Rightarrow> Vec \<Rightarrow> ('h FixedSizeBlockAllocator, unit) act" where
  "vec_drop F v = (if vec_cap v = 0 then act_return () else fsb_dealloc F (vec_ptr v) (vec_layout (vec_cap v)))"

definition large_vec_value_verification :: "'h fallback \<Rightarrow> ('h FixedSizeBlockAllocator, unit) act" where
  "large_vec_value_verification F =
     (let n = 1000 :: u64 in
      act_bind (vec_push_all F (map of_nat [1..<unat n]) Vec_new) (\<lambda>vec.
      act_bind (\<lambda>s. (sum_ck (vec_elems vec s) 0, s)) (\<lambda>total.
      act_bind (act_out (bind_out (sub_ck n 1) (\<lambda>m. mul_ck m n))) (\<lambda>product.
      act_bind (assert_eq total (product div 2)) (\<lambda>_.
      vec_drop F vec)))))"

subsection \<open>Words of a block\<close>

lemma unat_slot:
  assumes "unat p + 8 * n < 2 ^ 64" "i \<le> n"
  shows "unat (slot p i) = unat p + 8 * i"
proof -
  have i: "unat (of_nat (8 * i) :: usize) = 8 * i" using assms by (intro unat_of_nat_eq) simp
  have "unat (p + of_nat (8 * i)) = unat p + unat (of_nat (8 * i) :: usize)"
    using assms by (intro unat_add_no_overflow) (simp only: i, simp)
  then show ?thesis by (simp only: i slot_def)
qed

lemma slot_eq_iff:
  assumes "unat p + 8 * n < 2 ^ 64" "i \<le> n" "j \<le> n"
  shows "slot p i = slot p j \<longleftrightarrow> i = j"
proof
  assume "slot p i = slot p j"
  then have "unat p + 8 * i = unat p + 8 * j"
    using unat_slot [OF assms(1,2)] unat_slot [OF assms(1,3)] by (simp only:)
  then show "i = j" by simp
qed simp

lemma read_write_usize [simp]:
  "read_usize a (write_usize b v s) = (if a = b then v else read_usize a s)"
  "list_heads (write_usize b v s) = list_heads s" "fallback_allocator (write_usize b v s) = fallback_allocator s"
  by (simp_all add: read_usize_def write_usize_def)

lemma copy_words_frame [simp]:
  "list_heads (copy_words n src dst s) = list_heads s" "fallback_allocator (copy_words n src dst s) = fallback_allocator s"
  by (induction n) simp_all

lemma copy_words_mem: "a \<notin> slot dst ` {..<n} \<Longrightarrow> fsb_mem (copy_words n src dst s) a = fsb_mem s a"
  by (induction n) (auto simp: write_usize_def lessThan_Suc)

lemma copy_words_read:
  "\<lbrakk>unat dst + 8 * n < 2 ^ 64; i < n\<rbrakk> \<Longrightarrow> read_usize (slot dst i) (copy_words n src dst s) = read_usize (slot src i) s"
proof (induction n)
  case (Suc n)
  then show ?case using slot_eq_iff [of dst "Suc n" i n] by (cases "i = n") simp_all
qed simp

subsection \<open>The requests\<close>

text \<open>The capacities are \<open>4 * 2 ^ k\<close> for \<open>k\<close> up to 8; up to 2048 bytes a request has a class.\<close>

definition cap_of :: "nat \<Rightarrow> nat" where
  "cap_of k = 4 * 2 ^ k"

lemma up_to_nine: "k < 9 \<Longrightarrow> k \<in> {0, 1, 2, 3, 4, 5, 6, 7, 8 :: nat}"
  by auto

lemma vec_request:
  assumes "k < 9"
  shows "list_index (vec_layout (cap_of k)) = (if k < 7 then Some (k + 2) else None)"
    "valid_request (vec_layout (cap_of k))" "unat (layout_size (vec_layout (cap_of k))) = 8 * cap_of k"
proof -
  show "list_index (vec_layout (cap_of k)) = (if k < 7 then Some (k + 2) else None)"
    using up_to_nine [OF assms]
    by (elim insertE emptyE) (simp_all add: vec_layout_def cap_of_def list_index_def BLOCK_SIZES_def Let_def max_def)
  show "valid_request (vec_layout (cap_of k))" "unat (layout_size (vec_layout (cap_of k))) = 8 * cap_of k"
    using up_to_nine [OF assms]
    by (elim insertE emptyE; simp add: vec_layout_def cap_of_def valid_request_def valid_layout_def
        from_size_align_def is_power_of_two_8 ISIZE_MAX_def)+
qed

text \<open>What the fallback is asked on a fresh heap, and that it serves it.\<close>

definition vec_requests :: "Layout list" where
  "vec_requests = map (\<lambda>k. class_layout (vec_layout (cap_of k))) [0..<9]"

fun fb_serves :: "'h fallback \<Rightarrow> Layout list \<Rightarrow> 'h \<Rightarrow> bool" where
  "fb_serves F [] h = True"
| "fb_serves F (l # ls) h =
     (case fb_allocate_first_fit F l h of (Ok _, h') \<Rightarrow> fb_serves F ls h' | (Err _, _) \<Rightarrow> False)"

definition fresh_from :: "nat \<Rightarrow> 'h FixedSizeBlockAllocator \<Rightarrow> bool" where
  "fresh_from k s \<longleftrightarrow> length (list_heads s) = 9 \<and> (\<forall>j. k \<le> j \<and> j < 7 \<longrightarrow> list_heads s ! (j + 2) = None)"

lemma vec_requests_drop: "k < 9 \<Longrightarrow> drop k vec_requests = class_layout (vec_layout (cap_of k)) # drop (Suc k) vec_requests"
  by (simp add: vec_requests_def drop_map upt_conv_Cons [of k 9] del: upt_rec_numeral upt_Suc)

context fallback_heap
begin

lemma fresh_alloc:
  assumes "k < 9" "fresh_from k s" "fb_serves F (drop k vec_requests) (fallback_allocator s)"
    and inv: "fsb_inv fb_req fb_inv s live" and req: "fsb_req fb_req (vec_layout (cap_of k))"
  shows "\<exists>p h. fsb_alloc F (vec_layout (cap_of k)) s = (Ret p, s\<lparr> fallback_allocator := h \<rparr>) \<and> p \<noteq> 0 \<and>
    fb_serves F (drop (Suc k) vec_requests) h \<and> (p, vec_layout (cap_of k)) \<notin> live \<and>
    fsb_inv fb_req fb_inv (s\<lparr> fallback_allocator := h \<rparr>) (insert (p, vec_layout (cap_of k)) live)"
proof -
  let ?l = "vec_layout (cap_of k)"
  obtain p h where h: "fb_allocate_first_fit F (class_layout ?l) (fallback_allocator s) = (Ok p, h)"
    "fb_serves F (drop (Suc k) vec_requests) h"
    using assms(3) by (auto simp: vec_requests_drop [OF assms(1)] split: prod.splits result.splits)
  have "fb_req (class_layout ?l)"
    using req vec_request(1) [OF assms(1)] fb_blocks [of "k + 2"] by (auto simp: class_layout_def fsb_req_def split: if_splits)
  from fallback_alloc_law [OF inv req refl this] h(1)
  have p: "if p = 0 then fsb_inv fb_req fb_inv (s\<lparr> fallback_allocator := h \<rparr>) live
    else (p, ?l) \<notin> live \<and> fsb_inv fb_req fb_inv (s\<lparr> fallback_allocator := h \<rparr>) (insert (p, ?l) live)"
    by (simp add: fallback_alloc_def)
  have "fsb_alloc F ?l s = (Ret p, s\<lparr> fallback_allocator := h \<rparr>)"
    using h(1) vec_request(1) [OF assms(1)] assms(2) block_layout_ok(1) [of "k + 2"]
    by (auto simp: fsb_alloc_def fallback_alloc_def class_layout_def fresh_from_def Let_def split: if_splits)
  moreover have "p \<noteq> 0"
  proof -
    obtain Ls where "fb_inv (fallback_allocator s) (handed_out live Ls)" using inv by (rule fsb_invE)
    from fb_alloc_law [OF this class_layout_facts(1) \<open>fb_req _\<close>] vec_request(2) [OF assms(1)] h(1)
    have "\<exists>L. fb_inv h (insert (p, class_layout ?l) L)" by auto
    then show ?thesis using fb_live by (fastforce simp: live_ok_def)
  qed
  ultimately show ?thesis using h(2) p by auto
qed

lemma block_bound:
  assumes "fsb_inv fb_req fb_inv s live" "(p, vec_layout (cap_of k)) \<in> live" "k < 9" "hi < 2 ^ 64"
  shows "unat p + 8 * cap_of k < 2 ^ 64"
proof -
  have "extent (p, vec_layout (cap_of k)) \<subseteq> {lo..<hi}"
    using fsb_inv_live [OF assms(1)] assms(2) by (auto simp: live_ok_def)
  then have "{unat p..<unat p + 8 * cap_of k} \<subseteq> {lo..<hi}" using vec_request(3) [OF assms(3)] by (simp add: extent_def)
  moreover have "0 < cap_of k" by (simp add: cap_of_def)
  then have "unat p + 8 * cap_of k - 1 \<in> {unat p..<unat p + 8 * cap_of k}" by auto
  ultimately have "unat p + 8 * cap_of k - 1 < hi" by auto
  then show ?thesis using assms(4) by linarith
qed

lemma slot_in_block:
  assumes "fsb_inv fb_req fb_inv s live" "(p, vec_layout (cap_of k)) \<in> live" "k < 9" "hi < 2 ^ 64" "i < cap_of k"
  shows "unat (slot p i) \<in> extent (p, vec_layout (cap_of k))"
  using unat_slot [OF block_bound [OF assms(1-4)], of i] vec_request(3) [OF assms(3)] assms(5) by (simp add: extent_def)

lemma store_inv:
  assumes "fsb_inv fb_req fb_inv s live" "(p, vec_layout (cap_of k)) \<in> live" "k < 9" "hi < 2 ^ 64" "i < cap_of k"
  shows "fsb_inv fb_req fb_inv (write_usize (slot p i) v s) live"
proof -
  have "slot p i \<noteq> a" if "\<forall>b\<in>live. {unat a..<unat a + 8} \<inter> extent b = {}" for a
    using that assms(2) slot_in_block [OF assms] by (auto simp: disjoint_iff)
  then have "fsb_writes live s (write_usize (slot p i) v s)" by (auto simp: fsb_writes_def write_usize_def)
  with assms(1) show ?thesis by (rule fsb_write_law)
qed

lemma copy_inv:
  assumes "fsb_inv fb_req fb_inv s live" "(p, vec_layout (cap_of k)) \<in> live" "k < 9" "hi < 2 ^ 64" "n \<le> cap_of k"
  shows "fsb_inv fb_req fb_inv (copy_words n src p s) live"
  using assms(5) by (induction n) (simp_all add: assms(1) store_inv [OF _ assms(2-4)])

end

lemma dealloc_frame:
  assumes "fsb_dealloc F p l s = (Ret (), s')"
  shows "a \<noteq> p \<Longrightarrow> read_usize a s' = read_usize a s"
    "list_index l = Some i \<Longrightarrow> fallback_allocator s' = fallback_allocator s \<and> list_heads s' = (list_heads s)[i := Some p]"
    "list_index l = None \<Longrightarrow> list_heads s' = list_heads s"
  using assms by (auto simp: fsb_dealloc_def read_usize_def Let_def split: option.splits if_splits)

subsection \<open>Growing and pushing\<close>

definition vec_ok ::
    "'h fallback \<Rightarrow> (Layout \<Rightarrow> bool) \<Rightarrow> ('h \<Rightarrow> (usize \<times> Layout) set \<Rightarrow> bool) \<Rightarrow> nat \<Rightarrow> 'h FixedSizeBlockAllocator
       \<Rightarrow> usize \<Rightarrow> u64 list \<Rightarrow> bool" where
  "vec_ok F fb_req fb_inv k s p vals \<longleftrightarrow>
     k < 9 \<and> fsb_inv fb_req fb_inv s {(p, vec_layout (cap_of k))} \<and> length vals \<le> cap_of k \<and>
     (\<forall>i<length vals. read_usize (slot p i) s = vals ! i) \<and> fresh_from (Suc k) s \<and>
     fb_serves F (drop (Suc k) vec_requests) (fallback_allocator s)"

context fallback_heap
begin

lemma realloc_run:
  assumes ok: "vec_ok F fb_req fb_inv k s p vals" and k: "Suc k < 9" and hi: "hi < 2 ^ 64"
    and req: "fsb_req fb_req (vec_layout (cap_of (Suc k)))"
  shows "\<exists>p' s'. realloc F p (cap_of k) (cap_of (Suc k)) s = (Ret p', s') \<and> p' \<noteq> 0 \<and>
    vec_ok F fb_req fb_inv (Suc k) s' p' vals"
proof -
  let ?l = "vec_layout (cap_of k)" and ?l' = "vec_layout (cap_of (Suc k))"
  have inv: "fsb_inv fb_req fb_inv s {(p, ?l)}" and fresh: "fresh_from (Suc k) s" and len: "length vals \<le> cap_of k"
    and serves: "fb_serves F (drop (Suc k) vec_requests) (fallback_allocator s)"
    and vals: "\<forall>i<length vals. read_usize (slot p i) s = vals ! i" using ok by (auto simp: vec_ok_def)
  obtain p' h where p': "fsb_alloc F ?l' s = (Ret p', s\<lparr> fallback_allocator := h \<rparr>)" "p' \<noteq> 0"
    "fb_serves F (drop (Suc (Suc k)) vec_requests) h" "(p', ?l') \<noteq> (p, ?l)"
    "fsb_inv fb_req fb_inv (s\<lparr> fallback_allocator := h \<rparr>) {(p', ?l'), (p, ?l)}"
    using fresh_alloc [OF k fresh serves inv req] by auto
  define s2 where "s2 = copy_words (cap_of k) p p' (s\<lparr> fallback_allocator := h \<rparr>)"
  have cap: "cap_of k \<le> cap_of (Suc k)" by (simp add: cap_of_def)
  have inv2: "fsb_inv fb_req fb_inv s2 {(p', ?l'), (p, ?l)}"
    unfolding s2_def by (rule copy_inv [OF p'(5) _ k hi cap]) simp
  obtain s3 where s3: "fsb_dealloc F p ?l s2 = (Ret (), s3)" "fsb_inv fb_req fb_inv s3 ({(p', ?l'), (p, ?l)} - {(p, ?l)})"
    using fsb_dealloc_law [OF inv2, of p ?l] by auto
  have run: "realloc F p (cap_of k) (cap_of (Suc k)) s = (Ret p', s3)"
    using p'(1,2) s3(1) cap by (simp add: realloc_def act_bind_def act_modify_def act_return_def s2_def min_def)
  have bound: "unat p' + 8 * cap_of (Suc k) < 2 ^ 64" by (rule block_bound [OF p'(5) _ k hi]) simp
  have apart: "slot p' i \<noteq> p" if "i < cap_of k" for i
  proof -
    have "i < cap_of (Suc k)" using that cap by simp
    then have "unat (slot p' i) \<in> extent (p', ?l')" by (intro slot_in_block [OF p'(5) _ k hi]) simp_all
    moreover have "unat p \<in> extent (p, ?l)" using vec_request(3) [of k] k by (simp add: extent_def cap_of_def)
    moreover have "extent (p', ?l') \<inter> extent (p, ?l) = {}"
      using fsb_inv_live [OF p'(5)] p'(4) by (auto simp: live_ok_def pairwise_insert)
    ultimately show ?thesis by auto
  qed
  have "read_usize (slot p' i) s3 = vals ! i" if "i < length vals" for i
  proof -
    have "unat p' + 8 * cap_of k < 2 ^ 64" using bound cap by linarith
    then have "read_usize (slot p' i) s2 = read_usize (slot p i) s"
      using copy_words_read [of p' "cap_of k" i p "s\<lparr> fallback_allocator := h \<rparr>"] that len
      by (simp add: s2_def read_usize_def)
    then show ?thesis using dealloc_frame(1) [OF s3(1)] apart that len vals by simp
  qed
  moreover have "fresh_from (Suc (Suc k)) s3" "fb_serves F (drop (Suc (Suc k)) vec_requests) (fallback_allocator s3)"
    using dealloc_frame(2,3) [OF s3(1)] fresh p'(3) k vec_request(1) [of k]
    by (cases "k < 7"; auto simp: fresh_from_def s2_def vec_requests_def)+
  moreover have "{(p', ?l'), (p, ?l)} - {(p, ?l)} = {(p', ?l')}" using p'(4) by auto
  ultimately have "vec_ok F fb_req fb_inv (Suc k) s3 p' vals" using s3(2) k len cap by (simp add: vec_ok_def)
  with run p'(2) show ?thesis by blast
qed

end

text \<open>A vector of up to 1024 elements, with or without a block.\<close>

definition vec_state ::
    "'h fallback \<Rightarrow> (Layout \<Rightarrow> bool) \<Rightarrow> ('h \<Rightarrow> (usize \<times> Layout) set \<Rightarrow> bool) \<Rightarrow> 'h FixedSizeBlockAllocator
       \<Rightarrow> Vec \<Rightarrow> u64 list \<Rightarrow> bool" where
  "vec_state F fb_req fb_inv s v vals \<longleftrightarrow>
     vec_len v = length vals \<and>
     (if vec_cap v = 0
      then vals = [] \<and> fsb_inv fb_req fb_inv s {} \<and> fresh_from 0 s \<and> fb_serves F vec_requests (fallback_allocator s)
      else \<exists>k. vec_cap v = cap_of k \<and> vec_ok F fb_req fb_inv k s (vec_ptr v) vals)"

context fallback_heap
begin

lemma vec_grow_run:
  assumes st: "vec_state F fb_req fb_inv s v vals" "vec_len v = vec_cap v" "length vals < 1024" and hi: "hi < 2 ^ 64"
    and req: "\<And>k. k < 9 \<Longrightarrow> fsb_req fb_req (vec_layout (cap_of k))"
  shows "\<exists>k p s'. vec_grow F v s = (Ret (v\<lparr> vec_ptr := p, vec_cap := cap_of k \<rparr>), s') \<and>
    vec_ok F fb_req fb_inv k s' p vals \<and> length vals < cap_of k"
proof (cases "vec_cap v = 0")
  case True
  then have "vals = []" "fsb_inv fb_req fb_inv s {}" "fresh_from 0 s" "fb_serves F (drop 0 vec_requests) (fallback_allocator s)"
    using st(1) by (simp_all add: vec_state_def)
  then obtain p h where "fsb_alloc F (vec_layout (cap_of 0)) s = (Ret p, s\<lparr> fallback_allocator := h \<rparr>)" "p \<noteq> 0"
    "fb_serves F (drop (Suc 0) vec_requests) h"
    "fsb_inv fb_req fb_inv (s\<lparr> fallback_allocator := h \<rparr>) {(p, vec_layout (cap_of 0))}"
    using fresh_alloc [of 0 s "{}"] req [of 0] by auto
  moreover have "fresh_from 1 (s\<lparr> fallback_allocator := h \<rparr>)" for h
    using \<open>fresh_from 0 s\<close> by (simp add: fresh_from_def)
  ultimately show ?thesis
    using True st(2) \<open>vals = []\<close>
    by (intro exI [of _ 0] exI [of _ p] exI [of _ "s\<lparr> fallback_allocator := h \<rparr>"])
      (simp add: vec_grow_def act_bind_def act_return_def cap_of_def ISIZE_MAX_def vec_ok_def)
next
  case False
  then obtain k where k: "vec_cap v = cap_of k" "vec_ok F fb_req fb_inv k s (vec_ptr v) vals"
    using st(1) by (auto simp: vec_state_def)
  have full: "length vals = cap_of k" using st(1,2) k(1) by (simp add: vec_state_def)
  have k9: "Suc k < 9"
  proof (rule ccontr)
    assume "\<not> Suc k < 9"
    then have "k = 8" using k(2) by (simp add: vec_ok_def)
    then show False using full st(3) by (simp add: cap_of_def)
  qed
  obtain p s' where r: "realloc F (vec_ptr v) (cap_of k) (cap_of (Suc k)) s = (Ret p, s')" "p \<noteq> 0"
    "vec_ok F fb_req fb_inv (Suc k) s' p vals"
    using realloc_run [OF k(2) k9 hi req [OF k9]] by blast
  have "4 \<le> cap_of k" "cap_of (Suc k) = 2 * cap_of k" by (simp_all add: cap_of_def)
  then have grown: "max 4 (max (2 * cap_of k) (cap_of k + 1)) = cap_of (Suc k)" "cap_of k < cap_of (Suc k)"
    by (simp_all add: max_def)
  have "8 * cap_of (Suc k) \<le> ISIZE_MAX" using up_to_nine [OF k9] by (auto simp: cap_of_def ISIZE_MAX_def)
  then show ?thesis
    using r st(2) k(1) full grown False
    by (intro exI [of _ "Suc k"] exI [of _ p] exI [of _ s'])
      (simp add: vec_grow_def act_bind_def act_return_def Let_def)
qed

lemma vec_push_run:
  assumes st: "vec_state F fb_req fb_inv s v vals" "length vals < 1024" and hi: "hi < 2 ^ 64"
    and req: "\<And>k. k < 9 \<Longrightarrow> fsb_req fb_req (vec_layout (cap_of k))"
  shows "\<exists>v' s'. vec_push F x v s = (Ret v', s') \<and> vec_state F fb_req fb_inv s' v' (vals @ [x])"
proof -
  have "\<exists>k v1 s1. (if vec_len v = vec_cap v then vec_grow F v else act_return v) s = (Ret v1, s1) \<and> vec_cap v1 = cap_of k \<and>
      vec_len v1 = length vals \<and> vec_ok F fb_req fb_inv k s1 (vec_ptr v1) vals \<and> length vals < cap_of k"
  proof (cases "vec_len v = vec_cap v")
    case True
    then show ?thesis using vec_grow_run [OF st(1) True st(2) hi req] st(1) by (fastforce simp: vec_state_def)
  next
    case False
    then have "vec_cap v \<noteq> 0" using st(1) by (auto simp: vec_state_def split: if_splits)
    then obtain k where k: "vec_cap v = cap_of k" "vec_ok F fb_req fb_inv k s (vec_ptr v) vals" "vec_len v = length vals"
      using st(1) by (auto simp: vec_state_def)
    then have "length vals < cap_of k" using False by (simp add: vec_ok_def)
    then show ?thesis using k False by (auto simp: act_return_def)
  qed
  then obtain k v1 s1 where g: "(if vec_len v = vec_cap v then vec_grow F v else act_return v) s = (Ret v1, s1)"
    "vec_cap v1 = cap_of k" "vec_len v1 = length vals" "length vals < cap_of k"
    and ok: "vec_ok F fb_req fb_inv k s1 (vec_ptr v1) vals" by blast
  let ?p = "vec_ptr v1"
  define s2 where "s2 = write_usize (slot ?p (length vals)) x s1"
  have inv: "fsb_inv fb_req fb_inv s1 {(?p, vec_layout (cap_of k))}" "k < 9" using ok by (simp_all add: vec_ok_def)
  have "fsb_inv fb_req fb_inv s2 {(?p, vec_layout (cap_of k))}"
    unfolding s2_def by (rule store_inv [OF inv(1) _ inv(2) hi g(4)]) simp
  moreover have "read_usize (slot ?p i) s2 = (vals @ [x]) ! i" if "i < length (vals @ [x])" for i
  proof -
    have "unat ?p + 8 * cap_of k < 2 ^ 64" by (rule block_bound [OF inv(1) _ inv(2) hi]) simp
    then have "slot ?p i = slot ?p (length vals) \<longleftrightarrow> i = length vals" 
      using that g(4) by (intro slot_eq_iff [of _ "cap_of k"]) auto
    then show ?thesis using ok that by (auto simp: s2_def vec_ok_def nth_append)
  qed
  ultimately have "vec_ok F fb_req fb_inv k s2 ?p (vals @ [x])" using ok g(4) by (simp add: vec_ok_def fresh_from_def s2_def)
  moreover have "vec_push F x v s = (Ret (v1\<lparr> vec_len := vec_len v1 + 1 \<rparr>), s2)"
    using g(1,3) by (simp add: vec_push_def act_bind_def act_modify_def act_return_def s2_def)
  moreover have "cap_of k \<noteq> 0" by (simp add: cap_of_def)
  ultimately show ?thesis using g(2,3) by (auto simp: vec_state_def)
qed

lemma vec_push_all_run:
  assumes "vec_state F fb_req fb_inv s v vals" "length (vals @ xs) \<le> 1024" and hi: "hi < 2 ^ 64"
    and req: "\<And>k. k < 9 \<Longrightarrow> fsb_req fb_req (vec_layout (cap_of k))"
  shows "\<exists>v' s'. vec_push_all F xs v s = (Ret v', s') \<and> vec_state F fb_req fb_inv s' v' (vals @ xs)"
  using assms(1,2)
proof (induction xs arbitrary: s v vals)
  case (Cons x xs)
  then obtain v1 s1 where "vec_push F x v s = (Ret v1, s1)" "vec_state F fb_req fb_inv s1 v1 (vals @ [x])"
    using vec_push_run [OF Cons.prems(1) _ hi req, of x] by auto
  then show ?case using Cons.IH [of s1 v1 "vals @ [x]"] Cons.prems(2) by (simp add: act_bind_def)
qed (simp add: act_return_def)

end

subsection \<open>Properties\<close>

lemma sum_ck_run: "a + sum_list ns < 2 ^ 64 \<Longrightarrow> sum_ck (map of_nat ns) (of_nat a) = Ret (of_nat (a + sum_list ns))"
proof (induction ns arbitrary: a)
  case (Cons n ns)
  have "unat (of_nat a :: u64) + unat (of_nat n :: u64) < 2 ^ 64"
    using Cons.prems by (simp add: unat_of_nat_eq)
  then have "add_ck (of_nat a) (of_nat n) = Ret (of_nat (a + n) :: u64)" by (simp add: add_ck_def)
  then show ?case using Cons.IH [of "a + n"] Cons.prems by (simp add: add.assoc)
qed simp

lemma sum_upto: "2 * sum_list [1..<Suc n] = n * (n + 1)"
  by (induction n) simp_all

text \<open>
  C18: The vector test passes on a fresh heap, over every fallback heap that keeps its contract and
  serves the nine blocks the growing vector asks for. Through eight moves to blocks of twice the
  size no element is lost or changed, although the allocator writes its links into the blocks given
  back; the vector ends with room for 1024 elements, the sum is right, and after the test no block
  is held.
\<close>

theorem large_vec_passes:
  assumes heap: "fallback_heap F fb_req fb_inv (unat HEAP_START) (unat HEAP_START + unat HEAP_SIZE)"
    and room: "fb_serves F vec_requests (fb_init F HEAP_START HEAP_SIZE (fb_empty F))"
    and req: "fb_req (Layout 4096 8)" "fb_req (Layout 8192 8)"
  shows "\<exists>v s1 s2. vec_push_all F (map of_nat [1..<1000]) Vec_new (fsb_init F HEAP_START HEAP_SIZE (fsb_new F mem)) = (Ret v, s1) \<and>
    vec_elems v s1 = map of_nat [1..<1000] \<and> vec_cap v = 1024 \<and>
    large_vec_value_verification F (fsb_init F HEAP_START HEAP_SIZE (fsb_new F mem)) = (Ret (), s2) \<and>
    fsb_inv fb_req fb_inv s2 {}"
proof -
  let ?s = "fsb_init F HEAP_START HEAP_SIZE (fsb_new F mem)" and ?vals = "map of_nat [1..<1000] :: u64 list"
  have reqs: "fsb_req fb_req (vec_layout (cap_of k))" if k: "k < 9" for k
  proof (cases "k < 7")
    case False
    then have "k = 7 \<or> k = 8" using k by auto
    then have "fb_req (vec_layout (cap_of k))" using req by (auto simp: vec_layout_def cap_of_def)
    then show ?thesis using vec_request(2) [OF k] by (simp add: fsb_req_def)
  qed (use vec_request(1,2) [OF k] in \<open>simp add: fsb_req_def\<close>)
  have "fsb_inv fb_req fb_inv ?s {}" by (rule fallback_heap.fsb_init_inv [OF heap]) simp_all
  then have "vec_state F fb_req fb_inv ?s Vec_new []"
    using room by (simp add: vec_state_def Vec_new_def fresh_from_def fsb_init_def fsb_new_def)
  moreover have "unat HEAP_START + unat HEAP_SIZE < 2 ^ 64" by (simp add: HEAP_START_def HEAP_SIZE_def)
  ultimately obtain v s1 where run: "vec_push_all F ?vals Vec_new ?s = (Ret v, s1)" "vec_state F fb_req fb_inv s1 v ?vals"
    using fallback_heap.vec_push_all_run [OF heap _ _ _ reqs, of ?s Vec_new "[]" ?vals] by auto
  then obtain k where k: "vec_cap v = cap_of k" "vec_ok F fb_req fb_inv k s1 (vec_ptr v) ?vals" "vec_len v = 999"
    by (auto simp: vec_state_def split: if_splits)
  have "k < 9" "999 \<le> cap_of k" using k(2) by (simp_all add: vec_ok_def)
  then have k8: "k = 8" using up_to_nine [of k] by (auto simp: cap_of_def)
  have elems: "vec_elems v s1 = ?vals" using k(2,3) by (intro nth_equalityI) (simp_all add: vec_elems_def vec_ok_def)
  have "sum_list [1..<1000] = 499500" using sum_upto [of 999] by simp
  then have sum: "sum_ck ?vals 0 = Ret 499500" using sum_ck_run [of 0 "[1..<1000]"] by simp
  have "fsb_inv fb_req fb_inv s1 {(vec_ptr v, vec_layout (vec_cap v))}" using k(1,2) by (simp add: vec_ok_def)
  then obtain s2 where drop: "fsb_dealloc F (vec_ptr v) (vec_layout (vec_cap v)) s1 = (Ret (), s2)" "fsb_inv fb_req fb_inv s2 {}"
    using fallback_heap.fsb_dealloc_law [OF heap, of s1 "{(vec_ptr v, vec_layout (vec_cap v))}"] by fastforce
  have cap: "vec_cap v = 1024" using k(1) k8 by (simp add: cap_of_def)
  have prod: "bind_out (sub_ck (1000 :: u64) 1) (\<lambda>m. mul_ck m 1000) = Ret 999000" by (simp add: sub_ck_def mul_ck_def)
  have "large_vec_value_verification F ?s = (Ret (), s2)"
    using run(1) drop(1) cap elems sum prod
    by (simp add: large_vec_value_verification_def act_bind_def act_out_def assert_eq_def act_return_def vec_drop_def
        Let_def del: upt_rec_numeral)
  with run(1) elems cap drop(2) show ?thesis by blast
qed

text \<open>The linked-list allocator with a single free region serves the requests one after the other.\<close>

definition one_region :: "usize \<Rightarrow> usize \<Rightarrow> LinkedListAllocator \<Rightarrow> bool" where
  "one_region a n h \<longleftrightarrow> ll_next (ll_head h) = Some a \<and> ll_mem h a = \<lparr> ll_size = n, ll_next = None \<rparr>"

lemma one_region_serves:
  assumes "one_region a n h" "size_align l = Ret (sz, align)" "align_up a align = Ret b" "b \<noteq> 0"
    and "checked_add b sz = Some e" "add_ck a n = Ret r" "e \<le> r" "16 \<le> r - e" "align_up e 8 = Ret e"
    and "\<And>h'. one_region e (r - e) h' \<Longrightarrow> fb_serves (ll_fallback mem) ls h'"
  shows "fb_serves (ll_fallback mem) (l # ls) h"
proof -
  have "0 < r - e" using assms(8) by (simp add: word_less_nat_alt word_le_nat_alt)
  then have "\<exists>h'. fb_allocate_first_fit (ll_fallback mem) l h = (Ok b, h') \<and> one_region e (r - e) h'"
    using assms(1-9)
    by (auto simp: ll_fallback_def ll_alloc_def find_region_def find_loop.simps alloc_from_region_def next_of_def set_next_def
        end_addr_def sub_ck_def one_region_def add_free_region_def ListNode_new_def size_of_ListNode_def
        align_of_ListNode_def Let_def)
  then show ?thesis using assms(10) by auto
qed

lemma powers_of_two:
  "is_power_of_two 32" "is_power_of_two 64" "is_power_of_two 128" "is_power_of_two 256" "is_power_of_two 512"
  "is_power_of_two 1024" "is_power_of_two 2048"
  unfolding is_power_of_two_def
  by (rule exI [of _ 5], simp, rule exI [of _ 6], simp, rule exI [of _ 7], simp, rule exI [of _ 8], simp,
      rule exI [of _ 9], simp, rule exI [of _ 10], simp, rule exI [of _ 11], simp)

lemma vec_requests_eq:
  "vec_requests = [Layout 32 32, Layout 64 64, Layout 128 128, Layout 256 256, Layout 512 512, Layout 1024 1024,
     Layout 2048 2048, Layout 4096 8, Layout 8192 8]"
proof -
  have "class_layout (vec_layout (cap_of k)) = (if k < 7 then block_layout (k + 2) else vec_layout (cap_of k))" if "k < 9" for k
    using vec_request(1) [OF that] by (simp add: class_layout_def)
  then have "vec_requests = map (\<lambda>k. if k < 7 then block_layout (k + 2) else vec_layout (cap_of k)) [0..<9]"
    by (simp add: vec_requests_def del: upt_rec_numeral)
  also have "[0..<9] = [0, 1, 2, 3, 4, 5, 6, 7, 8 :: nat]" by code_simp
  finally show ?thesis by (simp add: block_layout_def BLOCK_SIZES_def vec_layout_def cap_of_def)
qed

theorem large_vec_passes_witness:
  "\<exists>s. large_vec_value_verification (ll_fallback (\<lambda>_. ListNode_new 0))
      (fsb_init (ll_fallback (\<lambda>_. ListNode_new 0)) HEAP_START HEAP_SIZE
         (fsb_new (ll_fallback (\<lambda>_. ListNode_new 0)) (\<lambda>_. None))) = (Ret (), s)"
proof -
  let ?F = "ll_fallback (\<lambda>_. ListNode_new 0)"
  note pow = powers_of_two is_power_of_two_8
  note size = size_align_def align_to_def align_of_ListNode_def from_size_align_def pow ISIZE_MAX_def pad_to_align_def
    round_up_def size_of_ListNode_def
  note arith = align_up_eq pow round_up_def checked_add_def add_ck_def
  have start: "one_region 0x444444440000 0x19000 (fb_init ?F HEAP_START HEAP_SIZE (fb_empty ?F))"
    by (simp add: one_region_def ll_fallback_def ll_init_def add_free_region_def ll_new_def align_of_ListNode_def
        size_of_ListNode_def ListNode_new_def HEAP_START_def HEAP_SIZE_def Let_def arith)
  have "fb_serves ?F vec_requests (fb_init ?F HEAP_START HEAP_SIZE (fb_empty ?F))"
    unfolding vec_requests_eq
    by (rule one_region_serves [OF start], simp add: size, simp add: arith, simp, simp add: arith, simp add: arith, simp, simp,
        simp add: arith)
      ((erule one_region_serves, simp add: size, simp add: arith, simp, simp add: arith, simp add: arith, simp, simp,
        simp add: arith)+, simp)
  moreover have "ll_servable (Layout 4096 8)" "ll_servable (Layout 8192 8)"
    by (simp_all add: ll_servable_def valid_request_def valid_layout_def size)
  ultimately show ?thesis using large_vec_passes [OF ll_fb.fallback_heap_axioms, of "\<lambda>_. ListNode_new 0"] by blast
qed

end
