(* ===== verification/Locked.thy ===== *)
theory Locked
  imports Fixed_Size_Block
begin

section \<open>Allocators behind a lock (\<open>src/src/allocator.rs\<close>, \<open>Locked\<close>)\<close>

text \<open>
  The installed allocator is a \<open>Locked<FixedSizeBlockAllocator>\<close>: every call takes the spin lock,
  works on the allocator through the guard, and releases the lock when the guard is dropped. The
  lock is the package \<open>spin\<close>: the record \<open>spin_mutex\<close>. On the kernel's only processor nobody can
  release a lock that is waited for, so \<open>lock\<close> on a held lock never returns (\<open>None\<close>). A panic never
  unwinds and leaves the lock held.
\<close>

record ('a, 'l) spin_mutex =
  mutex_new :: "'a \<Rightarrow> 'l"
  mutex_lock :: "'l \<Rightarrow> ('a \<times> 'l) option"
  guard_write :: "'a \<Rightarrow> 'l \<Rightarrow> 'l"
  guard_drop :: "'l \<Rightarrow> 'l"

record 'l Locked =
  inner :: 'l

definition Locked_new :: "('a, 'l) spin_mutex \<Rightarrow> 'a \<Rightarrow> 'l Locked" where
  "Locked_new S a = \<lparr> inner = mutex_new S a \<rparr>"

definition Locked_lock :: "('a, 'l) spin_mutex \<Rightarrow> 'l Locked \<Rightarrow> ('a \<times> 'l Locked) option" where
  "Locked_lock S L = map_option (\<lambda>(a, m). (a, L\<lparr> inner := m \<rparr>)) (mutex_lock S (inner L))"

text \<open>A call of the value behind the lock.\<close>

definition with_guard ::
    "('a, 'l) spin_mutex \<Rightarrow> ('a \<Rightarrow> 'r outcome \<times> 'a) \<Rightarrow> 'l Locked \<Rightarrow> ('r outcome \<times> 'l Locked) option" where
  "with_guard S f L =
     (case Locked_lock S L of
        None \<Rightarrow> None
      | Some (a, L1) \<Rightarrow>
          (case f a of
             (Ret r, a') \<Rightarrow> Some (Ret r, L1\<lparr> inner := guard_drop S (guard_write S a' (inner L1)) \<rparr>)
           | (Panic, a') \<Rightarrow> Some (Panic, L1\<lparr> inner := guard_write S a' (inner L1) \<rparr>)))"

definition ALLOCATOR_new :: "('h FixedSizeBlockAllocator, 'l) spin_mutex \<Rightarrow> 'h fallback \<Rightarrow> (usize \<Rightarrow> usize option) \<Rightarrow> 'l Locked" where
  "ALLOCATOR_new S F mem = Locked_new S (fsb_new F mem)"

definition locked_init ::
    "('h FixedSizeBlockAllocator, 'l) spin_mutex \<Rightarrow> 'h fallback \<Rightarrow> usize \<Rightarrow> usize \<Rightarrow> 'l Locked \<Rightarrow> (unit outcome \<times> 'l Locked) option" where
  "locked_init S F start sz = with_guard S (\<lambda>a. (Ret (), fsb_init F start sz a))"

definition locked_alloc ::
    "('h FixedSizeBlockAllocator, 'l) spin_mutex \<Rightarrow> 'h fallback \<Rightarrow> Layout \<Rightarrow> 'l Locked \<Rightarrow> (usize outcome \<times> 'l Locked) option" where
  "locked_alloc S F layout = with_guard S (fsb_alloc F layout)"

definition locked_dealloc ::
    "('h FixedSizeBlockAllocator, 'l) spin_mutex \<Rightarrow> 'h fallback \<Rightarrow> usize \<Rightarrow> Layout \<Rightarrow> 'l Locked \<Rightarrow> (unit outcome \<times> 'l Locked) option" where
  "locked_dealloc S F ptr layout = with_guard S (fsb_dealloc F ptr layout)"

subsection \<open>The lock\<close>

locale spin_mutex_spec =
  fixes S :: "('a, 'l) spin_mutex" and val :: "'l \<Rightarrow> 'a" and held :: "'l \<Rightarrow> bool"
  assumes new_law: "val (mutex_new S a) = a \<and> \<not> held (mutex_new S a)"
    and lock_free: "\<not> held m \<Longrightarrow> \<exists>m'. mutex_lock S m = Some (val m, m') \<and> val m' = val m \<and> held m'"
    and lock_held: "held m \<Longrightarrow> mutex_lock S m = None"
    and write_law: "val (guard_write S a m) = a \<and> held (guard_write S a m) = held m"
    and drop_law: "held m \<Longrightarrow> val (guard_drop S m) = val m \<and> \<not> held (guard_drop S m)"

definition flag_mutex :: "('a, bool \<times> 'a) spin_mutex" where
  "flag_mutex = \<lparr> mutex_new = (\<lambda>a. (False, a)), mutex_lock = (\<lambda>m. if fst m then None else Some (snd m, (True, snd m))),
     guard_write = (\<lambda>a m. (fst m, a)), guard_drop = (\<lambda>m. (False, snd m)) \<rparr>"

interpretation flag_lock: spin_mutex_spec flag_mutex snd fst
  by unfold_locales (simp_all add: flag_mutex_def)

text \<open>On a free lock a call is a call of the value; it leaves the lock free just when it returns.\<close>

context spin_mutex_spec
begin

lemma with_guard_free:
  assumes "\<not> held (inner L)"
  shows "\<exists>L'. with_guard S f L = Some (fst (f (val (inner L))), L') \<and> val (inner L') = snd (f (val (inner L))) \<and>
    (held (inner L') \<longleftrightarrow> fst (f (val (inner L))) = Panic)"
proof -
  obtain m where m: "mutex_lock S (inner L) = Some (val (inner L), m)" "held m" using lock_free [OF assms] by blast
  obtain r a where f: "f (val (inner L)) = (r, a)" by (metis prod.exhaust)
  have "val (guard_write S a m) = a" "held (guard_write S a m)" using write_law m(2) by simp_all
  then show ?thesis
    using m f drop_law by (cases r) (simp_all add: with_guard_def Locked_lock_def)
qed

lemma with_guard_held: "held (inner L) \<Longrightarrow> with_guard S f L = None"
  by (simp add: with_guard_def Locked_lock_def lock_held)

end

subsection \<open>Clients of the installed allocator\<close>

text \<open>
  What a client can do: request, give back, and write into blocks it holds. The blocks are part of
  the memory in the allocator's state; writing into them does not touch the lock.
\<close>

inductive locked_reach ::
    "('h FixedSizeBlockAllocator, 'l) spin_mutex \<Rightarrow> ('l \<Rightarrow> 'h FixedSizeBlockAllocator) \<Rightarrow> (Layout \<Rightarrow> bool) \<Rightarrow> 'h fallback
       \<Rightarrow> 'l Locked \<Rightarrow> 'l Locked \<Rightarrow> (usize \<times> Layout) set \<Rightarrow> bool"
  for S val req F L0 where
  start: "locked_reach S val req F L0 L0 {}"
| taken: "\<lbrakk>locked_reach S val req F L0 L live; req l; locked_alloc S F l L = Some (Ret p, L'); p \<noteq> 0\<rbrakk>
     \<Longrightarrow> locked_reach S val req F L0 L' (insert (p, l) live)"
| refused: "\<lbrakk>locked_reach S val req F L0 L live; req l; locked_alloc S F l L = Some (Ret 0, L')\<rbrakk>
     \<Longrightarrow> locked_reach S val req F L0 L' live"
| given_back: "\<lbrakk>locked_reach S val req F L0 L live; (p, l) \<in> live; locked_dealloc S F p l L = Some (Ret (), L')\<rbrakk>
     \<Longrightarrow> locked_reach S val req F L0 L' (live - {(p, l)})"
| written: "\<lbrakk>locked_reach S val req F L0 L live; fsb_writes live (val (inner L)) s\<rbrakk>
     \<Longrightarrow> locked_reach S val req F L0 (L\<lparr> inner := guard_write S s (inner L) \<rparr>) live"

lemma with_guard_Ret:
  assumes "spin_mutex_spec S val held" "\<not> held (inner L)" "with_guard S f L = Some (Ret r, L')"
  shows "f (val (inner L)) = (Ret r, val (inner L')) \<and> \<not> held (inner L')"
  using spin_mutex_spec.with_guard_free [OF assms(1,2), of f] assms(3) by (auto simp: prod_eq_iff)

text \<open>The simulation: behind the lock the allocator takes the steps it takes without it.\<close>

lemma locked_simulates:
  assumes S: "spin_mutex_spec S val held" and "locked_reach S val (fsb_req fb_req) F L0 L live" and "\<not> held (inner L0)"
  shows "\<not> held (inner L) \<and>
    client_reach (fsb_req fb_req) (fsb_call F) (fsb_dealloc F) fsb_writes (val (inner L0)) (val (inner L)) live"
  using assms(2,3)
proof (induction rule: locked_reach.induct)
  case start
  then show ?case by (simp add: client_reach.start)
next
  case (taken L live l p L')
  then have "fsb_alloc F l (val (inner L)) = (Ret p, val (inner L')) \<and> \<not> held (inner L')"
    by (intro with_guard_Ret [OF S]) (simp_all add: locked_alloc_def)
  then show ?case using taken by (auto simp: fsb_call_def intro: client_reach.taken)
next
  case (refused L live l L')
  then have "fsb_alloc F l (val (inner L)) = (Ret 0, val (inner L')) \<and> \<not> held (inner L')"
    by (intro with_guard_Ret [OF S]) (simp_all add: locked_alloc_def)
  then show ?case using refused by (auto simp: fsb_call_def intro: client_reach.refused)
next
  case (given_back L live p l L')
  then have "fsb_dealloc F p l (val (inner L)) = (Ret (), val (inner L')) \<and> \<not> held (inner L')"
    by (intro with_guard_Ret [OF S]) (simp_all add: locked_dealloc_def)
  then show ?case using given_back by (auto intro: client_reach.given_back)
next
  case (written L live s)
  then show ?case
    using spin_mutex_spec.write_law [OF S, of s "inner L"] by (auto intro: client_reach.written)
qed

text \<open>
  C4: The lock around the installed allocator costs nothing but re-entrance. Behind the lock the
  allocator simulates the allocator without it, so for every client the held blocks stay inside the
  heap, aligned and disjoint; every call finds the lock free, returns without a panic and leaves
  the lock free. Only a call made while another one holds the lock never returns.
\<close>

theorem locked_client_safe:
  assumes S: "spin_mutex_spec S val held"
    and heap: "fallback_heap F fb_req fb_inv (unat start) (unat start + unat sz)"
    and init: "locked_init S F start sz (ALLOCATOR_new S F mem) = Some (Ret (), L0)"
    and reach: "locked_reach S val (fsb_req fb_req) F L0 L live"
  shows "\<not> held (inner L) \<and> live_ok (unat start) (unat start + unat sz) live \<and>
    (fsb_req fb_req l \<longrightarrow> (\<exists>p L'. locked_alloc S F l L = Some (Ret p, L') \<and> \<not> held (inner L') \<and>
       (p \<noteq> 0 \<longrightarrow> (p, l) \<notin> live \<and> live_ok (unat start) (unat start + unat sz) (insert (p, l) live)))) \<and>
    (b \<in> live \<longrightarrow> (\<exists>L'. locked_dealloc S F (fst b) (snd b) L = Some (Ret (), L') \<and> \<not> held (inner L'))) \<and>
    (\<forall>a L1. Locked_lock S L = Some (a, L1) \<longrightarrow> locked_alloc S F l L1 = None \<and> locked_dealloc S F q l L1 = None)"
proof -
  note free = spin_mutex_spec.with_guard_free [OF S]
  have "\<not> held (inner (ALLOCATOR_new S F mem))" "val (inner (ALLOCATOR_new S F mem)) = fsb_new F mem"
    using spin_mutex_spec.new_law [OF S] by (simp_all add: ALLOCATOR_new_def Locked_new_def)
  then have "val (inner L0) = fsb_init F start sz (fsb_new F mem)" "\<not> held (inner L0)"
    using with_guard_Ret [OF S _ init [unfolded locked_init_def]] by auto
  then have L: "\<not> held (inner L)"
    and client: "client_reach (fsb_req fb_req) (fsb_call F) (fsb_dealloc F) fsb_writes
      (fsb_init F start sz (fsb_new F mem)) (val (inner L)) live"
    using locked_simulates [OF S reach] by simp_all
  note safe = fallback_heap.fsb_safe [OF heap client refl refl]
  have "\<exists>p L'. locked_alloc S F l L = Some (Ret p, L') \<and> \<not> held (inner L') \<and>
      (p \<noteq> 0 \<longrightarrow> (p, l) \<notin> live \<and> live_ok (unat start) (unat start + unat sz) (insert (p, l) live))"
    if "fsb_req fb_req l"
    using safe that free [OF L, of "fsb_alloc F l"] by (fastforce simp: fsb_call_def locked_alloc_def)
  moreover have "\<exists>L'. locked_dealloc S F (fst b) (snd b) L = Some (Ret (), L') \<and> \<not> held (inner L')" if "b \<in> live"
    using safe that free [OF L, of "fsb_dealloc F (fst b) (snd b)"] by (fastforce simp: locked_dealloc_def)
  moreover have "locked_alloc S F l L1 = None \<and> locked_dealloc S F q l L1 = None" if "Locked_lock S L = Some (a, L1)" for a L1
  proof -
    have "held (inner L1)" using that spin_mutex_spec.lock_free [OF S L] by (auto simp: Locked_lock_def)
    then show ?thesis by (simp add: locked_alloc_def locked_dealloc_def spin_mutex_spec.with_guard_held [OF S])
  qed
  ultimately show ?thesis using L safe by blast
qed

theorem locked_client_safe_witness:
  "\<exists>L0 p L'. locked_init flag_mutex (ll_fallback (\<lambda>_. ListNode_new 0)) HEAP_START HEAP_SIZE
      (ALLOCATOR_new flag_mutex (ll_fallback (\<lambda>_. ListNode_new 0)) (\<lambda>_. None)) = Some (Ret (), L0) \<and>
    locked_alloc flag_mutex (ll_fallback (\<lambda>_. ListNode_new 0)) (Layout 24 8) L0 = Some (Ret p, L') \<and> \<not> fst (inner L')"
proof -
  let ?F = "ll_fallback (\<lambda>_. ListNode_new 0)"
  obtain L0 where L0: "locked_init flag_mutex ?F HEAP_START HEAP_SIZE (ALLOCATOR_new flag_mutex ?F (\<lambda>_. None)) = Some (Ret (), L0)"
    by (simp add: locked_init_def ALLOCATOR_new_def Locked_new_def with_guard_def Locked_lock_def flag_mutex_def)
  have "fsb_req ll_servable (Layout 24 8)"
    by (simp add: fsb_req_def valid_request_def valid_layout_def from_size_align_def is_power_of_two_8
        ISIZE_MAX_def list_index_def BLOCK_SIZES_def Let_def max_def)
  then show ?thesis
    using locked_client_safe [OF flag_lock.spin_mutex_spec_axioms ll_fb.fallback_heap_axioms L0 locked_reach.start,
        where l = "Layout 24 8"] L0 by blast
qed

end
