(* ===== verification/Persistence.thy ===== *)
theory Persistence
  imports Simple_FS_Session
begin

text \<open>
  What \<open>mount\<close> (\<open>src/src/fs/simple_fs.rs\<close>) finds on a disk that was in use: the super block and the files
  of the file system that was there, because no operation but \<open>format\<close> touches block 0. A session
  that is cut by a reboot and continued on the mounted file system is one session.
\<close>

context reliable_sfs_env
begin

lemma mount_superblock:
  assumes dev: "dev_ok d" and cap: "0 < capacity D d"
    and image: "blocks d 0 = superblock_image Z sb" and magic: "magic_number sb = MAGIC_NUMBER"
  obtains d' where "mount Z D d = (Ret (Ok \<lparr>device = d', superblock = sb\<rparr>), d')" "dev_ok d'"
    "blocks d' = blocks d" "capacity D d' = capacity D d"
proof -
  from read_total [OF dev length_zero_block cap]
  obtain buf d' where read: "read_blocks D d 0 zero_block = (Ok (), buf, d')" by blast
  note facts = read_ok [OF dev length_zero_block read] read_frame [OF dev length_zero_block read]
  have "read_blocks D d 0 zero_block = (Ok (), superblock_image Z sb, d')" using read facts image by simp
  from mount_image [OF this] magic facts that [of d'] show thesis by simp
qed

lemma remount:
  assumes ok: "session_ok Z D dev_ok blocks fs" and image: "blocks (device fs) 0 = superblock_image Z (superblock fs)"
    and magic: "magic_number (superblock fs) = MAGIC_NUMBER"
    and d: "dev_ok d" "blocks d = blocks (device fs)" "capacity D d = capacity D (device fs)"
  obtains fs' where "mount Z D d = (Ret (Ok fs'), device fs')" "session_ok Z D dev_ok blocks fs'"
    "superblock fs' = superblock fs" "blocks (device fs') = blocks (device fs)"
proof -
  have "0 < capacity D d" using ok d(3) by (auto simp: session_ok_def word_neq_0_conv [symmetric])
  from mount_superblock [OF d(1) this _ magic] image d(2)
  obtain d' where "mount Z D d = (Ret (Ok \<lparr>device = d', superblock = superblock fs\<rparr>), d')" "dev_ok d'"
    "blocks d' = blocks d" "capacity D d' = capacity D d" by metis
  with ok d that [of "\<lparr>device = d', superblock = superblock fs\<rparr>"] show thesis
    by (simp add: session_ok_def)
qed

end

lemma afs_create_all_append:
  "afs_create_all (xs @ ys) a =
     (case afs_create_all xs a of (rs, a') \<Rightarrow> case afs_create_all ys a' of (rs', a'') \<Rightarrow> (rs @ rs', a''))"
  by (induction xs arbitrary: a) (simp_all split: prod.splits)

text \<open>
  C7: Files outlive a reboot. After format, root directory and any \<open>create_file\<close> calls, a disk
  opened again with the same contents mounts, with the same super block and the same files; calls
  made on the mounted file system then give the results and the final state that the two groups
  of calls have when they are made in one session.
\<close>

theorem session_survives_reboot:
  assumes env: "reliable_sfs_env Z D dev_ok blocks" and dev: "dev_ok d"
    and cap: "20 \<le> unat (capacity D d)"
    and reopen: "\<And>d. dev_ok d \<Longrightarrow> \<exists>d'. reopen d = Ret d' \<and> dev_ok d' \<and> blocks d' = blocks d \<and>
      capacity D d' = capacity D d"
  shows "\<exists>fs d1 fs1 rs fs2 d2 fs3 rs' fs4. format Z D d = (Ret (Ok fs), d1) \<and>
     init_root_directory Z D fs = (Ret (Ok ()), fs1) \<and> create_all Z D names fs1 = (Ret rs, fs2) \<and>
     reopen (device fs2) = Ret d2 \<and> mount Z D d2 = (Ret (Ok fs3), device fs3) \<and>
     superblock fs3 = superblock fs \<and> blocks (device fs3) = blocks (device fs2) \<and>
     create_all Z D names' fs3 = (Ret rs', fs4) \<and>
     (rs @ rs', afs_of Z (superblock fs4) (blocks (device fs4))) =
       afs_create_all (names @ names') (afs_of Z (superblock fs1) (blocks (device fs1)))"
proof -
  note sfs = reliable_sfs_env.axioms(1) [OF env]
  obtain fs d1 fs1 where one: "format Z D d = (Ret (Ok fs), d1)" "init_root_directory Z D fs = (Ret (Ok ()), fs1)"
    "session_ok Z D dev_ok blocks fs1" "superblock fs1 = layout_of (capacity D d)"
    "blocks (device fs1) 0 = superblock_image Z (superblock fs1)"
    by (rule reliable_sfs_env.fresh_session [OF env dev cap])
  from reliable_sfs_env.create_all_session [OF env one(3), of names]
  obtain rs fs2 where two: "create_all Z D names fs1 = (Ret rs, fs2)" "session_ok Z D dev_ok blocks fs2"
    "(rs, afs_of Z (superblock fs2) (blocks (device fs2))) =
       afs_create_all names (afs_of Z (superblock fs1) (blocks (device fs1)))"
    "superblock fs2 = superblock fs1" "blocks (device fs2) 0 = blocks (device fs1) 0" by blast
  obtain d2 where d2: "reopen (device fs2) = Ret d2" "dev_ok d2" "blocks d2 = blocks (device fs2)"
    "capacity D d2 = capacity D (device fs2)"
    using reopen two(2) by (metis session_ok_def)
  have "blocks (device fs2) 0 = superblock_image Z (superblock fs2)" "magic_number (superblock fs2) = MAGIC_NUMBER"
    using one(4,5) two(4,5) by (simp_all add: layout_of_def)
  from reliable_sfs_env.remount [OF env two(2) this d2(2-4)]
  obtain fs3 where three: "mount Z D d2 = (Ret (Ok fs3), device fs3)" "session_ok Z D dev_ok blocks fs3"
    "superblock fs3 = superblock fs2" "blocks (device fs3) = blocks (device fs2)" by metis
  from reliable_sfs_env.create_all_session [OF env three(2), of names']
  obtain rs' fs4 where four: "create_all Z D names' fs3 = (Ret rs', fs4)"
    "(rs', afs_of Z (superblock fs4) (blocks (device fs4))) =
       afs_create_all names' (afs_of Z (superblock fs2) (blocks (device fs2)))"
    using three(3,4) by auto
  have sb: "superblock fs3 = superblock fs"
    using sfs_env.format_layout(2) [OF sfs dev one(1)] one(4) two(4) three(3) by simp
  have "(rs @ rs', afs_of Z (superblock fs4) (blocks (device fs4))) =
      afs_create_all (names @ names') (afs_of Z (superblock fs1) (blocks (device fs1)))"
    unfolding afs_create_all_append two(3) [symmetric] prod.case four(2) [symmetric] ..
  with one two d2 three four sb show ?thesis by blast
qed

theorem session_survives_reboot_witness:
  "\<exists>fs d1 fs1 rs fs2 fs3 rs' fs4. format le_zerocopy sector_device (blank_disk 64) = (Ret (Ok fs), d1) \<and>
     init_root_directory le_zerocopy sector_device fs = (Ret (Ok ()), fs1) \<and>
     create_all le_zerocopy sector_device [[0x61]] fs1 = (Ret rs, fs2) \<and>
     mount le_zerocopy sector_device (device fs2) = (Ret (Ok fs3), device fs3) \<and>
     create_all le_zerocopy sector_device [[0x62], [0x61]] fs3 = (Ret rs', fs4) \<and>
     (rs @ rs', afs_of le_zerocopy (superblock fs4) (sectors (device fs4))) =
       afs_create_all [[0x61], [0x62], [0x61]] (afs_of le_zerocopy (superblock fs1) (sectors (device fs1)))"
proof -
  have cap: "20 \<le> unat (capacity sector_device (blank_disk 64))" by simp
  show ?thesis
    using session_survives_reboot [where reopen = Ret and names = "[[0x61]]" and names' = "[[0x62], [0x61]]",
        OF sfs_good_disk.reliable_sfs_env_axioms good_disk_ok_blank [of 64] cap]
    by (simp del: create_all.simps afs_create_all.simps) blast
qed

end
