(* ===== verification/Idle.thy ===== *)
theory Idle
  imports Tasks
begin

section \<open>Sleeping when idle (\<open>src/src/task/executor.rs\<close>, \<open>sleep_if_idle\<close>)\<close>

text \<open>
  \<open>sleep_if_idle\<close> one instruction at a time, with interrupt handlers in between that may wake
  tasks. An interrupt is taken only while the interrupt flag is set. \<open>enable_and_hlt\<close> is one step:
  the processor takes no interrupt between \<open>sti\<close> and the \<open>hlt\<close> that follows it. An interrupt ends
  \<open>hlt\<close>.
\<close>

datatype sleep_pc = Disabling | Checking | Halting | Enabling | Asleep | Returned

record 'q sleeper =
  sleep_pc :: sleep_pc
  sleep_flag :: bool
  sleep_queue :: 'q

definition sleep_if_idle :: "(TaskId, 'q) array_queue \<Rightarrow> 'q sleeper \<Rightarrow> 'q sleeper" where
  "sleep_if_idle Q y =
     (case sleep_pc y of
        Disabling \<Rightarrow> y\<lparr> sleep_flag := False, sleep_pc := Checking \<rparr>
      | Checking \<Rightarrow> y\<lparr> sleep_pc := (if aq_is_empty Q (sleep_queue y) then Halting else Enabling) \<rparr>
      | Halting \<Rightarrow> y\<lparr> sleep_flag := True, sleep_pc := Asleep \<rparr>
      | Enabling \<Rightarrow> y\<lparr> sleep_flag := True, sleep_pc := Returned \<rparr>
      | _ \<Rightarrow> y)"

text \<open>The handler wakes some tasks; after it, \<open>hlt\<close> and with it \<open>sleep_if_idle\<close> has returned.\<close>

inductive sleep_step :: "(TaskId, 'q) array_queue \<Rightarrow> 'q sleeper \<Rightarrow> 'q sleeper \<Rightarrow> bool" for Q where
  instruction: "sleep_pc y \<notin> {Asleep, Returned} \<Longrightarrow> sleep_step Q y (sleep_if_idle Q y)"
| interrupt: "\<lbrakk>sleep_flag y; wake_all Q wks (sleep_queue y) = Ret q\<rbrakk> \<Longrightarrow>
    sleep_step Q y (y\<lparr> sleep_queue := q, sleep_pc := (if sleep_pc y = Asleep then Returned else sleep_pc y) \<rparr>)"

inductive sleep_reach :: "(TaskId, 'q) array_queue \<Rightarrow> 'q sleeper \<Rightarrow> 'q sleeper \<Rightarrow> bool" for Q y0 where
  start: "sleep_reach Q y0 y0"
| step: "\<lbrakk>sleep_reach Q y0 y; sleep_step Q y y'\<rbrakk> \<Longrightarrow> sleep_reach Q y0 y'"

inductive_cases sleep_stepE: "sleep_step Q y y'"

definition sleep_inv :: "('q \<Rightarrow> TaskId list) \<Rightarrow> 'q sleeper \<Rightarrow> bool" where
  "sleep_inv aq_list y \<longleftrightarrow>
     (sleep_pc y \<in> {Checking, Halting, Enabling} \<longrightarrow> \<not> sleep_flag y) \<and>
     (sleep_pc y \<in> {Halting, Asleep} \<longrightarrow> aq_list (sleep_queue y) = []) \<and>
     (sleep_pc y \<in> {Asleep, Returned} \<longrightarrow> sleep_flag y)"

lemma sleep_inv_step:
  assumes "array_queue_spec Q aq_list aq_cap" "sleep_step Q y y'" "sleep_inv aq_list y"
  shows "sleep_inv aq_list y'"
  using assms(2,3) array_queue_spec.is_empty_law [OF assms(1)]
  by (elim sleep_stepE) (auto simp: sleep_inv_def sleep_if_idle_def split: sleep_pc.splits if_splits)

lemma sleep_inv_reach:
  assumes "array_queue_spec Q aq_list aq_cap" "sleep_reach Q y0 y" "sleep_inv aq_list y0"
  shows "sleep_inv aq_list y"
  using assms(2,3) by (induction rule: sleep_reach.induct) (auto intro: sleep_inv_step [OF assms(1)])

subsection \<open>Properties\<close>

text \<open>
  C16: The executor never sleeps through a wake-up. However interrupts fall between its
  instructions, \<open>sleep_if_idle\<close> halts the processor only while no task is queued, with interrupts
  enabled, and the interrupt that wakes a task ends the sleep. It returns with interrupts enabled.
\<close>

theorem sleep_no_lost_wakeup:
  assumes "array_queue_spec Q aq_list aq_cap" and "sleep_pc y0 = Disabling" and "sleep_reach Q y0 y"
  shows "(sleep_pc y = Asleep \<longrightarrow> aq_list (sleep_queue y) = [] \<and> sleep_flag y \<and>
      (\<forall>y'. sleep_step Q y y' \<longrightarrow> sleep_pc y' = Returned)) \<and>
    (sleep_pc y = Returned \<longrightarrow> sleep_flag y)"
proof -
  have "sleep_inv aq_list y0" using assms(2) by (simp add: sleep_inv_def)
  from sleep_inv_reach [OF assms(1,3) this] show ?thesis
    by (auto simp: sleep_inv_def elim: sleep_stepE)
qed

theorem sleep_no_lost_wakeup_witness:
  "\<exists>y y'. sleep_reach list_queue \<lparr> sleep_pc = Disabling, sleep_flag = True, sleep_queue = ([], 100) \<rparr> y \<and>
    sleep_pc y = Asleep \<and> sleep_step list_queue y y' \<and> fst (sleep_queue y') = [7] \<and> sleep_pc y' = Returned"
proof -
  let ?z = "\<lparr> sleep_pc = Disabling, sleep_flag = True, sleep_queue = ([] :: TaskId list, 100) \<rparr>"
  let ?y = "\<lparr> sleep_pc = Asleep, sleep_flag = True, sleep_queue = ([] :: TaskId list, 100) \<rparr>"
  have move: "sleep_reach list_queue ?z (sleep_if_idle list_queue y)"
    if "sleep_reach list_queue ?z y" "sleep_pc y \<notin> {Asleep, Returned}" for y
    using that by (blast intro: sleep_reach.step sleep_step.instruction)
  have "?y = sleep_if_idle list_queue (sleep_if_idle list_queue (sleep_if_idle list_queue ?z))"
    by (simp add: sleep_if_idle_def list_queue_def)
  then have "sleep_reach list_queue ?z ?y"
    by (simp only:) (intro move sleep_reach.start; simp add: sleep_if_idle_def list_queue_def)
  moreover have "wake_all list_queue [TaskWaker 7] ([], 100) = Ret ([7], 100)"
    by (simp add: list_queue_def wake_task_def)
  then have "\<exists>y'. sleep_step list_queue ?y y' \<and> fst (sleep_queue y') = [7]"
    using sleep_step.interrupt [of ?y list_queue "[TaskWaker 7]" "([7], 100)"] by fastforce
  ultimately show ?thesis
    using sleep_no_lost_wakeup [OF list_q.array_queue_spec_axioms, of ?z ?y] by fastforce
qed

end
