(* ===== verification/Bump.thy ===== *)
theory Bump
  imports Allocator
begin

section \<open>The bump allocator (\<open>src/src/allocator/bump.rs\<close>)\<close>

text \<open>
  The allocator's four counters, its operations, and the invariant under which it is a
  \<open>global_alloc\<close>: everything the client holds lies below \<open>next\<close>, and \<open>allocations\<close> counts it.
\<close>

record BumpAllocator =
  heap_start :: usize
  heap_end :: usize
  bump_next :: usize
  allocations :: usize

definition bump_new :: BumpAllocator where
  "bump_new = \<lparr> heap_start = 0, heap_end = 0, bump_next = 0, allocations = 0 \<rparr>"

definition bump_init :: "usize \<Rightarrow> usize \<Rightarrow> BumpAllocator \<Rightarrow> BumpAllocator outcome" where
  "bump_init start sz bump =
     bind_out (add_ck start sz) (\<lambda>stop.
     Ret (bump\<lparr> heap_start := start, heap_end := stop, bump_next := start \<rparr>))"

definition bump_alloc :: "Layout \<Rightarrow> BumpAllocator \<Rightarrow> usize outcome \<times> BumpAllocator" where
  "bump_alloc layout bump =
     (case align_up (bump_next bump) (layout_align layout) of
        Panic \<Rightarrow> (Panic, bump)
      | Ret alloc_start \<Rightarrow>
          (case checked_add alloc_start (layout_size layout) of
             None \<Rightarrow> (Ret 0, bump)
           | Some alloc_end \<Rightarrow>
               if alloc_end > heap_end bump then (Ret 0, bump)
               else
                 (case add_ck (allocations bump) 1 of
                    Panic \<Rightarrow> (Panic, bump)
                  | Ret n \<Rightarrow> (Ret alloc_start, bump\<lparr> bump_next := alloc_end, allocations := n \<rparr>))))"

definition bump_dealloc :: "usize \<Rightarrow> Layout \<Rightarrow> BumpAllocator \<Rightarrow> unit outcome \<times> BumpAllocator" where
  "bump_dealloc ptr layout bump =
     (case sub_ck (allocations bump) 1 of
        Panic \<Rightarrow> (Panic, bump)
      | Ret n \<Rightarrow>
          (Ret (), if n = 0 then bump\<lparr> allocations := n, bump_next := heap_start bump \<rparr>
                   else bump\<lparr> allocations := n \<rparr>))"

text \<open>The allocator keeps nothing in the heap, so the client's writes do not reach it.\<close>

definition bump_writes :: "(usize \<times> Layout) set \<Rightarrow> BumpAllocator \<Rightarrow> BumpAllocator \<Rightarrow> bool" where
  "bump_writes live s s' \<longleftrightarrow> s' = s"

definition bump_inv :: "nat \<Rightarrow> nat \<Rightarrow> BumpAllocator \<Rightarrow> (usize \<times> Layout) set \<Rightarrow> bool" where
  "bump_inv lo hi s live \<longleftrightarrow>
     unat (heap_start s) = lo \<and> unat (heap_end s) = hi \<and> 0 < lo \<and> hi \<le> 2 ^ 63 \<and>
     lo \<le> unat (bump_next s) \<and> unat (bump_next s) \<le> hi \<and>
     live_ok lo (unat (bump_next s)) live \<and>
     unat (allocations s) = card live \<and> lo + card live \<le> unat (bump_next s)"

lemma bump_alloc_law:
  assumes inv: "bump_inv lo hi s live" and req: "valid_request l"
  shows "\<exists>p s'. bump_alloc l s = (Ret p, s') \<and>
    (if p = 0 then bump_inv lo hi s' live
     else (p, l) \<notin> live \<and> bump_inv lo hi s' (insert (p, l) live))"
proof -
  note v = valid_requestD [OF req]
  let ?next = "unat (bump_next s)" and ?a = "unat (layout_align l)" and ?n = "unat (layout_size l)"
  have nx: "0 < ?next" "?next \<le> 2 ^ 63" "lo \<le> ?next" using inv by (auto simp: bump_inv_def)
  note r = round_up_bounds [OF v(4), of ?next]
  have sum: "?next + ?a < 2 ^ 64"
  proof (cases "?a = 2 ^ 63")
    case True
    then show ?thesis using v(2,3) by simp
  next
    case False
    then show ?thesis using v(5) nx(2) by simp
  qed
  define p :: usize where "p = of_nat (round_up ?next ?a)"
  have p: "unat p = round_up ?next ?a" unfolding p_def using r(3) sum by (intro unat_of_nat_eq) simp
  have up: "align_up (bump_next s) (layout_align l) = Ret p" using sum by (simp add: align_up_eq [OF v(1)] p_def)
  show ?thesis
  proof (cases "unat p + ?n < 2 ^ 64 \<and> unat p + ?n \<le> hi")
    case False
    then have "bump_alloc l s = (Ret 0, s)"
      using inv up unat_add_no_overflow [of p "layout_size l"]
      by (auto simp: bump_alloc_def checked_add_def bump_inv_def word_less_nat_alt)
    with inv show ?thesis by simp
  next
    case True
    let ?e = "p + layout_size l"
    have e: "unat ?e = unat p + ?n" using True by (simp add: unat_add_no_overflow)
    have card: "card live < 2 ^ 63" using inv by (auto simp: bump_inv_def)
    then have add: "add_ck (allocations s) 1 = Ret (allocations s + 1)"
      and cnt: "unat (allocations s + 1) = card live + 1"
      using inv by (auto simp: bump_inv_def add_ck_def unat_add_no_overflow)
    have run: "bump_alloc l s = (Ret p, s\<lparr> bump_next := ?e, allocations := allocations s + 1 \<rparr>)"
      using up True e add inv
      by (simp add: bump_alloc_def checked_add_def bump_inv_def word_less_nat_alt)
    have p0: "p \<noteq> 0" using p r(2) nx(1) by auto
    have old: "live_ok lo ?next live" using inv by (simp add: bump_inv_def)
    then have up': "live_ok lo (unat ?e) live"
      using e p r(2) unfolding live_ok_def by fastforce
    have ext: "extent (p, l) \<subseteq> {lo..<unat ?e}" using e p r(2) nx(3) by (auto simp: extent_def)
    have "\<forall>b\<in>live. extent b \<inter> extent (p, l) = {}"
      using old p r(2) by (fastforce simp: live_ok_def extent_def)
    note new = live_ok_insert [OF up' p0 req _ ext this]
    have "card (insert (p, l) live) = card live + 1"
      using new p r(1) old by (simp add: live_ok_def)
    then have "bump_inv lo hi (s\<lparr> bump_next := ?e, allocations := allocations s + 1 \<rparr>) (insert (p, l) live)"
      using inv new p r(1,2) e True cnt v(2) by (simp add: bump_inv_def)
    with run p0 new p r(1) show ?thesis by simp
  qed
qed

lemma bump_dealloc_law:
  assumes inv: "bump_inv lo hi s live" and mem: "(p, l) \<in> live"
  shows "\<exists>s'. bump_dealloc p l s = (Ret (), s') \<and> bump_inv lo hi s' (live - {(p, l)})"
proof -
  have fin: "finite live" using inv by (simp add: bump_inv_def live_ok_def)
  then have pos: "0 < card live" using mem card_gt_0_iff by blast
  have le: "1 \<le> allocations s" using inv pos by (simp add: bump_inv_def word_le_nat_alt)
  have cnt: "unat (allocations s - 1) = card (live - {(p, l)})"
    using inv mem fin unat_sub [OF le] by (simp add: bump_inv_def)
  have ok: "live_ok lo (unat (bump_next s)) (live - {(p, l)})"
    using inv by (auto simp: bump_inv_def intro: live_ok_subset)
  show ?thesis
  proof (cases "allocations s - 1 = 0")
    case True
    then have "live - {(p, l)} = {}" using cnt fin by simp
    then have "live = {(p, l)}" using mem by auto
    with True inv le cnt show ?thesis by (auto simp: bump_dealloc_def bump_inv_def)
  next
    case False
    with inv le cnt ok mem fin show ?thesis
      by (auto simp: bump_dealloc_def bump_inv_def card_Diff_singleton)
  qed
qed

definition bump_call :: "BumpAllocator alloc_fn" where
  "bump_call layout bump = Some (bump_alloc layout bump)"

interpretation bump: global_alloc valid_request bump_call bump_dealloc bump_writes "bump_inv lo hi" lo hi
  for lo hi :: nat
proof
  fix s live l p s'
  show "live_ok lo hi live" if "bump_inv lo hi s live"
    using that unfolding bump_inv_def live_ok_def by fastforce
  show "bump_inv lo hi s' live" if "bump_inv lo hi s live" "bump_writes live s s'"
    using that by (simp add: bump_writes_def)
qed (use bump_alloc_law bump_dealloc_law in \<open>simp add: bump_call_def\<close>)+

lemma bump_init_inv:
  assumes "0 < unat start" "unat start + unat sz \<le> 2 ^ 63"
  shows "\<exists>s. bump_init start sz bump_new = Ret s \<and> bump_inv (unat start) (unat start + unat sz) s {}"
  using assms by (auto simp: bump_init_def bump_new_def bump_inv_def add_ck_def unat_add_no_overflow)

text \<open>
  C33: The bump allocator is safe for every client. However requests and releases are mixed, the
  blocks the client holds are inside the heap, aligned and disjoint, and no call panics.
\<close>

theorem bump_client_safe:
  assumes "bump_init start sz bump_new = Ret s0"
    and "0 < unat start" "unat start + unat sz \<le> 2 ^ 63"
    and "client_reach valid_request bump_call bump_dealloc bump_writes s0 s live"
  shows "live_ok (unat start) (unat start + unat sz) live \<and>
    (valid_request l \<longrightarrow> (\<exists>p s'. bump_call l s = Some (Ret p, s') \<and>
       (p \<noteq> 0 \<longrightarrow> (p, l) \<notin> live \<and> live_ok (unat start) (unat start + unat sz) (insert (p, l) live)))) \<and>
    (b \<in> live \<longrightarrow> (\<exists>s'. bump_dealloc (fst b) (snd b) s = (Ret (), s')))"
  using bump.client_safe [OF assms(4)] bump_init_inv [OF assms(2,3)] assms(1) by auto

theorem bump_client_safe_witness:
  "\<exists>s0 p s'. bump_init HEAP_START HEAP_SIZE bump_new = Ret s0 \<and>
     bump_call (Layout 24 8) s0 = Some (Ret p, s')"
proof -
  obtain s0 where s0: "bump_init HEAP_START HEAP_SIZE bump_new = Ret s0"
    using bump_init_inv [of HEAP_START HEAP_SIZE] by (auto simp: HEAP_START_def HEAP_SIZE_def)
  have "is_power_of_two 8" unfolding is_power_of_two_def by (rule exI [of _ 3]) simp
  then have "valid_request (Layout 24 8)"
    by (simp add: valid_request_def valid_layout_def from_size_align_def ISIZE_MAX_def)
  with bump_client_safe [OF s0 _ _ client_reach.start, of "Layout 24 8"] s0 show ?thesis
    by (auto simp: HEAP_START_def HEAP_SIZE_def)
qed

end
