(* ===== verification/Vga_Buffer.thy ===== *)
theory Vga_Buffer
  imports Kernel_Prelude
begin

section \<open>The VGA text buffer (\<open>src/src/vga_buffer.rs\<close>)\<close>

text \<open>
  The writer on the 25 by 80 character buffer, cell by cell as the loops of \<open>new_line\<close> and
  \<open>clear_row\<close> run. Its contract is a terminal that keeps every line ever written: the buffer
  always shows the last 25 of them.
\<close>

unbundle bit_operations_syntax

datatype Color = Black | Blue | Green | Cyan | Red | Magenta | Brown | LightGray | DarkGray
  | LightBlue | LightGreen | LightCyan | LightRed | Pink | Yellow | White

fun color_as_u8 :: "Color \<Rightarrow> u8" where
  "color_as_u8 Black = 0" | "color_as_u8 Blue = 1" | "color_as_u8 Green = 2" | "color_as_u8 Cyan = 3"
| "color_as_u8 Red = 4" | "color_as_u8 Magenta = 5" | "color_as_u8 Brown = 6" | "color_as_u8 LightGray = 7"
| "color_as_u8 DarkGray = 8" | "color_as_u8 LightBlue = 9" | "color_as_u8 LightGreen = 10"
| "color_as_u8 LightCyan = 11" | "color_as_u8 LightRed = 12" | "color_as_u8 Pink = 13"
| "color_as_u8 Yellow = 14" | "color_as_u8 White = 15"

type_synonym ColorCode = u8

definition ColorCode_new :: "Color \<Rightarrow> Color \<Rightarrow> ColorCode" where
  "ColorCode_new foreground background = push_bit 4 (color_as_u8 background) OR color_as_u8 foreground"

record ScreenChar =
  ascii_character :: u8
  char_color :: ColorCode

definition BUFFER_HEIGHT :: nat where "BUFFER_HEIGHT = 25"
definition BUFFER_WIDTH :: nat where "BUFFER_WIDTH = 80"

type_synonym Buffer = "ScreenChar list list"

record Writer =
  column_position :: nat
  color_code :: ColorCode
  buffer :: Buffer

definition write_cell :: "nat \<Rightarrow> nat \<Rightarrow> ScreenChar \<Rightarrow> Buffer \<Rightarrow> Buffer" where
  "write_cell row col c b = b[row := (b ! row)[col := c]]"

definition clear_row :: "nat \<Rightarrow> Writer \<Rightarrow> Writer" where
  "clear_row row w =
     (let blank = \<lparr> ascii_character = 0x20, char_color = color_code w \<rparr> in
      w\<lparr> buffer := fold (\<lambda>col. write_cell row col blank) [0..<BUFFER_WIDTH] (buffer w) \<rparr>)"

definition copy_row_up :: "nat \<Rightarrow> Buffer \<Rightarrow> Buffer" where
  "copy_row_up row b =
     fold (\<lambda>col b. let character = b ! row ! col in write_cell (row - 1) col character b) [0..<BUFFER_WIDTH] b"

definition new_line :: "Writer \<Rightarrow> Writer" where
  "new_line w =
     (let w1 = w\<lparr> buffer := fold copy_row_up [1..<BUFFER_HEIGHT] (buffer w) \<rparr>;
          w2 = clear_row (BUFFER_HEIGHT - 1) w1 in
      w2\<lparr> column_position := 0 \<rparr>)"

definition write_byte :: "u8 \<Rightarrow> Writer \<Rightarrow> Writer outcome" where
  "write_byte byte w =
     (if byte = 10 then Ret (new_line w)
      else
        let w1 = (if column_position w \<ge> BUFFER_WIDTH then new_line w else w);
            row = BUFFER_HEIGHT - 1;
            col = column_position w1 in
        if row < length (buffer w1) \<and> col < length (buffer w1 ! row) then
          Ret (w1\<lparr> buffer := write_cell row col \<lparr> ascii_character = byte, char_color = color_code w1 \<rparr> (buffer w1),
                   column_position := col + 1 \<rparr>)
        else Panic)"

fun write_string :: "u8 list \<Rightarrow> Writer \<Rightarrow> Writer outcome" where
  "write_string [] w = Ret w"
| "write_string (byte # bytes) w =
     bind_out (if 0x20 \<le> byte \<and> byte \<le> 0x7e \<or> byte = 10 then write_byte byte w else write_byte 0xfe w)
       (write_string bytes)"

definition write_str :: "u8 list \<Rightarrow> Writer \<Rightarrow> ((unit, unit) result \<times> Writer) outcome" where
  "write_str s w = bind_out (write_string s w) (\<lambda>w'. Ret (Ok (), w'))"

text \<open>\<open>WRITER\<close>, over the contents of the video memory, and \<open>_print\<close>, over the pieces that the
  formatting machinery of the core library passes to \<open>write_str\<close>.\<close>

definition WRITER_init :: "Buffer \<Rightarrow> Writer" where
  "WRITER_init mem = \<lparr> column_position = 0, color_code = ColorCode_new Yellow Red, buffer = mem \<rparr>"

fun vga_print :: "u8 list list \<Rightarrow> Writer \<Rightarrow> Writer outcome" where
  "vga_print [] w = Ret w"
| "vga_print (s # ss) w =
     bind_out (write_str s w) (\<lambda>(r, w'). case r of Ok _ \<Rightarrow> vga_print ss w' | Err _ \<Rightarrow> Panic)"

definition bytes_of :: "string \<Rightarrow> u8 list" where
  "bytes_of s = map of_char s"

text \<open>A writer of its own, and the test of the module, for the string it prints and any other.\<close>

definition print_something :: "Buffer \<Rightarrow> Writer outcome" where
  "print_something mem =
     (let writer = \<lparr> column_position = 0, color_code = ColorCode_new Yellow Blue, buffer = mem \<rparr> in
      bind_out (write_byte (of_char (CHR ''H'')) writer) (\<lambda>writer.
      bind_out (write_string (bytes_of ''ello '') writer) (\<lambda>writer.
      vga_print (map bytes_of [''The numbers are '', ''42'', '' and '', ''0.3333333333333333'']) writer)))"

fun check_chars :: "nat \<Rightarrow> u8 list \<Rightarrow> Writer \<Rightarrow> unit outcome" where
  "check_chars i [] w = Ret ()"
| "check_chars i (c # cs) w =
     (if BUFFER_HEIGHT - 2 < length (buffer w) \<and> i < length (buffer w ! (BUFFER_HEIGHT - 2)) \<and>
         ascii_character (buffer w ! (BUFFER_HEIGHT - 2) ! i) = c
      then check_chars (i + 1) cs w else Panic)"

definition test_println_output :: "u8 list \<Rightarrow> Writer \<Rightarrow> Writer outcome" where
  "test_println_output s w =
     bind_out (vga_print [[10], s, [10]] w) (\<lambda>w'. bind_out (check_chars 0 s w') (\<lambda>_. Ret w'))"

definition test_string :: "u8 list" where
  "test_string = bytes_of ''Some test string that fits on a single line''"

subsection \<open>The terminal\<close>

text \<open>
  The contract: the finished rows, all of them; the row the current line is written over; and
  the bytes of the current line.
\<close>

record terminal =
  term_rows :: "ScreenChar list list"
  term_base :: "ScreenChar list"
  term_line :: "u8 list"

definition styled :: "ColorCode \<Rightarrow> u8 \<Rightarrow> ScreenChar" where
  "styled c b = \<lparr> ascii_character = b, char_color = c \<rparr>"

definition current_row :: "ColorCode \<Rightarrow> terminal \<Rightarrow> ScreenChar list" where
  "current_row c t = map (styled c) (term_line t) @ drop (length (term_line t)) (term_base t)"

definition term_newline :: "ColorCode \<Rightarrow> terminal \<Rightarrow> terminal" where
  "term_newline c t =
     \<lparr> term_rows = term_rows t @ [current_row c t], term_base = replicate 80 (styled c 0x20), term_line = [] \<rparr>"

definition term_put :: "ColorCode \<Rightarrow> u8 \<Rightarrow> terminal \<Rightarrow> terminal" where
  "term_put c b t =
     (if b = 10 then term_newline c t
      else
        let t1 = (if length (term_line t) = 80 then term_newline c t else t) in
        t1\<lparr> term_line := term_line t1 @ [b] \<rparr>)"

definition printable :: "u8 \<Rightarrow> u8" where
  "printable b = (if 0x20 \<le> b \<and> b \<le> 0x7e \<or> b = 10 then b else 0xfe)"

definition last_rows :: "nat \<Rightarrow> 'a list \<Rightarrow> 'a list" where
  "last_rows n xs = drop (length xs - n) xs"

definition displays :: "terminal \<Rightarrow> Writer \<Rightarrow> bool" where
  "displays t w \<longleftrightarrow>
     24 \<le> length (term_rows t) \<and> (\<forall>r\<in>set (term_rows t). length r = 80) \<and> length (term_base t) = 80 \<and>
     length (term_line t) \<le> 80 \<and> column_position w = length (term_line t) \<and>
     buffer w = last_rows 25 (term_rows t @ [current_row (color_code w) t])"

subsection \<open>What the loops compute\<close>

definition wf_buffer :: "Buffer \<Rightarrow> bool" where
  "wf_buffer b \<longleftrightarrow> length b = BUFFER_HEIGHT \<and> (\<forall>r\<in>set b. length r = BUFFER_WIDTH)"

lemma fill_cells:
  assumes "row < length b" "n \<le> length (b ! row)"
  shows "fold (\<lambda>col. write_cell row col c) [0..<n] b = b[row := replicate n c @ drop n (b ! row)]"
  using assms(2)
proof (induction n)
  case (Suc n)
  then have "drop n (b ! row) = b ! row ! n # drop (Suc n) (b ! row)" by (simp add: Cons_nth_drop_Suc)
  with Suc assms(1) show ?case
    by (simp add: write_cell_def list_update_append replicate_append_same [symmetric])
qed (use assms(1) in simp)

lemma copy_cells:
  assumes "0 < row" "row < length b" "n \<le> length (b ! row)" "n \<le> length (b ! (row - 1))"
  shows "fold (\<lambda>col b. let character = b ! row ! col in write_cell (row - 1) col character b) [0..<n] b =
    b[row - 1 := take n (b ! row) @ drop n (b ! (row - 1))]"
  using assms(3,4)
proof (induction n)
  case (Suc n)
  then have "drop n (b ! (row - 1)) = b ! (row - 1) ! n # drop (Suc n) (b ! (row - 1))"
    by (simp add: Cons_nth_drop_Suc)
  with Suc assms(1,2) show ?case
    by (simp add: write_cell_def Let_def list_update_append take_Suc_conv_app_nth)
qed (use assms in simp)

lemma copy_row_up_eq:
  assumes "wf_buffer b" "0 < row" "row < 25"
  shows "copy_row_up row b = b[row - 1 := b ! row]"
  using copy_cells [of row b 80] assms
  by (simp add: copy_row_up_def wf_buffer_def BUFFER_HEIGHT_def BUFFER_WIDTH_def del: upt_rec_numeral)

lemma copy_rows:
  assumes "wf_buffer b" "k < 25"
  shows "fold copy_row_up [1..<Suc k] b = take k (tl b) @ drop k b"
  using assms(2)
proof (induction k)
  case (Suc k)
  let ?b = "take k (tl b) @ drop k b"
  have len: "length b = 25" "\<forall>r\<in>set b. length r = 80"
    using assms(1) by (simp_all add: wf_buffer_def BUFFER_HEIGHT_def BUFFER_WIDTH_def)
  have "set ?b \<subseteq> set b"
    by (cases b) (auto dest: in_set_takeD in_set_dropD)
  then have "wf_buffer ?b"
    using len Suc.prems by (auto simp: wf_buffer_def BUFFER_HEIGHT_def BUFFER_WIDTH_def)
  then have "copy_row_up (Suc k) ?b = ?b[k := ?b ! Suc k]" using Suc.prems by (simp add: copy_row_up_eq)
  also have "\<dots> = take (Suc k) (tl b) @ drop (Suc k) b"
  proof (rule nth_equalityI)
    fix i assume "i < length (?b[k := ?b ! Suc k])"
    then show "?b[k := ?b ! Suc k] ! i = (take (Suc k) (tl b) @ drop (Suc k) b) ! i"
      using Suc.prems len by (cases "i < k"; cases "i = k") (simp_all add: nth_append nth_tl)
  qed (use Suc.prems len in simp)
  finally show ?case using Suc by simp
qed simp

lemma new_line_eq:
  assumes "wf_buffer (buffer w)"
  shows "new_line w = w\<lparr>buffer := tl (buffer w) @ [replicate 80 (styled (color_code w) 0x20)], column_position := 0\<rparr>"
proof -
  let ?b = "buffer w"
  have len: "length ?b = 25" "length (?b ! 24) = 80"
    using assms by (simp_all add: wf_buffer_def BUFFER_HEIGHT_def BUFFER_WIDTH_def)
  have "fold copy_row_up [1..<BUFFER_HEIGHT] ?b = tl ?b @ [?b ! 24]"
    using copy_rows [OF assms, of 24] len Cons_nth_drop_Suc [of 24 ?b]
    by (simp add: BUFFER_HEIGHT_def del: upt_rec_numeral)
  then show ?thesis
    using fill_cells [of 24 "tl ?b @ [?b ! 24]" 80 "styled (color_code w) 0x20"] len
    by (simp add: new_line_def clear_row_def Let_def BUFFER_HEIGHT_def BUFFER_WIDTH_def styled_def nth_append
        list_update_append del: upt_rec_numeral)
qed

subsection \<open>The writer shows the end of the terminal\<close>

lemma length_current_row [simp]:
  "\<lbrakk>length (term_base t) = 80; length (term_line t) \<le> 80\<rbrakk> \<Longrightarrow> length (current_row c t) = 80"
  by (simp add: current_row_def)

lemma displays_wf:
  assumes "displays t w"
  shows "wf_buffer (buffer w)"
proof -
  have "set (buffer w) \<subseteq> insert (current_row (color_code w) t) (set (term_rows t))"
    using assms by (auto simp: displays_def last_rows_def dest!: in_set_dropD)
  then show ?thesis
    using assms by (auto simp: displays_def wf_buffer_def last_rows_def BUFFER_HEIGHT_def BUFFER_WIDTH_def)
qed

lemma displays_new_line:
  assumes "displays t w"
  shows "displays (term_newline (color_code w) t) (new_line w) \<and> color_code (new_line w) = color_code w"
proof -
  let ?rows = "term_rows t @ [current_row (color_code w) t]"
  have d: "24 \<le> length (term_rows t)" "buffer w = last_rows 25 ?rows"
    using assms by (simp_all add: displays_def)
  then have "Suc (length (term_rows t) - 24) = length (term_rows t) - 23" by simp
  then have "tl (buffer w) = drop (length (term_rows t) - 23) ?rows"
    using d by (simp add: last_rows_def tl_drop drop_Suc [symmetric] flip: drop_Suc)
  then have "tl (buffer w) @ [r] = last_rows 25 (?rows @ [r])" for r
    using d(1) by (simp add: last_rows_def)
  then show ?thesis
    using assms new_line_eq [OF displays_wf [OF assms]]
    by (auto simp: displays_def term_newline_def current_row_def)
qed

lemma displays_put_char:
  assumes "displays t w" "length (term_line t) < 80" "b \<noteq> 10"
  shows "\<exists>w'. write_byte b w = Ret w' \<and> displays (t\<lparr>term_line := term_line t @ [b]\<rparr>) w' \<and>
    color_code w' = color_code w"
proof -
  let ?c = "color_code w" and ?n = "length (term_line t)" and ?k = "length (term_rows t) - 24"
  have d: "24 \<le> length (term_rows t)" "length (term_base t) = 80" "column_position w = ?n"
    "buffer w = drop ?k (term_rows t) @ [current_row ?c t]"
    using assms(1) by (simp_all add: displays_def last_rows_def)
  then have at: "length (buffer w) = 25" "buffer w ! 24 = current_row ?c t" by (simp_all add: nth_append)
  have "(current_row ?c t)[?n := styled ?c b] = current_row ?c (t\<lparr>term_line := term_line t @ [b]\<rparr>)"
    using assms(2) d(2) Cons_nth_drop_Suc [of ?n "term_base t"]
    by (simp add: current_row_def list_update_append flip: Cons_nth_drop_Suc)
  then have "write_cell 24 ?n (styled ?c b) (buffer w) =
      drop ?k (term_rows t) @ [current_row ?c (t\<lparr>term_line := term_line t @ [b]\<rparr>)]"
    using d at by (simp add: write_cell_def list_update_append)
  then show ?thesis
    using assms d at
    by (simp add: write_byte_def BUFFER_WIDTH_def BUFFER_HEIGHT_def Let_def displays_def last_rows_def styled_def)
qed

lemma write_byte_refines:
  assumes "displays t w"
  shows "\<exists>w'. write_byte b w = Ret w' \<and> displays (term_put (color_code w) b t) w' \<and> color_code w' = color_code w"
proof (cases "b = 10 \<or> length (term_line t) < 80")
  case True
  then show ?thesis
    using displays_new_line [OF assms] displays_put_char [OF assms]
    by (auto simp: write_byte_def term_put_def)
next
  case False
  then have full: "b \<noteq> 10" "length (term_line t) = 80" using assms by (auto simp: displays_def)
  let ?w = "new_line w" and ?t = "term_newline (color_code w) t"
  have nl: "displays ?t ?w" "color_code ?w = color_code w" using displays_new_line [OF assms] by simp_all
  have "write_byte b w = write_byte b ?w"
    using full assms nl(1)
    by (simp add: write_byte_def BUFFER_WIDTH_def Let_def displays_def term_newline_def)
  then show ?thesis
    using displays_put_char [OF nl(1) _ full(1)] full nl(2) by (auto simp: term_put_def term_newline_def Let_def)
qed

lemma write_string_refines:
  assumes "displays t w"
  shows "\<exists>w'. write_string s w = Ret w' \<and>
    displays (fold (term_put (color_code w)) (map printable s) t) w' \<and> color_code w' = color_code w"
  using assms
proof (induction s arbitrary: t w)
  case (Cons b s)
  obtain w1 where w1: "write_byte (printable b) w = Ret w1" "color_code w1 = color_code w"
    "displays (term_put (color_code w) (printable b) t) w1"
    using write_byte_refines [OF Cons.prems] by blast
  have "write_string (b # s) w = write_string s w1" 
    using w1(1) by (cases "0x20 \<le> b \<and> b \<le> 0x7e \<or> b = 10") (auto simp: printable_def)
  then show ?case using Cons.IH [OF w1(3)] w1(2) by simp
qed simp

text \<open>A line that fits.\<close>

lemma put_line:
  assumes "term_line t = []" "length s \<le> 80" "\<forall>b\<in>set s. b \<noteq> 10"
  shows "fold (term_put c) s t = t\<lparr>term_line := s\<rparr>"
  using assms(2,3)
proof (induction s rule: rev_induct)
  case (snoc b s)
  then show ?case by (simp add: term_put_def)
qed (simp add: assms(1))

lemma displays_init:
  assumes "wf_buffer mem"
  shows "displays \<lparr> term_rows = take 24 mem, term_base = mem ! 24, term_line = [] \<rparr> (WRITER_init mem)"
proof -
  have "length mem = 25" "\<forall>r\<in>set mem. length r = 80"
    using assms by (simp_all add: wf_buffer_def BUFFER_HEIGHT_def BUFFER_WIDTH_def)
  moreover from this have "take 24 mem @ [mem ! 24] = mem" by (simp flip: take_Suc_conv_app_nth)
  ultimately show ?thesis
    by (auto simp: displays_def WRITER_init_def current_row_def last_rows_def dest: in_set_takeD)
qed

lemma vga_print_displays:
  assumes "displays t w"
  shows "\<exists>w'. vga_print ss w = Ret w' \<and>
    displays (fold (term_put (color_code w)) (map printable (concat ss)) t) w' \<and> color_code w' = color_code w"
  using assms
proof (induction ss arbitrary: t w)
  case (Cons s ss)
  obtain w1 where w1: "write_string s w = Ret w1" "color_code w1 = color_code w"
    "displays (fold (term_put (color_code w)) (map printable s) t) w1"
    using write_string_refines [OF Cons.prems] by blast
  then show ?case using Cons.IH [OF w1(3)] by (simp add: write_str_def)
qed simp

subsection \<open>Properties\<close>



lemma writeln_visible:
  assumes "displays t w" and "length s \<le> 80" and "\<forall>b\<in>set s. 0x20 \<le> b \<and> b \<le> 0x7e"
  shows "\<exists>w'. vga_print [[10], s, [10]] w = Ret w' \<and> column_position w' = 0 \<and> wf_buffer (buffer w') \<and>
    (\<forall>i<length s. buffer w' ! (BUFFER_HEIGHT - 2) ! i = styled (color_code w) (s ! i))"
proof -
  have no10: "\<forall>b\<in>set s. b \<noteq> 10" using assms(3) by (auto simp: word_le_nat_alt)
  have pr: "map printable s = s" using assms(3) by (intro map_idI) (simp add: printable_def)
  let ?c = "color_code w" and ?n = "length (term_rows t)"
  let ?t1 = "term_newline ?c t"
  let ?t2 = "?t1\<lparr>term_line := s\<rparr>"
  have "fold (term_put ?c) (map printable (concat [[10], s, [10]])) t = term_newline ?c ?t2"
    using put_line [OF _ assms(2) no10, of ?t1 ?c] by (simp add: pr printable_def term_put_def term_newline_def)
  then obtain w' where w': "vga_print [[10], s, [10]] w = Ret w'" "displays (term_newline ?c ?t2) w'"
    using vga_print_displays [OF assms(1), of "[[10], s, [10]]"] by auto
  have n: "24 \<le> ?n" using assms(1) by (simp add: displays_def)
  have "buffer w' = last_rows 25 (term_rows t @ [current_row ?c t, current_row ?c ?t2,
      current_row (color_code w') (term_newline ?c ?t2)])" "column_position w' = 0"
    using w'(2) by (simp_all add: displays_def term_newline_def)
  then have "buffer w' ! 23 = current_row ?c ?t2" "column_position w' = 0"
    using n by (simp_all add: last_rows_def nth_append)
  with w' show ?thesis
    by (simp add: BUFFER_HEIGHT_def current_row_def nth_append displays_wf)
qed

lemma check_chars_ok:
  assumes "wf_buffer (buffer w)" "i + length s \<le> 80"
    "\<forall>j<length s. ascii_character (buffer w ! (BUFFER_HEIGHT - 2) ! (i + j)) = s ! j"
  shows "check_chars i s w = Ret ()"
  using assms(2,3)
proof (induction s arbitrary: i)
  case (Cons c cs)
  have "\<forall>j<length cs. ascii_character (buffer w ! (BUFFER_HEIGHT - 2) ! (i + 1 + j)) = cs ! j"
  proof (intro allI impI)
    fix j assume "j < length cs"
    then show "ascii_character (buffer w ! (BUFFER_HEIGHT - 2) ! (i + 1 + j)) = cs ! j"
      using spec [OF Cons.prems(2), of "Suc j"] by simp
  qed
  then show ?case
    using Cons.IH [of "i + 1"] Cons.prems spec [OF Cons.prems(2), of 0] assms(1)
    by (simp add: wf_buffer_def BUFFER_HEIGHT_def BUFFER_WIDTH_def)
qed simp



text \<open>\<open>print_something\<close> returns, on every buffer, with its one line shown.\<close>

lemma print_something_shows:
  assumes "wf_buffer mem"
  shows "\<exists>w t. print_something mem = Ret w \<and> displays t w \<and>
    term_line t = bytes_of ''Hello The numbers are 42 and 0.3333333333333333''"
proof -
  let ?w = "\<lparr> column_position = 0, color_code = ColorCode_new Yellow Blue, buffer = mem \<rparr>"
  let ?t = "\<lparr> term_rows = take 24 mem, term_base = mem ! 24, term_line = [] \<rparr>"
  let ?ss = "map bytes_of [''H'', ''ello '', ''The numbers are '', ''42'', '' and '', ''0.3333333333333333'']"
  have "displays ?t (WRITER_init mem)" by (rule displays_init [OF assms])
  then have d: "displays ?t ?w" by (simp add: displays_def WRITER_init_def current_row_def)
  have step: "vga_print (s # ss) = (\<lambda>w. bind_out (write_string s w) (vga_print ss))" for s ss
    by (simp add: fun_eq_iff write_str_def bind_out_def split: outcome.splits)
  have "write_string [72] w = write_byte 72 w" for w by (cases "write_byte 72 w") simp_all
  then have "print_something mem = vga_print ?ss ?w"
    by (simp add: print_something_def step [of "[72]"] step [of "bytes_of ''ello ''"] Let_def
        bytes_of_def [of "''H''"] del: vga_print.simps write_string.simps)
  moreover have "fold (term_put c) (map printable (concat ?ss)) ?t =
      ?t\<lparr> term_line := concat ?ss \<rparr>" for c
    by (simp add: bytes_of_def printable_def term_put_def)
  moreover obtain w where "vga_print ?ss ?w = Ret w"
    "displays (fold (term_put (ColorCode_new Yellow Blue)) (map printable (concat ?ss)) ?t) w"
    using vga_print_displays [OF d, of ?ss] by (auto simp del: vga_print.simps list.map concat.simps)
  moreover have "concat ?ss = bytes_of ''Hello The numbers are 42 and 0.3333333333333333''"
    by (simp add: bytes_of_def)
  ultimately show ?thesis by (intro exI [of _ w] exI [of _ "?t\<lparr> term_line := concat ?ss \<rparr>"]) simp
qed

text \<open>
  A colour code holds both colours: the background is read back from its high four bits and
  the foreground from its low four bits, for all 256 pairs.
\<close>

theorem color_code_roundtrip:
  "drop_bit 4 (ColorCode_new foreground background) = color_as_u8 background \<and>
   ColorCode_new foreground background AND 0x0F = color_as_u8 foreground"
  by (cases foreground; cases background) (simp_all add: ColorCode_new_def)

end
