(* ===== verification/Scanc.thy ===== *)
theory Scanc
  imports Kernel_Prelude
begin

section \<open>Scan codes (\<open>src/src/scanc.rs\<close>)\<close>

text \<open>The first translation of scan codes to keys, kept in the repository beside the decoder
  it uses now: the arms of the \<open>match\<close>, in their order.\<close>

definition key_table :: "(u8 \<times> string) list" where
  "key_table =
     [(0x02, ''1''), (0x03, ''2''), (0x04, ''3''), (0x05, ''4''), (0x06, ''5''), (0x07, ''6''), (0x08, ''7''),
      (0x09, ''8''), (0x0a, ''9''), (0x0b, ''0''), (0x1e, ''a''), (0x30, ''b''), (0x2e, ''c''), (0x20, ''d''),
      (0x12, ''e''), (0x21, ''f''), (0x22, ''g''), (0x23, ''h''), (0x17, ''i''), (0x24, ''j''), (0x25, ''k''),
      (0x26, ''l''), (0x32, ''m''), (0x31, ''n''), (0x18, ''o''), (0x19, ''p''), (0x10, ''q''), (0x13, ''r''),
      (0x1f, ''s''), (0x14, ''t''), (0x16, ''u''), (0x2f, ''v''), (0x11, ''w''), (0x2d, ''x''), (0x15, ''y''),
      (0x2c, ''z''), (0x39, '' ''), (0x0c, ''-''), (0x0d, ''=''), (0x1a, ''[''), (0x1b, '']''), (0x2b, [CHR 0x5C]),
      (0x27, '';''), (0x28, [CHR 0x27]), (0x33, '',''), (0x34, ''.''), (0x35, ''/'')]"

definition get_key :: "u8 \<Rightarrow> string option" where
  "get_key scancode = map_of key_table scancode"

lemma map_of_inj_on:
  assumes "distinct (map snd xs)"
  shows "inj_on (map_of xs) (dom (map_of xs))"
proof (rule inj_onI)
  fix a b assume "a \<in> dom (map_of xs)" "map_of xs a = map_of xs b"
  then obtain k where "(a, k) \<in> set xs" "(b, k) \<in> set xs" by (metis domD map_of_SomeD)
  then show "a = b" using assms inj_onD [of snd "set xs" "(a, k)" "(b, k)"] by (simp add: distinct_map)
qed

lemma key_table_distinct: "distinct (map snd key_table)"
  by (simp add: key_table_def)

lemma key_table_rows: "(code, k) \<in> set key_table \<Longrightarrow> get_key code = Some k"
  unfolding get_key_def by (rule map_of_is_SomeI) (simp_all add: key_table_def)

text \<open>
  No key is translated twice: two scan codes with the same translation are equal, so a
  translation can be undone; every letter and every digit has a scan code, and every translation
  is one character.
\<close>

theorem get_key_injective:
  "inj_on get_key (dom get_key) \<and>
   set ''abcdefghijklmnopqrstuvwxyz0123456789'' \<subseteq> {c. \<exists>code. get_key code = Some [c]} \<and>
   ran get_key \<subseteq> {k. length k = 1}"
proof (intro conjI)
  have eq: "get_key = map_of key_table" by (rule ext) (simp add: get_key_def)
  show "inj_on get_key (dom get_key)" unfolding eq by (rule map_of_inj_on [OF key_table_distinct])
  have "\<forall>c\<in>set ''abcdefghijklmnopqrstuvwxyz0123456789''. [c] \<in> snd ` set key_table"
    by (simp add: key_table_def)
  then show "set ''abcdefghijklmnopqrstuvwxyz0123456789'' \<subseteq> {c. \<exists>code. get_key code = Some [c]}"
    using key_table_rows by fastforce
  have "\<forall>k\<in>snd ` set key_table. length k = 1" by (simp add: key_table_def)
  then show "ran get_key \<subseteq> {k. length k = 1}"
    unfolding eq by (auto simp: ran_def dest!: map_of_SomeD)
qed

end
