(* ===== verification/Spec2Isabelle.thy ===== *)
theory Spec2Isabelle
  imports Typing Vec_Test Locked Persistence Idle Bump Vga_Buffer Scanc
begin

text \<open>
  Verification of the kernel \<open>blog_os\<close>.

  \<^bold>\<open>The program.\<close> A kernel for x86-64 that runs on one processor. The boot loader enters
  \<open>kernel_main\<close> (\<open>src/src/main.rs\<close>), which prints the memory map, loads the processor's tables and
  enables interrupts, maps a heap, looks for a virtio block device on the PCI bus, tests it, mounts
  or formats a small file system on it, creates a file, and hands over to an executor of
  asynchronous tasks. From then on the keyboard interrupt feeds a queue of scan codes, and a task
  prints the keys. Below lie three allocators, a frame allocator and page tables, the disk layout,
  the text screen and the serial port.

  \<^bold>\<open>The theories and the code they model.\<close>
  \<^item> \<open>Kernel_Prelude\<close>: machine words, checked arithmetic, \<open>outcome\<close> (a panic is a value), \<open>result\<close>,
    the monad of fallible stateful code, byte fields, shared lemmas.
  \<^item> \<open>FS_Layout\<close>: \<open>fs/layout.rs\<close>, the disk structures and bitmaps. \<open>Block_Dev\<close>: \<open>fs/block_dev.rs\<close>.
  \<^item> \<open>Simple_FS\<close>: \<open>fs/simple_fs.rs\<close>, every method. \<open>Simple_FS_Inv\<close>, \<open>Simple_FS_Steps\<close>,
    \<open>Simple_FS_Dir\<close>, \<open>Simple_FS_Correct\<close>, \<open>Simple_FS_Format\<close>, \<open>Simple_FS_Session\<close>: the invariant of
    a disk, the abstract file system (a directory and a set of used inodes), and the refinement.
    \<open>Persistence\<close>: mounting a disk that was in use.
  \<^item> \<open>Allocator\<close>: \<open>allocator.rs\<close>, heap bounds, \<open>align_up\<close>, the contract of a global allocator.
    \<open>Bump\<close>, \<open>Linked_List_Alloc\<close>, \<open>Fixed_Size_Block\<close>: the three files of \<open>allocator/\<close>, the free lists
    kept in the memory they manage. \<open>Locked\<close>: the installed allocator behind its lock. \<open>Heap_Init\<close>:
    \<open>init_heap\<close>.
  \<^item> \<open>Memory\<close>: \<open>memory.rs\<close>, address translation and frame allocation.
  \<^item> \<open>Array_Queue\<close>, \<open>Tasks\<close>, \<open>Keyboard\<close>, \<open>Idle\<close>: \<open>task/\<close>, both executors, the keyboard task with the
    interrupt handler interleaved, and \<open>sleep_if_idle\<close>.
  \<^item> \<open>Virtio\<close>: \<open>virtio/\<close>, PCI configuration access, the scan and the hardware layer.
  \<^item> \<open>Rust_Fmt\<close>: the formatting of numbers the prints use. \<open>Serial\<close>: \<open>serial.rs\<close> and the macros
    \<open>print\<close> and \<open>println\<close>. \<open>Vga_Buffer\<close>: \<open>vga_buffer.rs\<close>.
  \<^item> \<open>Gdt\<close>: \<open>gdt.rs\<close>. \<open>Interrupts\<close>: \<open>interrupts.rs\<close> and \<open>init\<close> of \<open>lib.rs\<close>, and the processor's steps
    as far as locks and interrupts go. \<open>Scanc\<close>: \<open>scanc.rs\<close>.
  \<^item> \<open>Boot\<close>: the storage part of \<open>kernel_main\<close>. \<open>Kernel\<close>: \<open>kernel_main\<close>, its tasks, the panic handler.
    \<open>Typing\<close>: the running kernel, keyboard interrupts and rounds of the executor on one state.
  \<^item> \<open>Test_Harness\<close>, \<open>Heap_Tests\<close>, \<open>Vec_Test\<close>: the test runner of \<open>lib.rs\<close>, the test cases, and the programs of
    \<open>src/tests\<close>.

  \<^bold>\<open>How state and operations correspond.\<close> A struct is a record, a method a function that returns
  the new state. Code that returns \<open>Result\<close> and may panic is in the \<open>io\<close> monad of the prelude; code
  that prints or touches the machine is in the \<open>act\<close> monad of \<open>Serial\<close>, which keeps the state when
  it panics. The machine is a chain of extensible records: the console (\<open>Serial\<close>), the segment
  registers (\<open>Gdt\<close>), the interrupt table and controllers (\<open>Interrupts\<close>), then either the emulator's
  exit port (\<open>Test_Harness\<close>) or the kernel's globals (\<open>Kernel\<close>). Integers have their width, and
  arithmetic panics on overflow as in a debug build. What interrupts can interleave is a step
  function with explicit program points under an \<open>inductive\<close> relation (\<open>Keyboard\<close>, \<open>Interrupts\<close>,
  \<open>Idle\<close>).

  \<^bold>\<open>Packages.\<close> Code outside the repository is a parameter with its documented behaviour as a locale,
  interpreted on a concrete model: \<open>zerocopy_spec\<close>, \<open>virtio_driver\<close> and \<open>block_device_spec\<close>,
  \<open>fallback_heap\<close> (interpreted on the kernel's own linked-list allocator), \<open>paging_spec\<close>,
  \<open>pages_spec\<close>, \<open>heap_env\<close>, \<open>array_queue_spec\<close>, \<open>atomic_waker_spec\<close>, \<open>uart_spec\<close>, \<open>gdt_spec\<close>,
  \<open>spin_mutex_spec\<close>. The contract
  \<open>global_alloc\<close> is the kernel's own and is interpreted on all three allocators.

  \<^bold>\<open>What the theorems show.\<close>
  \<^item> Boot: \<open>kernel_main\<close> reaches the executor with tables, heap, file system and tasks in place; the
    disk is formatted at every boot; the first round of the executor leaves the keyboard task waiting.
  \<^item> File system: a session from formatting through any list of creations refines the abstract file
    system; each operation is characterised on every branch; round trips of the disk structures; the files
    are there again after a reboot and a mount, and the session goes on as if it had not been cut.
  \<^item> Allocators: under every client the held blocks stay inside the heap, aligned and disjoint;
    the lock is free between calls; first fit and reuse; a growing vector keeps its elements; frames
    are handed out once; \<open>init_heap\<close> maps each page to its own frame.
  \<^item> Tasks: self-waking tasks finish; what is typed is printed, in order; no scan code is lost under any interleaving; no wake-up is slept
    through; the print lock never deadlocks with a handler.
  \<^item> Output: the screen shows the last rows of a terminal; the panic report ends and can be read back;
    the verdict of a test run is right.
  \<^item> Faults: whatever is raised on an exhausted stack is handled on the double-fault stack.
  \<^item> Deviations: names that exist are reported as \<open>Corrupt\<close>; files beyond the inode table; wake-ups
    that pile up; initialising the linked-list allocator twice makes a request loop.

  \<^bold>\<open>Bounds and fuel.\<close> Loops over finite data are structural or have a termination proof. \<open>find_loop\<close>,
  the executors and \<open>run_ready_tasks\<close> are partial functions, since a cyclic list or a task that wakes
  itself for ever makes them run for ever; the theorems show that they return. \<open>print_keypresses\<close>
  has fuel, one more than the scan codes waiting, which is the number of rounds its loop makes until
  the queue is empty.

  \<^bold>\<open>Not modelled.\<close> \<open>fs/mod.rs\<close> has no code. The transport through PCI belongs to \<open>virtio_drivers\<close>;
  opening a device is a parameter of \<open>kernel_main\<close>. The messages of \<open>kernel_main\<close> after the boot report
  mix with prints the driver causes through the hardware layer in an order the package decides, and
  are left out, as are the prints of the hardware layer and of the file system. The debug output of
  types of other packages is a parameter. The entry point of \<open>src/tests/heap_allocation.rs\<close> repeats the
  steps of \<open>kernel_memory\<close> and is left out; since \<open>init_heap\<close> initialises the fallback heap once per
  page, which that package documents only for the first time, the heap tests start from a heap
  that was initialised once. Registers read by inline assembly are arguments.
\<close>

end
